(* ===== verification/Prelude.thy ===== *)
theory Prelude
  imports Main "HOL-Library.Word"
begin

text \<open>
  Shared vocabulary of the development: machine integers, faults (undefined behaviour and
  uncaught exceptions of the C++ program as values), sequencing of operations that may fault,
  C strings, and the list lemmas the components share.
\<close>

unbundle bit_operations_syntax

named_theorems run_simps \<open>unfolding rules for operations that may fault\<close>

type_synonym size_t = "64 word"
type_synonym uint = "32 word"
type_synonym bytes = "char list"

text \<open>
  What an execution of the program can end in other than a return: undefined behaviour (a null or
  indeterminate pointer dereferenced, a \<open>static_cast\<close> to the wrong class, a buffer read or
  written out of its bounds), a loop that never ends, a failed assertion, and an exception that
  leaves the library.
\<close>

datatype fault =
    Null_Deref
  | Wild_Deref
  | Bad_Cast
  | Over_Read
  | Buffer_Overflow
  | Diverges
  | Aborted
  | Uncaught string

type_synonym 'a run = "fault + 'a"

section \<open>Operations that may fault\<close>

fun rbind :: "'e + 'a \<Rightarrow> ('a \<Rightarrow> 'e + 'b) \<Rightarrow> 'e + 'b" where
  "rbind (Inl e) f = Inl e"
| "rbind (Inr x) f = f x"

lemma rbind_Inr_iff [simp]: "rbind m f = Inr y \<longleftrightarrow> (\<exists>x. m = Inr x \<and> f x = Inr y)"
  by (cases m) auto

lemma rbind_Inl_iff: "rbind m f = Inl e \<longleftrightarrow> m = Inl e \<or> (\<exists>x. m = Inr x \<and> f x = Inl e)"
  by (cases m) auto

lemma rbind_assoc: "rbind (rbind m f) g = rbind m (\<lambda>x. rbind (f x) g)"
  by (cases m) auto

lemma rbind_Inr_right [simp]: "rbind m Inr = m"
  by (cases m) auto

lemma rbind_cong [fundef_cong]:
  "m = m' \<Longrightarrow> (\<And>x. m' = Inr x \<Longrightarrow> f x = f' x) \<Longrightarrow> rbind m f = rbind m' f'"
  by (cases m') auto

text \<open>A C++ loop over a list whose body may fault: the first fault ends it.\<close>

fun rfold :: "('x \<Rightarrow> 's \<Rightarrow> 'e + 's) \<Rightarrow> 'x list \<Rightarrow> 's \<Rightarrow> 'e + 's" where
  "rfold f [] s = Inr s"
| "rfold f (x # xs) s = rbind (f x s) (rfold f xs)"

lemma rbind_rfold_Nil [simp]: "rbind m (rfold f []) = m"
  by (cases m) auto

lemma rfold_append: "rfold f (xs @ ys) s = rbind (rfold f xs s) (rfold f ys)"
  by (induction xs arbitrary: s) (auto simp: rbind_assoc intro!: arg_cong [where f = "rbind _"])

lemma rfold_cong [fundef_cong]:
  "xs = ys \<Longrightarrow> s = t \<Longrightarrow> (\<And>x s. x \<in> set ys \<Longrightarrow> f x s = g x s) \<Longrightarrow> rfold f xs s = rfold g ys t"
proof (induction xs arbitrary: ys s t)
  case Nil
  then show ?case by auto
next
  case (Cons x xs)
  then obtain zs where ys: "ys = x # zs" by auto
  have "rfold f xs u = rfold g zs u" for u
    using Cons.prems ys by (intro Cons.IH) auto
  then show ?case using Cons.prems ys by (simp cong: rbind_cong)
qed

text \<open>The loop invariant rule of \<open>rfold\<close>.\<close>

lemma rfold_invariant:
  assumes "rfold f xs s = Inr t" and "I s"
    and "\<And>x u v. x \<in> set xs \<Longrightarrow> I u \<Longrightarrow> f x u = Inr v \<Longrightarrow> I v"
  shows "I t"
  using assms by (induction xs arbitrary: s) auto

lemma rfold_total:
  assumes "\<And>x u. x \<in> set xs \<Longrightarrow> I u \<Longrightarrow> \<exists>v. f x u = Inr v \<and> I v" and "I s"
  shows "\<exists>t. rfold f xs s = Inr t \<and> I t"
  using assms
proof (induction xs arbitrary: s)
  case Nil
  then show ?case by simp
next
  case (Cons x xs)
  then obtain v where v: "f x s = Inr v" "I v" by (metis list.set_intros(1))
  with Cons obtain t where "rfold f xs v = Inr t \<and> I t" by (metis list.set_intros(2))
  with v show ?case by simp
qed

lemma rfold_fault: "rfold f xs s = Inl e \<Longrightarrow> \<exists>x t. f x t = Inl e"
  by (induction xs arbitrary: s) (auto simp: rbind_Inl_iff)

text \<open>A function that may loop forever: not returning is the value \<open>None\<close>.\<close>

fun returns :: "'a option \<Rightarrow> fault + 'a" where
  "returns None = Inl Diverges"
| "returns (Some x) = Inr x"

lemma returns_Inr_iff [simp]: "returns m = Inr x \<longleftrightarrow> m = Some x"
  by (cases m) auto

section \<open>C strings\<close>

definition NUL :: char where
  "NUL = CHR 0x00"

definition c_str :: "bytes \<Rightarrow> bytes" where
  "c_str s = takeWhile (\<lambda>c. c \<noteq> NUL) s"

text \<open>\<open>strcmp(a.data(), b.data()) == 0\<close>: the strings agree up to their first zero byte.\<close>

definition strcmp_eq :: "bytes \<Rightarrow> bytes \<Rightarrow> bool" where
  "strcmp_eq a b \<longleftrightarrow> c_str a = c_str b"

lemma c_str_idem [simp]: "c_str (c_str s) = c_str s"
  by (auto simp: c_str_def takeWhile_eq_all_conv dest: set_takeWhileD)

lemma c_str_id: "NUL \<notin> set s \<Longrightarrow> c_str s = s"
  by (auto simp: c_str_def takeWhile_eq_all_conv)

lemma c_str_append_NUL: "NUL \<notin> set s \<Longrightarrow> c_str (s @ NUL # t) = s"
  by (induction s) (auto simp: c_str_def)

text \<open>A buffer of \<open>n\<close> bytes, cleared by \<open>memset\<close> and then filled from its start.\<close>

definition fill :: "nat \<Rightarrow> bytes \<Rightarrow> bytes" where
  "fill n d = take n (d @ replicate n NUL)"

lemma length_fill [simp]: "length (fill n d) = n"
  by (simp add: fill_def)

lemma take_fill: "m \<le> n \<Longrightarrow> length d = m \<Longrightarrow> take m (fill n d) = d"
  by (simp add: fill_def)

section \<open>Arrays\<close>

text \<open>
  A heap array whose elements are indeterminate (\<open>None\<close>) until they are written; a write past its
  end is undefined.
\<close>

definition write_at :: "nat \<Rightarrow> 'a \<Rightarrow> 'a option list \<Rightarrow> fault + 'a option list" where
  "write_at j v a = (if j < length a then Inr (a[j := Some v]) else Inl Buffer_Overflow)"

lemma write_at_next [run_simps]:
  "write_at (length vs) v (map Some vs @ replicate (Suc n) None) = Inr (map Some (vs @ [v]) @ replicate n None)"
  by (simp add: write_at_def list_update_append)

section \<open>Lists of pointers\<close>

text \<open>
  The loop that every \<open>removeEventListener\<close> runs: erase the first element equal to the
  argument and stop.
\<close>

fun erase_first :: "'a \<Rightarrow> 'a list \<Rightarrow> 'a list" where
  "erase_first l [] = []"
| "erase_first l (x # xs) = (if l = x then xs else x # erase_first l xs)"

lemma erase_first_remove1: "erase_first l xs = remove1 l xs"
  by (induction xs) auto

end
