(* ===== verification/Os.thy ===== *)
theory Os
  imports Prelude
begin

text \<open>
  The world outside the program: the system calls and the libwebsockets functions the servers
  call, the events the servers hand to their listeners, and the trace of both. The operating
  system, the allocator and libwebsockets (a binary under external/, only its header is in the
  repository) are a parameter of the model: a function from the trace so far and the call to
  the reply.
\<close>

datatype family = AF_INET | AF_UNIX

datatype sock_type = SOCK_STREAM | SOCK_DGRAM

text \<open>The address given to \<open>bind\<close>: a 16-bit port on \<open>INADDR_ANY\<close>, or a socket path.\<close>

datatype bind_addr = Port "16 word" | Sun_Path bytes

text \<open>
  \<open>struct lws_protocols\<close>, as the program fills it in: the name, whether the callback is set, the
  user pointer (to the name's bytes, or to a server), the two sizes and the id. In an array an
  entry that is allocated and not written is \<open>None\<close>.
\<close>

datatype lws_user = User_Null | User_Name string | User_Server nat

record lws_protocol =
  lp_name :: "string option"
  lp_has_callback :: bool
  lp_user :: lws_user
  lp_per_session :: nat
  lp_rx_buffer :: nat
  lp_id :: uint

text \<open>
  \<open>struct lws_context_creation_info\<close>: the fields that the two \<open>init\<close> functions set; a null
  string pointer is \<open>None\<close>.
\<close>

record lws_info =
  li_port :: int
  li_protocols :: "lws_protocol option list"
  li_keepalive_timeout :: nat
  li_timeout_secs :: nat
  li_vhost_name :: "string option"
  li_private_key :: "string option"
  li_private_key_password :: "string option"
  li_cert :: "string option"
  li_ca :: "string option"
  li_cipher_list :: "string option"
  li_options :: uint
  li_server_string :: string
  li_fd_limit :: uint
  li_user :: nat

datatype write_mode = LWS_WRITE_TEXT | LWS_WRITE_HTTP | LWS_WRITE_HTTP_HEADERS

datatype (plugins only: code size) os_call =
    Malloc nat
  | New_Client
  | Epoll_Create uint
  | Epoll_Add int int
  | Epoll_Del int int
  | Epoll_Wait int nat
  | Socket family sock_type
  | Set_Reuse_Addr int
  | Bind int bind_addr
  | Listen int nat
  | Accept int
  | Read int nat
  | Write int bytes
  | Recvfrom int nat
  | Sendto int bytes bytes
  | Getpeername int
  | Gethostbyaddr bytes
  | Close int
  | Access string
  | Unlink string
  | Pthread_Create nat
  | Pthread_Join nat
  | Lws_Create_Context lws_info
  | Lws_Create_Vhost size_t lws_info
  | Lws_Context_Destroy size_t
  | Lws_Service size_t
  | Lws_Get_Socket_Fd nat
  | Lws_Hdr_Copy_Uri nat nat
  | Lws_Add_Header nat string bytes
  | Lws_Finalize_Header nat
  | Lws_Write nat bytes write_mode
  | Lws_Transaction_Completed nat

text \<open>The callbacks one call of \<open>lws_service\<close> makes: \<open>enum lws_callback_reasons\<close>, wsi and data.\<close>

datatype (plugins only: code size) lws_reason =
    LWS_CALLBACK_ESTABLISHED
  | LWS_CALLBACK_CLOSED
  | LWS_CALLBACK_CLOSED_HTTP
  | LWS_CALLBACK_RECEIVE
  | LWS_CALLBACK_HTTP
  | LWS_CALLBACK_HTTP_BODY
  | LWS_CALLBACK_HTTP_BODY_COMPLETION
  | LWS_CALLBACK_HTTP_WRITEABLE
  | LWS_CALLBACK_SERVER_NEW_CLIENT_INSTANTIATED
  | LWS_CALLBACK_FILTER_PROTOCOL_CONNECTION
  | LWS_CALLBACK_PROTOCOL_INIT
  | LWS_CALLBACK_PROTOCOL_DESTROY
  | LWS_CALLBACK_WSI_CREATE
  | LWS_CALLBACK_GET_THREAD_ID
  | LWS_CALLBACK_DEL_POLL_FD
  | LWS_CALLBACK_WS_PEER_INITIATED_CLOSE
  | LWS_CALLBACK_OTHER nat

record lws_callback =
  cb_reason :: lws_reason
  cb_wsi :: nat
  cb_in :: bytes

text \<open>
  A reply: the returned integer or pointer, the bytes and the peer address the call stores, the
  descriptors \<open>epoll_wait\<close> reports and the callbacks \<open>lws_service\<close> makes.
\<close>

record reply =
  r_ret :: int
  r_ptr :: size_t
  r_data :: bytes
  r_addr :: bytes
  r_fds :: "int list"
  r_cbs :: "lws_callback list"

text \<open>
  The four methods of \<open>IBaseServerListener\<close> and \<open>IServerFactoryListener\<close> and the five of
  \<open>IAnyServerListener\<close>, as the call they receive. A message is a pointer and an
  \<open>unsigned int\<close>: the bytes of the buffer behind the pointer, and the length passed on.
\<close>

datatype event =
    Client_Connected size_t size_t
  | Client_Disconnected size_t size_t
  | Received size_t size_t bytes uint
  | Received_Protocol size_t size_t bytes uint bytes
  | System_Signal int

text \<open>Which of the three listener interfaces a call goes through.\<close>

datatype layer = Base_Listener | Factory_Listener | User_Listener

text \<open>
  What can be observed of a run, in order: system calls with their replies, calls of listeners by
  address, and the release of a client record's storage (its last shared pointer is gone).
\<close>

datatype obs =
    Call os_call reply
  | Notified layer nat event
  | Released size_t

type_synonym kernel = "obs list \<Rightarrow> os_call \<Rightarrow> reply"

text \<open>
  \<open>msg_bytes\<close> is what a callee reads that is given a buffer and a length: it faults when the
  length exceeds the buffer.
\<close>

definition msg_bytes :: "bytes \<Rightarrow> uint \<Rightarrow> fault + bytes" where
  "msg_bytes buf len = (if unat len \<le> length buf then Inr (take (unat len) buf) else Inl Over_Read)"

lemma msg_bytes_ok [run_simps]: "unat len \<le> length buf \<Longrightarrow> msg_bytes buf len = Inr (take (unat len) buf)"
  by (simp add: msg_bytes_def)

text \<open>The events of a trace that reached one interface, in order.\<close>

definition notified :: "layer \<Rightarrow> nat \<Rightarrow> obs list \<Rightarrow> event list" where
  "notified ly l tr = concat (map (\<lambda>ob. case ob of
      Notified ly' l' e \<Rightarrow> if ly' = ly \<and> l' = l then [e] else []
    | _ \<Rightarrow> []) tr)"

lemma notified_append [simp]: "notified ly l (tr @ tr') = notified ly l tr @ notified ly l tr'"
  by (simp add: notified_def)

lemma notified_Nil [simp]: "notified ly l [] = []"
  by (simp add: notified_def)

lemma notified_Call [simp]: "notified ly l (Call c r # tr) = notified ly l tr"
  by (simp add: notified_def)

lemma notified_Released [simp]: "notified ly l (Released p # tr) = notified ly l tr"
  by (simp add: notified_def)

lemma notified_Notified [simp]:
  "notified ly l (Notified ly' l' e # tr) =
     (if ly' = ly \<and> l' = l then e # notified ly l tr else notified ly l tr)"
  by (simp add: notified_def)

section \<open>Documented behaviour of the system along a trace\<close>

text \<open>
  After a trace: the addresses that hold a client record, the socket descriptors that are open,
  and the pairs of an epoll instance and a descriptor registered with it.
\<close>

fun live_step :: "obs \<Rightarrow> size_t set \<Rightarrow> size_t set" where
  "live_step (Call New_Client r) L = (if r_ptr r = 0 then L else insert (r_ptr r) L)"
| "live_step (Released p) L = L - {p}"
| "live_step _ L = L"

fun open_step :: "obs \<Rightarrow> int set \<Rightarrow> int set" where
  "open_step (Call (Socket f t) r) F = (if r_ret r < 0 then F else insert (r_ret r) F)"
| "open_step (Call (Accept s) r) F = (if r_ret r < 0 then F else insert (r_ret r) F)"
| "open_step (Call (Close fd) r) F = F - {fd}"
| "open_step _ F = F"

fun epoll_step :: "obs \<Rightarrow> (int \<times> int) set \<Rightarrow> (int \<times> int) set" where
  "epoll_step (Call (Epoll_Add ep fd) r) E = (if r_ret r < 0 then E else insert (ep, fd) E)"
| "epoll_step (Call (Epoll_Del ep fd) r) E = E - {(ep, fd)}"
| "epoll_step _ E = E"

definition live_ptrs :: "obs list \<Rightarrow> size_t set" where
  "live_ptrs tr = fold live_step tr {}"

definition open_fds :: "obs list \<Rightarrow> int set" where
  "open_fds tr = fold open_step tr {}"

definition epoll_regs :: "obs list \<Rightarrow> (int \<times> int) set" where
  "epoll_regs tr = fold epoll_step tr {}"

lemma history_simps [simp]:
  "live_ptrs [] = {}" "live_ptrs (tr @ obs) = fold live_step obs (live_ptrs tr)"
  "open_fds [] = {}" "open_fds (tr @ obs) = fold open_step obs (open_fds tr)"
  "epoll_regs [] = {}" "epoll_regs (tr @ obs) = fold epoll_step obs (epoll_regs tr)"
  by (simp_all add: live_ptrs_def open_fds_def epoll_regs_def)

text \<open>
  What the allocator and the kernel promise of a reply, given the trace before the call: \<open>new\<close>
  fails (0 here, the exception \<open>bad_alloc\<close>) or returns storage that is not in use; \<open>socket\<close> and
  \<open>accept\<close> fail or return a descriptor that is not open; \<open>read\<close> and \<open>recvfrom\<close> fail or store at
  most the bytes asked for and return how many; a new epoll instance is empty, a failed call's -1
  cannot be registered with it, and \<open>epoll_wait\<close> reports registered descriptors, each once.
\<close>

fun os_ok_call :: "obs list \<Rightarrow> os_call \<Rightarrow> reply \<Rightarrow> bool" where
  "os_ok_call tr New_Client r = (r_ptr r \<notin> live_ptrs tr)"
| "os_ok_call tr (Socket f t) r = (r_ret r \<notin> open_fds tr)"
| "os_ok_call tr (Accept s) r = (r_ret r \<notin> open_fds tr)"
| "os_ok_call tr (Read fd n) r = (r_ret r \<le> int n \<and> length (r_data r) = nat (r_ret r))"
| "os_ok_call tr (Recvfrom fd n) r = (r_ret r \<le> int n \<and> length (r_data r) = nat (r_ret r))"
| "os_ok_call tr (Epoll_Create n) r = (r_ret r < 0 \<or> r_ret r \<notin> fst ` epoll_regs tr)"
| "os_ok_call tr (Epoll_Add ep fd) r = (fd < 0 \<longrightarrow> r_ret r < 0)"
| "os_ok_call tr (Epoll_Wait ep n) r =
     (let fds = take (nat (r_ret r)) (r_fds r)
      in distinct fds \<and> (\<forall>fd \<in> set fds. (ep, fd) \<in> epoll_regs tr))"
| "os_ok_call tr _ r = True"

definition kernel_ok :: "kernel \<Rightarrow> bool" where
  "kernel_ok k \<longleftrightarrow> (\<forall>tr c. os_ok_call tr c (k tr c))"

lemma kernel_okD: "kernel_ok k \<Longrightarrow> os_ok_call tr c (k tr c)"
  by (simp add: kernel_ok_def)

text \<open>A kernel with this behaviour exists: every call fails.\<close>

definition failing_kernel :: kernel where
  "failing_kernel tr c = \<lparr>r_ret = -1, r_ptr = 0, r_data = [], r_addr = [], r_fds = [], r_cbs = []\<rparr>"

lemma live_nonzero [simp]: "0 \<notin> live_ptrs tr"
proof (induction tr rule: rev_induct)
  case (snoc ob tr)
  then show ?case by (cases "(ob, live_ptrs tr)" rule: live_step.cases) auto
qed simp

lemma open_nonneg: "fd \<in> open_fds tr \<Longrightarrow> 0 \<le> fd"
proof (induction tr rule: rev_induct)
  case (snoc ob tr)
  then show ?case by (cases "(ob, open_fds tr)" rule: open_step.cases) (auto split: if_splits)
qed simp

lemma failing_kernel_ok: "kernel_ok failing_kernel"
proof -
  have "os_ok_call tr c (failing_kernel tr c)" for tr c
    using open_nonneg [of "-1" tr]
    by (cases "(tr, c, failing_kernel tr c)" rule: os_ok_call.cases) (auto simp: failing_kernel_def)
  then show ?thesis by (simp add: kernel_ok_def)
qed

text \<open>
  Observations that concern neither the client tables nor the descriptors: what application code
  can cause from inside a notification.
\<close>

fun quiet :: "obs \<Rightarrow> bool" where
  "quiet (Call c r) = (case c of
      Write _ _ \<Rightarrow> True | Sendto _ _ _ \<Rightarrow> True | Pthread_Join _ \<Rightarrow> True
    | Lws_Add_Header _ _ _ \<Rightarrow> True | Lws_Finalize_Header _ \<Rightarrow> True
    | Lws_Write _ _ _ \<Rightarrow> True | Lws_Transaction_Completed _ \<Rightarrow> True | _ \<Rightarrow> False)"
| "quiet (Notified ly l e) = (ly \<noteq> Base_Listener)"
| "quiet (Released p) = False"

lemma quiet_steps: "quiet ob \<Longrightarrow> live_step ob L = L \<and> open_step ob F = F \<and> epoll_step ob E = E"
proof (cases ob)
  case (Call c r)
  then show "quiet ob \<Longrightarrow> ?thesis" by (cases c) simp_all
qed simp_all

lemma quiet_history:
  "\<forall>ob \<in> set obs. quiet ob \<Longrightarrow>
   fold live_step obs L = L \<and> fold open_step obs F = F \<and> fold epoll_step obs E = E"
  by (induction obs) (simp_all add: quiet_steps)

lemma quiet_notified: "\<forall>ob \<in> set obs. quiet ob \<Longrightarrow> notified Base_Listener l obs = []"
  by (induction obs) (auto simp: notified_def split: obs.splits)

section \<open>The session specification\<close>

text \<open>
  What a listener may rely on, whatever the transport: the notifications of one server are a
  sequence of sessions. A client is connected at most once at a time, a message comes from a
  connected client and is no longer than its buffer, and only a connected client is disconnected.
  The automaton keeps the set of connected clients; \<open>None\<close> is a violation.
\<close>

fun session_step :: "size_t \<Rightarrow> event \<Rightarrow> size_t set \<Rightarrow> size_t set option" where
  "session_step sid (Client_Connected s c) L =
     (if s \<noteq> sid then Some L else if c \<in> L then None else Some (insert c L))"
| "session_step sid (Client_Disconnected s c) L =
     (if s \<noteq> sid then Some L else if c \<in> L then Some (L - {c}) else None)"
| "session_step sid (Received s c buf len) L =
     (if s \<noteq> sid then Some L else if c \<in> L \<and> unat len \<le> length buf then Some L else None)"
| "session_step sid (Received_Protocol s c buf len p) L =
     (if s \<noteq> sid then Some L else if c \<in> L \<and> unat len \<le> length buf then Some L else None)"
| "session_step sid (System_Signal n) L = Some L"

fun session_run :: "size_t \<Rightarrow> event list \<Rightarrow> size_t set \<Rightarrow> size_t set option" where
  "session_run sid [] L = Some L"
| "session_run sid (e # es) L = Option.bind (session_step sid e L) (session_run sid es)"

lemma session_run_append:
  "session_run sid (es @ es') L = Option.bind (session_run sid es L) (session_run sid es')"
proof (induction es arbitrary: L)
  case Nil
  then show ?case by simp
next
  case (Cons e es)
  then show ?case by (cases "session_step sid e L") auto
qed

end
