(* ===== verification/Base_Server.thy ===== *)
theory Base_Server
  imports Os
begin

text \<open>
  The classes \<open>BaseServer\<close> and \<open>BaseServerImpl\<close> (include/anyserver.h, src/base_server_impl.h and
  .cpp): the client records of the six server classes, the client list and its four operations,
  the listener list, the \<open>NOTIFY_*\<close> macros, and the world the servers run in.
\<close>

section \<open>Client records\<close>

text \<open>
  The class of a client record and the members it adds. \<open>fd\<close> is \<open>m_fd\<close>, \<open>sa\<close> the bytes copied
  into \<open>m_sockaddr_in\<close> or \<open>m_sockaddr_un\<close>, \<open>wsi\<close> is \<open>m_wsi\<close>.
\<close>

datatype client_class =
    TcpClientInfo (tcp_fd: int) (tcp_sockaddr: bytes)
  | UdpClientInfo (udp_sockaddr: bytes)
  | HttpTcpClientInfo int bytes (http_wsi: nat)
  | WebSocketTcpClientInfo int bytes nat bytes

record client_info =
  ci_tcp :: bool
  ci_id :: size_t
  ci_class :: client_class

text \<open>
  The constructors. \<open>m_client_id\<close> is the hash of the address of the record's own member, which
  libstdc++ defines as the address itself, so the address the allocator returned is the id.
  The constructors of \<open>TcpClientInfo\<close> copy \<open>sizeof(sockaddr)\<close> bytes, the size of a pointer;
  those of \<open>UdpClientInfo\<close> copy the whole structure.
\<close>

definition hash_ptr :: "size_t \<Rightarrow> size_t" where
  "hash_ptr p = p"

definition sizeof_ptr :: nat where
  "sizeof_ptr = 8"

definition newTcpClientInfo :: "size_t \<Rightarrow> int \<Rightarrow> bytes \<Rightarrow> client_info" where
  "newTcpClientInfo p fd sa =
     \<lparr>ci_tcp = True, ci_id = hash_ptr p, ci_class = TcpClientInfo fd (take sizeof_ptr sa)\<rparr>"

definition newUdpClientInfo :: "size_t \<Rightarrow> bytes \<Rightarrow> client_info" where
  "newUdpClientInfo p sa = \<lparr>ci_tcp = False, ci_id = hash_ptr p, ci_class = UdpClientInfo sa\<rparr>"

definition newHttpTcpClientInfo :: "size_t \<Rightarrow> int \<Rightarrow> bytes \<Rightarrow> nat \<Rightarrow> client_info" where
  "newHttpTcpClientInfo p fd sa wsi =
     \<lparr>ci_tcp = True, ci_id = hash_ptr p,
      ci_class = HttpTcpClientInfo fd (take sizeof_ptr sa) wsi\<rparr>"

definition newWebSocketTcpClientInfo :: "size_t \<Rightarrow> int \<Rightarrow> bytes \<Rightarrow> nat \<Rightarrow> bytes \<Rightarrow> client_info" where
  "newWebSocketTcpClientInfo p fd sa wsi protocol =
     \<lparr>ci_tcp = True, ci_id = hash_ptr p,
      ci_class = WebSocketTcpClientInfo fd (take sizeof_ptr sa) wsi protocol\<rparr>"

text \<open>
  \<open>getFd\<close> after the \<open>static_cast\<close> to \<open>TcpClientInfo*\<close>: \<open>None\<close> is a record of another class,
  where the cast is undefined.
\<close>

definition getFd :: "client_info \<Rightarrow> int option" where
  "getFd c = (case ci_class c of
      TcpClientInfo fd _ \<Rightarrow> Some fd
    | HttpTcpClientInfo fd _ _ \<Rightarrow> Some fd
    | WebSocketTcpClientInfo fd _ _ _ \<Rightarrow> Some fd
    | UdpClientInfo _ \<Rightarrow> None)"

section \<open>The client list\<close>

text \<open>The loops of the two \<open>findClientInfo\<close>.\<close>

fun findClientInfo_fd :: "int \<Rightarrow> client_info list \<Rightarrow> fault + client_info option" where
  "findClientInfo_fd fd [] = Inr None"
| "findClientInfo_fd fd (c # cs) = (case getFd c of
      None \<Rightarrow> Inl Bad_Cast
    | Some f \<Rightarrow> if fd = f then Inr (Some c) else findClientInfo_fd fd cs)"

fun findClientInfo :: "size_t \<Rightarrow> client_info list \<Rightarrow> client_info option" where
  "findClientInfo cid [] = None"
| "findClientInfo cid (c # cs) = (if cid = ci_id c then Some c else findClientInfo cid cs)"

text \<open>
  \<open>m_client_list.remove(*it)\<close> removes every element equal to \<open>*it\<close>; shared pointers are equal
  when they point to the same record, whose address is its id.
\<close>

definition list_remove :: "client_info \<Rightarrow> client_info list \<Rightarrow> client_info list" where
  "list_remove c cs = filter (\<lambda>x. ci_id x \<noteq> ci_id c) cs"

text \<open>The two \<open>removeClientInfo\<close>: the removed client's id, or 0 when there is none.\<close>

definition removeClientInfo_fd :: "int \<Rightarrow> client_info list \<Rightarrow> fault + size_t \<times> client_info list" where
  "removeClientInfo_fd fd cs = rbind (findClientInfo_fd fd cs) (\<lambda>r. case r of
      None \<Rightarrow> Inr (0, cs)
    | Some c \<Rightarrow> Inr (ci_id c, list_remove c cs))"

definition removeClientInfo :: "size_t \<Rightarrow> client_info list \<Rightarrow> size_t \<times> client_info list" where
  "removeClientInfo cid cs = (case findClientInfo cid cs of
      None \<Rightarrow> (0, cs)
    | Some c \<Rightarrow> (cid, list_remove c cs))"

definition addClientInfo :: "client_info \<Rightarrow> client_info list \<Rightarrow> size_t \<times> client_info list" where
  "addClientInfo c cs = (ci_id c, cs @ [c])"

text \<open>The list of removal is the list without the first match, as ids identify records.\<close>

lemma list_remove_remove1:
  "distinct (map ci_id cs) \<Longrightarrow> c \<in> set cs \<Longrightarrow> list_remove c cs = remove1 c cs"
proof (induction cs)
  case Nil
  then show ?case by simp
next
  case (Cons a cs)
  show ?case
  proof (cases "a = c")
    case True
    with Cons.prems have "filter (\<lambda>x. ci_id x \<noteq> ci_id c) cs = cs"
      by (intro filter_True) (metis distinct.simps(2) image_eqI list.map(2) list.set_map)
    with True show ?thesis by (simp add: list_remove_def)
  next
    case False
    with Cons.prems have "ci_id a \<noteq> ci_id c" by force
    with False Cons show ?thesis by (simp add: list_remove_def)
  qed
qed

lemma findClientInfo_find: "findClientInfo cid cs = List.find (\<lambda>c. ci_id c = cid) cs"
  by (induction cs) auto

lemma findClientInfo_added:
  "ci_id c = cid \<Longrightarrow> cid \<notin> ci_id ` set cs \<Longrightarrow> findClientInfo cid (cs @ [c]) = Some c"
  by (induction cs) auto

lemma findClientInfo_fd_find:
  "\<forall>c \<in> set cs. getFd c \<noteq> None \<Longrightarrow>
   findClientInfo_fd fd cs = Inr (List.find (\<lambda>c. getFd c = Some fd) cs)"
  by (induction cs) auto

section \<open>The contract of a client registry\<close>

text \<open>
  The client list is used through two pairs of a lookup and a removal, one by descriptor and one
  by id. Both keep the same contract: a lookup returns the first record with the key, a removal
  removes that record and returns its id, or returns 0 and changes nothing.
\<close>

locale client_registry =
  fixes key :: "client_info \<Rightarrow> 'k option"
    and lookup :: "'k \<Rightarrow> client_info list \<Rightarrow> fault + client_info option"
    and remove :: "'k \<Rightarrow> client_info list \<Rightarrow> fault + size_t \<times> client_info list"
    and wf :: "client_info list \<Rightarrow> bool"
  assumes lookup_law: "wf cs \<Longrightarrow> lookup k cs = Inr (List.find (\<lambda>c. key c = Some k) cs)"
    and remove_missing: "wf cs \<Longrightarrow> lookup k cs = Inr None \<Longrightarrow> remove k cs = Inr (0, cs)"
    and remove_found: "wf cs \<Longrightarrow> lookup k cs = Inr (Some c) \<Longrightarrow> remove k cs = Inr (ci_id c, remove1 c cs)"
    and wf_ids: "wf cs \<Longrightarrow> distinct (map ci_id cs)"
    and wf_remove1: "wf cs \<Longrightarrow> wf (remove1 c cs)"
    and wf_add: "wf cs \<Longrightarrow> key c \<noteq> None \<Longrightarrow> ci_id c \<notin> ci_id ` set cs \<Longrightarrow> wf (cs @ [c])"
begin

lemma lookup_Some_in: "wf cs \<Longrightarrow> lookup k cs = Inr (Some c) \<Longrightarrow> c \<in> set cs \<and> key c = Some k"
  by (auto simp: lookup_law find_Some_iff)

lemma lookup_None_iff: "wf cs \<Longrightarrow> lookup k cs = Inr None \<longleftrightarrow> (\<forall>c \<in> set cs. key c \<noteq> Some k)"
  by (auto simp: lookup_law find_None_iff)

lemma remove_total: "wf cs \<Longrightarrow> \<exists>r. remove k cs = Inr r"
  using lookup_law [of cs k] remove_missing [of cs k] remove_found [of cs k]
  by (cases "List.find (\<lambda>c. key c = Some k) cs") auto

lemma lookup_added:
  "wf cs \<Longrightarrow> key c = Some k \<Longrightarrow> ci_id c \<notin> ci_id ` set cs \<Longrightarrow> lookup k cs = Inr None \<Longrightarrow>
   lookup k (cs @ [c]) = Inr (Some c)"
  using wf_add [of cs c] by (auto simp: lookup_law find_None_iff find_Some_iff nth_append intro!: exI [of _ "length cs"])

lemma remove_wf: "wf cs \<Longrightarrow> remove k cs = Inr (i, cs') \<Longrightarrow> wf cs'"
  using lookup_law [of cs k] remove_missing [of cs k] remove_found [of cs k] wf_remove1
  by (cases "List.find (\<lambda>c. key c = Some k) cs") auto

lemma remove_ids: "wf cs \<Longrightarrow> remove k cs = Inr (i, cs') \<Longrightarrow> set (map ci_id cs') \<subseteq> set (map ci_id cs)"
  using lookup_law [of cs k] remove_missing [of cs k] remove_found [of cs k]
  by (cases "List.find (\<lambda>c. key c = Some k) cs") (use set_remove1_subset in fastforce)+

text \<open>A key that identifies its record is free again after a removal, and no other key is touched.\<close>

lemma lookup_removed:
  assumes "wf cs" "inj_on key (set cs)" "remove k cs = Inr (i, cs')"
  shows "lookup k cs' = Inr None"
proof (cases "List.find (\<lambda>c. key c = Some k) cs")
  case None
  with assms show ?thesis by (auto simp: lookup_law remove_missing)
next
  case (Some c)
  then have c: "c \<in> set cs" "key c = Some k" by (auto simp: find_Some_iff)
  from Some assms have cs': "cs' = remove1 c cs" by (simp add: lookup_law remove_found)
  have "distinct cs" using wf_ids [OF assms(1)] by (simp add: distinct_map)
  then have "set cs' = set cs - {c}" by (simp add: cs' set_remove1_eq)
  with c assms(2) have "\<forall>x \<in> set cs'. key x \<noteq> Some k"
    by (metis DiffE inj_onD insertI1)
  with assms(1) cs' show ?thesis by (simp add: lookup_None_iff wf_remove1)
qed

lemma lookup_other:
  assumes "wf cs" "remove k cs = Inr (i, cs')" "k' \<noteq> k"
  shows "lookup k' cs' = lookup k' cs"
proof (cases "List.find (\<lambda>c. key c = Some k) cs")
  case None
  with assms show ?thesis by (auto simp: lookup_law remove_missing)
next
  case (Some c)
  then have c: "key c = Some k" by (auto simp: find_Some_iff)
  from Some assms have cs': "cs' = remove1 c cs" by (simp add: lookup_law remove_found)
  have "List.find (\<lambda>x. key x = Some k') (remove1 c ds) = List.find (\<lambda>x. key x = Some k') ds" for ds
    using c assms(3) by (induction ds) auto
  with assms(1) cs' show ?thesis by (simp add: lookup_law wf_remove1)
qed

text \<open>Adding a fresh record and removing it by its key gives the list back, and its id.\<close>

lemma add_remove:
  assumes "wf cs" "key c = Some k" "ci_id c \<notin> ci_id ` set cs" "lookup k cs = Inr None"
  shows "remove k (cs @ [c]) = Inr (ci_id c, cs)"
proof -
  from assms have "wf (cs @ [c])" by (intro wf_add) auto
  moreover from assms have "lookup k (cs @ [c]) = Inr (Some c)" by (intro lookup_added)
  moreover from assms(3) have "c \<notin> set cs" by blast
  ultimately show ?thesis using remove_found by (simp add: remove1_append)
qed

end

text \<open>The two instances of the contract. By descriptor the list must hold TCP records only.\<close>

definition tcp_table :: "client_info list \<Rightarrow> bool" where
  "tcp_table cs \<longleftrightarrow> distinct (map ci_id cs) \<and> (\<forall>c \<in> set cs. getFd c \<noteq> None)"

definition id_table :: "client_info list \<Rightarrow> bool" where
  "id_table cs \<longleftrightarrow> distinct (map ci_id cs)"

interpretation by_fd: client_registry getFd findClientInfo_fd removeClientInfo_fd tcp_table
proof (unfold_locales, goal_cases)
  case (1 cs k)
  then show ?case by (simp add: tcp_table_def findClientInfo_fd_find)
next
  case (2 cs k)
  then show ?case by (simp add: removeClientInfo_fd_def)
next
  case (3 cs k c)
  then have "c \<in> set cs"
    by (auto simp: tcp_table_def findClientInfo_fd_find find_Some_iff)
  with 3 show ?case by (simp add: removeClientInfo_fd_def tcp_table_def list_remove_remove1)
next
  case (4 cs)
  then show ?case by (simp add: tcp_table_def)
next
  case (5 cs c)
  then show ?case
    by (auto simp: tcp_table_def distinct_map distinct_remove1 inj_on_diff set_remove1_eq)
next
  case (6 cs c)
  then show ?case by (auto simp: tcp_table_def)
qed

interpretation by_id: client_registry "\<lambda>c. Some (ci_id c)" "\<lambda>i cs. Inr (findClientInfo i cs)"
  "\<lambda>i cs. Inr (removeClientInfo i cs)" id_table
proof (unfold_locales, goal_cases)
  case (1 cs k)
  then show ?case by (simp add: findClientInfo_find)
next
  case (2 cs k)
  then show ?case by (simp add: removeClientInfo_def)
next
  case (3 cs k c)
  then have "c \<in> set cs" "ci_id c = k"
    by (auto simp: findClientInfo_find find_Some_iff)
  with 3 show ?case by (simp add: removeClientInfo_def id_table_def list_remove_remove1)
next
  case (4 cs)
  then show ?case by (simp add: id_table_def)
next
  case (5 cs c)
  then show ?case by (auto simp: id_table_def distinct_map distinct_remove1 inj_on_diff set_remove1_eq)
next
  case (6 cs c)
  then show ?case by (auto simp: id_table_def)
qed

end
