(* ===== verification/Server_World.thy ===== *)
theory Server_World
  imports Base_Server
begin

text \<open>
  The state of the servers and of the world they run in. A server object is one record: the
  members of \<open>BaseServer\<close> and \<open>BaseServerImpl\<close> first, then those of its subclass. The world
  holds the server objects in the order of the factory's list (a server pointer is its index),
  the class-static members of the two libwebsockets servers and the trace. The record is
  extended by the factory and by the application object in their own theories.
\<close>

datatype server_kind =
    WebSocketTcpServer
  | HttpTcpServer
  | InetDomainSocketTcpServer
  | InetDomainSocketUdpServer
  | UnixDomainSocketTcpServer
  | UnixDomainSocketUdpServer

text \<open>Where the thread of a server is: not created, created, in its loop, returned, joined.\<close>

datatype thread_pc = Thread_None | Thread_Created | Thread_Running | Thread_Exited | Thread_Joined

record server =
  s_kind :: server_kind
  s_name :: string
  s_bind :: string
  s_tcp :: bool
  s_max_client :: uint
  s_server_id :: size_t
  s_clients :: "client_info list"
  s_listeners :: "nat list"
  s_run_thread :: bool
  s_security :: bool
  s_cert :: string
  s_private_key :: string
  s_private_key_password :: string
  s_ca :: string
  s_epoll_fd :: int
  s_server_fd :: int
  s_protocols :: "lws_protocol option list"
  s_thread :: thread_pc

record world =
  trace :: "obs list"
  servers :: "server list"
  http_context :: size_t
  http_req_body :: bytes
  ws_context :: size_t
  ws_vhost :: size_t

section \<open>Construction\<close>

definition to_string_bool :: "bool \<Rightarrow> string" where
  "to_string_bool b = (if b then ''1'' else ''0'')"

text \<open>
  \<open>m_server_id\<close> is \<open>hash<string>\<close> of this key; the hash itself is the standard library's and a
  parameter.
\<close>

definition server_key :: "string \<Rightarrow> string \<Rightarrow> bool \<Rightarrow> string" where
  "server_key name bind tcp = name @ bind @ to_string_bool tcp"

definition newBaseServer ::
  "(string \<Rightarrow> size_t) \<Rightarrow> server_kind \<Rightarrow> string \<Rightarrow> string \<Rightarrow> bool \<Rightarrow> uint \<Rightarrow> server" where
  "newBaseServer hash kind name bind tcp max_client =
     \<lparr>s_kind = kind, s_name = name, s_bind = bind, s_tcp = tcp, s_max_client = max_client,
      s_server_id = hash (server_key name bind tcp),
      s_clients = [], s_listeners = [], s_run_thread = False,
      s_security = False, s_cert = [], s_private_key = [], s_private_key_password = [], s_ca = [],
      s_epoll_fd = 0, s_server_fd = 0, s_protocols = [], s_thread = Thread_None\<rparr>"

definition addEventListener :: "nat \<Rightarrow> server \<Rightarrow> server" where
  "addEventListener l s = s\<lparr>s_listeners := s_listeners s @ [l]\<rparr>"

definition removeEventListener :: "nat \<Rightarrow> server \<Rightarrow> server" where
  "removeEventListener l s = s\<lparr>s_listeners := erase_first l (s_listeners s)\<rparr>"

definition setCertification ::
  "bool \<Rightarrow> string \<Rightarrow> string \<Rightarrow> string \<Rightarrow> string \<Rightarrow> server \<Rightarrow> server" where
  "setCertification security cert_file private_key_file private_key_password ca_file s =
     s\<lparr>s_security := security, s_cert := cert_file, s_private_key := private_key_file,
       s_private_key_password := private_key_password, s_ca := ca_file\<rparr>"

section \<open>Access to one server, system calls\<close>

definition the_server :: "nat \<Rightarrow> 'a world_scheme \<Rightarrow> server" where
  "the_server i w = servers w ! i"

definition upd_server :: "nat \<Rightarrow> (server \<Rightarrow> server) \<Rightarrow> 'a world_scheme \<Rightarrow> 'a world_scheme" where
  "upd_server i f w = w\<lparr>servers := (servers w)[i := f (servers w ! i)]\<rparr>"

definition observe :: "obs \<Rightarrow> 'a world_scheme \<Rightarrow> 'a world_scheme" where
  "observe ob w = w\<lparr>trace := trace w @ [ob]\<rparr>"

definition sys :: "kernel \<Rightarrow> os_call \<Rightarrow> 'a world_scheme \<Rightarrow> reply \<times> 'a world_scheme" where
  "sys k c w = (let r = k (trace w) c in (r, observe (Call c r) w))"

definition add_client :: "nat \<Rightarrow> client_info \<Rightarrow> 'a world_scheme \<Rightarrow> size_t \<times> 'a world_scheme" where
  "add_client i c w = (let (cid, cs) = addClientInfo c (s_clients (the_server i w))
     in (cid, upd_server i (s_clients_update (\<lambda>_. cs)) w))"

text \<open>
  The removals on the server's own list. The list held the last shared pointer to the record, so
  its storage is free from here on; nothing is released when no record was found.
\<close>

definition store_removed ::
  "nat \<Rightarrow> size_t \<times> client_info list \<Rightarrow> 'a world_scheme \<Rightarrow> size_t \<times> 'a world_scheme" where
  "store_removed i r w =
     (let w' = upd_server i (s_clients_update (\<lambda>_. snd r)) w
      in (fst r, if length (snd r) < length (s_clients (the_server i w))
                 then observe (Released (fst r)) w' else w'))"

definition remove_client_fd :: "nat \<Rightarrow> int \<Rightarrow> 'a world_scheme \<Rightarrow> fault + size_t \<times> 'a world_scheme" where
  "remove_client_fd i fd w = rbind (removeClientInfo_fd fd (s_clients (the_server i w)))
     (\<lambda>r. Inr (store_removed i r w))"

definition remove_client :: "nat \<Rightarrow> size_t \<Rightarrow> 'a world_scheme \<Rightarrow> size_t \<times> 'a world_scheme" where
  "remove_client i cid w = store_removed i (removeClientInfo cid (s_clients (the_server i w))) w"

section \<open>Notification\<close>

text \<open>
  The four \<open>NOTIFY_*\<close> macros: a copy of the listener list is walked and the virtual method
  called on each element. The method is the argument \<open>up\<close>: the layer above is linked in later.
\<close>

type_synonym 'a listener = "nat \<Rightarrow> event \<Rightarrow> 'a world_scheme \<Rightarrow> fault + 'a world_scheme"

definition notify :: "'a listener \<Rightarrow> nat \<Rightarrow> event \<Rightarrow> 'a world_scheme \<Rightarrow> fault + 'a world_scheme" where
  "notify up i e w = rfold (\<lambda>l w. up l e (observe (Notified Base_Listener l e) w))
     (s_listeners (the_server i w)) w"

text \<open>
  In the two receive macros the client pointer is dereferenced inside the loop, once per
  listener: a null pointer is only harmless when nobody listens.
\<close>

definition notify_received ::
  "'a listener \<Rightarrow> nat \<Rightarrow> client_info option \<Rightarrow> (client_info \<Rightarrow> event) \<Rightarrow> 'a world_scheme
     \<Rightarrow> fault + 'a world_scheme" where
  "notify_received up i client mk w =
     (if s_listeners (the_server i w) = [] then Inr w
      else case client of None \<Rightarrow> Inl Null_Deref | Some c \<Rightarrow> notify up i (mk c) w)"

text \<open>Frame lemmas of the accessors.\<close>

lemma the_server_observe [simp]: "the_server i (observe ob w) = the_server i w"
  by (simp add: the_server_def observe_def)

lemma servers_observe [simp]: "servers (observe ob w) = servers w"
  by (simp add: observe_def)

lemma trace_observe [simp]: "trace (observe ob w) = trace w @ [ob]"
  by (simp add: observe_def)

lemma statics_simps [simp]:
  "http_context (observe ob w) = http_context w" "http_req_body (observe ob w) = http_req_body w"
  "ws_context (observe ob w) = ws_context w" "ws_vhost (observe ob w) = ws_vhost w"
  "http_context (upd_server i f w) = http_context w" "http_req_body (upd_server i f w) = http_req_body w"
  "ws_context (upd_server i f w) = ws_context w" "ws_vhost (upd_server i f w) = ws_vhost w"
  by (simp_all add: observe_def upd_server_def)

lemma length_upd_server [simp]: "length (servers (upd_server i f w)) = length (servers w)"
  by (simp add: upd_server_def)

lemma trace_upd_server [simp]: "trace (upd_server i f w) = trace w"
  by (simp add: upd_server_def)

lemma the_server_upd [simp]:
  "i < length (servers w) \<Longrightarrow>
   the_server j (upd_server i f w) = (if j = i then f (the_server i w) else the_server j w)"
  by (simp add: the_server_def upd_server_def)

lemma sys_simps [simp]:
  "fst (sys k c w) = k (trace w) c" "snd (sys k c w) = observe (Call c (k (trace w) c)) w"
  by (simp_all add: sys_def Let_def)

section \<open>What a notification leaves alone\<close>

text \<open>
  A listener runs application code in the middle of a handler. Through the public interface that
  code can send and can stop servers: it can clear run flags, join websocket threads and add to the trace, and
  nothing else of the servers changes.
\<close>

definition stable_server :: "server \<Rightarrow> server \<Rightarrow> bool" where
  "stable_server s t \<longleftrightarrow> t = s\<lparr>s_run_thread := s_run_thread t, s_thread := s_thread t\<rparr>
     \<and> (s_run_thread t \<longrightarrow> s_run_thread s) \<and> (s_thread t = s_thread s \<or> s_kind s = WebSocketTcpServer \<and> s_thread t = Thread_Joined)"

definition calm :: "'a world_scheme \<Rightarrow> 'a world_scheme \<Rightarrow> bool" where
  "calm w w' \<longleftrightarrow> (\<exists>tr. trace w' = trace w @ tr \<and> (\<forall>ob \<in> set tr. quiet ob))
     \<and> list_all2 stable_server (servers w) (servers w')
     \<and> http_context w' = http_context w \<and> http_req_body w' = http_req_body w
     \<and> ws_context w' = ws_context w \<and> ws_vhost w' = ws_vhost w"

lemma stable_server_refl [simp]: "stable_server s s"
  by (simp add: stable_server_def)

lemma stable_server_trans: "stable_server s t \<Longrightarrow> stable_server t u \<Longrightarrow> stable_server s u"
  by (cases s; cases t; cases u; auto simp: stable_server_def)

lemma stable_server_thread:
  "stable_server s t \<Longrightarrow> s_thread t = s_thread s \<or> s_kind s = WebSocketTcpServer \<and> s_thread t = Thread_Joined"
  by (simp add: stable_server_def)

lemma stable_server_fields:
  assumes "stable_server s t"
  shows "s_clients t = s_clients s" "s_listeners t = s_listeners s" "s_server_id t = s_server_id s"
    "s_kind t = s_kind s" "s_server_fd t = s_server_fd s" "s_epoll_fd t = s_epoll_fd s"
    "s_protocols t = s_protocols s" "s_name t = s_name s" "s_bind t = s_bind s"
  using assms by (cases s; cases t; simp add: stable_server_def)+

lemma calm_refl [simp]: "calm w w"
  by (simp add: calm_def list_all2_refl)

lemma calm_trans [trans]:
  assumes "calm u v" "calm v w"
  shows "calm u w"
proof -
  have "list_all2 stable_server (servers u) (servers w)"
    using assms list_all2_trans [of stable_server stable_server stable_server] stable_server_trans
    unfolding calm_def by blast
  with assms show ?thesis unfolding calm_def by fastforce
qed

lemma calm_observe [simp]: "quiet ob \<Longrightarrow> calm w (observe ob w)"
  by (simp add: calm_def observe_def list_all2_refl)

lemma calm_length: "calm w w' \<Longrightarrow> length (servers w') = length (servers w)"
  by (auto simp: calm_def dest: list_all2_lengthD)

lemma calm_server: "calm w w' \<Longrightarrow> i < length (servers w) \<Longrightarrow> stable_server (the_server i w) (the_server i w')"
  by (auto simp: calm_def the_server_def dest: list_all2_nthD)

lemma calm_clients:
  "calm w w' \<Longrightarrow> i < length (servers w) \<Longrightarrow> s_clients (the_server i w') = s_clients (the_server i w)"
  using calm_server stable_server_fields(1) by blast

lemma calm_history:
  assumes "calm w w'"
  shows "live_ptrs (trace w') = live_ptrs (trace w)" "open_fds (trace w') = open_fds (trace w)"
    "epoll_regs (trace w') = epoll_regs (trace w)"
  using assms quiet_history unfolding calm_def by fastforce+

text \<open>The effect of one notification on a list of listeners.\<close>

definition notify_effect :: "nat list \<Rightarrow> event \<Rightarrow> 'a world_scheme \<Rightarrow> 'a world_scheme \<Rightarrow> bool" where
  "notify_effect ls e w w' \<longleftrightarrow>
     list_all2 stable_server (servers w) (servers w')
   \<and> http_context w' = http_context w \<and> http_req_body w' = http_req_body w
   \<and> ws_context w' = ws_context w \<and> ws_vhost w' = ws_vhost w
   \<and> (\<exists>tr. trace w' = trace w @ tr \<and> live_ptrs (trace w') = live_ptrs (trace w)
        \<and> open_fds (trace w') = open_fds (trace w) \<and> epoll_regs (trace w') = epoll_regs (trace w)
        \<and> (\<forall>l. notified Base_Listener l tr = replicate (count_list ls l) e))"

lemma list_all2_stable_trans:
  "list_all2 stable_server xs ys \<Longrightarrow> list_all2 stable_server ys zs \<Longrightarrow> list_all2 stable_server xs zs"
  using list_all2_trans [of stable_server stable_server stable_server] stable_server_trans by blast

lemma notify_effect_Cons:
  assumes c: "calm (observe (Notified Base_Listener l e) w) v" and n: "notify_effect ls e v w'"
  shows "notify_effect (l # ls) e w w'"
proof -
  from c obtain tr where tr: "trace v = trace w @ [Notified Base_Listener l e] @ tr"
      "\<forall>ob \<in> set tr. quiet ob"
    by (auto simp: calm_def)
  from n obtain tr' where tr': "trace w' = trace v @ tr'"
      "\<forall>l. notified Base_Listener l tr' = replicate (count_list ls l) e"
    by (auto simp: notify_effect_def)
  let ?tr = "[Notified Base_Listener l e] @ tr @ tr'"
  have "trace w' = trace w @ ?tr" using tr(1) tr'(1) by simp
  moreover have "\<forall>l'. notified Base_Listener l' ?tr = replicate (count_list (l # ls) l') e"
    using tr'(2) quiet_notified [OF tr(2)] by auto
  moreover have "live_ptrs (trace w') = live_ptrs (trace w)" "open_fds (trace w') = open_fds (trace w)"
      "epoll_regs (trace w') = epoll_regs (trace w)"
    using calm_history [OF c] n by (auto simp: notify_effect_def)
  moreover have "list_all2 stable_server (servers w) (servers w')"
    using c n by (auto simp: calm_def notify_effect_def intro: list_all2_stable_trans)
  ultimately show ?thesis using c n unfolding notify_effect_def
    by (auto simp: calm_def observe_def)
qed

text \<open>A listener that never fails makes every notification succeed.\<close>

lemma notify_total:
  assumes "\<And>l e v. \<exists>v'. up l e v = Inr v'"
  shows "\<exists>w'. notify up i e w = Inr w'"
proof -
  have "\<exists>w'. notify up i e w = Inr w' \<and> True"
    unfolding notify_def by (rule rfold_total) (use assms in simp_all)
  then show ?thesis by simp
qed

text \<open>The interface of the upper layer, as the servers rely on it.\<close>

locale base_listener =
  fixes up :: "nat \<Rightarrow> event \<Rightarrow> 'a world_scheme \<Rightarrow> fault + 'a world_scheme"
  assumes up_calm: "up l e w = Inr w' \<Longrightarrow> calm w w'"
begin

text \<open>
  A whole notification: every listener of the list is called once, in order, with the event, and
  between and after the calls only quiet observations are added.
\<close>

lemma notify_loop:
  assumes "rfold (\<lambda>l w. up l e (observe (Notified Base_Listener l e) w)) ls w = Inr w'"
  shows "notify_effect ls e w w'"
  using assms
proof (induction ls arbitrary: w)
  case Nil
  then show ?case by (simp add: notify_effect_def list_all2_refl)
next
  case (Cons l ls)
  then obtain v where v: "up l e (observe (Notified Base_Listener l e) w) = Inr v"
    and rest: "rfold (\<lambda>l w. up l e (observe (Notified Base_Listener l e) w)) ls v = Inr w'"
    by auto
  from up_calm [OF v] Cons.IH [OF rest] show ?case by (rule notify_effect_Cons)
qed

lemma notify_events:
  assumes "notify up i e w = Inr w'" "count_list (s_listeners (the_server i w)) l = 1"
  shows "notified Base_Listener l (trace w') = notified Base_Listener l (trace w) @ [e]"
  using notify_loop [OF assms(1) [unfolded notify_def]] assms(2) by (auto simp: notify_effect_def)

lemma notify_effect:
  "notify up i e w = Inr w' \<Longrightarrow> notify_effect (s_listeners (the_server i w)) e w w'"
  unfolding notify_def by (rule notify_loop)

end

end
