(* ===== verification/Std_Conv.thy ===== *)
theory Std_Conv
  imports Prelude
begin

text \<open>
  The standard-library conversions the servers use on their \<open>bind\<close> string: \<open>std::stoi\<close> with its
  two exceptions, and \<open>htons\<close>, which keeps the low 16 bits of its argument.
\<close>

definition is_space :: "char \<Rightarrow> bool" where
  "is_space c \<longleftrightarrow> c = CHR '' '' \<or> (9 \<le> (of_char c :: nat) \<and> (of_char c :: nat) \<le> 13)"

definition is_digit :: "char \<Rightarrow> bool" where
  "is_digit c \<longleftrightarrow> 48 \<le> (of_char c :: nat) \<and> (of_char c :: nat) \<le> 57"

definition digit_val :: "char \<Rightarrow> nat" where
  "digit_val c = of_char c - 48"

definition dec_val :: "string \<Rightarrow> nat" where
  "dec_val ds = foldl (\<lambda>v c. 10 * v + digit_val c) 0 ds"

definition int_min :: int where "int_min = - (2 ^ 31)"
definition int_max :: int where "int_max = 2 ^ 31 - 1"

definition stoi :: "string \<Rightarrow> fault + int" where
  "stoi s =
     (let t = dropWhile is_space s;
          neg = (case t of c # _ \<Rightarrow> c = CHR ''-'' | [] \<Rightarrow> False);
          u = (case t of c # r \<Rightarrow> if c = CHR ''-'' \<or> c = CHR ''+'' then r else t | [] \<Rightarrow> []);
          ds = takeWhile is_digit u;
          v = (if neg then - int (dec_val ds) else int (dec_val ds))
      in if ds = [] then Inl (Uncaught ''invalid_argument'')
         else if v < int_min \<or> int_max < v then Inl (Uncaught ''out_of_range'')
         else Inr v)"

definition htons :: "int \<Rightarrow> 16 word" where
  "htons v = word_of_int v"

text \<open>The decimal text of a number, as \<open>to_string\<close> and the configuration file write it.\<close>

fun dec_text :: "nat \<Rightarrow> string" where
  "dec_text n = (if n < 10 then [char_of (48 + n)] else dec_text (n div 10) @ [char_of (48 + n mod 10)])"

declare dec_text.simps [simp del]

lemma is_digit_char_of [simp]: "(n::nat) < 10 \<Longrightarrow> is_digit (char_of (48 + n))"
  by (simp add: is_digit_def)

lemma digit_val_char_of [simp]: "(n::nat) < 10 \<Longrightarrow> digit_val (char_of (48 + n)) = n"
  by (simp add: digit_val_def)

lemma dec_text_digits: "list_all is_digit (dec_text n)"
  by (induction n rule: dec_text.induct) (subst dec_text.simps, auto)

lemma dec_text_not_Nil [simp]: "dec_text n \<noteq> []"
  by (subst dec_text.simps) auto

lemma dec_val_snoc [simp]: "dec_val (ds @ [c]) = 10 * dec_val ds + digit_val c"
  by (simp add: dec_val_def)

lemma dec_val_text [simp]: "dec_val (dec_text n) = n"
proof (induction n rule: dec_text.induct)
  case (1 n)
  show ?case
  proof (cases "n < 10")
    case True
    then show ?thesis by (subst dec_text.simps) (simp add: dec_val_def)
  next
    case False
    with "1.IH" show ?thesis by (subst dec_text.simps) simp
  qed
qed

lemma digit_not_space: "is_digit c \<Longrightarrow> \<not> is_space c \<and> c \<noteq> CHR ''-'' \<and> c \<noteq> CHR ''+''"
  by (auto simp: is_digit_def is_space_def)

text \<open>\<open>stoi\<close> reads back a decimal text, whatever follows its last digit.\<close>

lemma stoi_dec_text:
  assumes "int n \<le> int_max" and "rest = [] \<or> \<not> is_digit (hd rest)"
  shows "stoi (dec_text n @ rest) = Inr (int n)"
proof -
  have ds: "list_all is_digit (dec_text n)" by (rule dec_text_digits)
  obtain c t where ct: "dec_text n = c # t" by (cases "dec_text n") auto
  with ds have c: "\<not> is_space c" "c \<noteq> CHR ''-''" "c \<noteq> CHR ''+''"
    using digit_not_space by auto
  have tw: "takeWhile is_digit (c # t @ rest) = c # t"
    using ds ct assms(2) by (cases rest) (auto simp: takeWhile_append list_all_iff takeWhile_eq_Nil_iff)
  have "dec_val (c # t) = n" using ct dec_val_text [of n] by simp
  moreover have "\<not> int n < int_min" by (simp add: int_min_def)
  ultimately show ?thesis
    using c tw assms(1) by (simp add: stoi_def Let_def ct del: takeWhile.simps)
qed

lemma stoi_range: "stoi s = Inr v \<Longrightarrow> int_min \<le> v \<and> v \<le> int_max"
  by (auto simp: stoi_def Let_def split: if_splits)

end
