(* ===== verification/Tcp_Server.thy ===== *)
theory Tcp_Server
  imports Server_World Std_Conv
begin

text \<open>
  \<open>InetDomainSocketTcpServer\<close> and \<open>UnixDomainSocketTcpServer\<close>
  (src/inet_domainsocket_tcp_server.cpp, src/unix_domainsocket_tcp_server.cpp): the epoll
  servers. The two classes differ in \<open>init\<close> and in the end of the thread function; the body of
  the event loop is the same text. Every operation takes the index of the server (\<open>this\<close>), the
  kernel \<open>k\<close> and, where it notifies, the listener \<open>up\<close>.
\<close>

definition EPOLL_SIZE :: nat where "EPOLL_SIZE = 20"
definition sizeof_epoll_event :: nat where "sizeof_epoll_event = 12"
definition TCP_BUFFER_LENGTH :: nat where "TCP_BUFFER_LENGTH = 2048"
definition SUN_PATH_SIZE :: nat where "SUN_PATH_SIZE = 108"

section \<open>init\<close>

text \<open>
  The opening lines of both \<open>init\<close>: the event array and the epoll instance, whose descriptor is
  stored before it is checked.
\<close>

definition tcp_create_epoll :: "kernel \<Rightarrow> nat \<Rightarrow> 'a world_scheme \<Rightarrow> bool \<times> 'a world_scheme" where
  "tcp_create_epoll k i w =
     (let (_, w) = sys k (Malloc (sizeof_epoll_event * EPOLL_SIZE)) w;
          (r, w) = sys k (Epoll_Create (s_max_client (the_server i w))) w
      in (\<not> r_ret r < 0, upd_server i (\<lambda>s. s\<lparr>s_epoll_fd := r_ret r\<rparr>) w))"

text \<open>\<open>socket\<close>, stored into \<open>m_server_fd\<close>; \<open>failed\<close> is the test the class makes on it.\<close>

definition tcp_socket ::
  "kernel \<Rightarrow> family \<Rightarrow> (int \<Rightarrow> bool) \<Rightarrow> nat \<Rightarrow> 'a world_scheme \<Rightarrow> bool \<times> 'a world_scheme" where
  "tcp_socket k fam failed i w =
     (let (r, w) = sys k (Socket fam SOCK_STREAM) w;
          w = upd_server i (\<lambda>s. s\<lparr>s_server_fd := r_ret r\<rparr>) w
      in if failed (r_ret r) then (False, snd (sys k (Close (r_ret r)) w)) else (True, w))"

definition tcp_epoll_add :: "kernel \<Rightarrow> nat \<Rightarrow> 'a world_scheme \<Rightarrow> bool \<times> 'a world_scheme" where
  "tcp_epoll_add k i w =
     (let (r, w) = sys k (Epoll_Add (s_epoll_fd (the_server i w)) (s_server_fd (the_server i w))) w
      in (\<not> r_ret r < 0, w))"

text \<open>From \<open>bind\<close> to the end, for the two classes.\<close>

definition inet_tcp_listen :: "kernel \<Rightarrow> int \<Rightarrow> nat \<Rightarrow> 'a world_scheme \<Rightarrow> bool \<times> 'a world_scheme" where
  "inet_tcp_listen k port i w =
     (let fd = s_server_fd (the_server i w);
          (r, w) = sys k (Bind fd (Port (htons port))) w
      in if r_ret r = -1 then (False, snd (sys k (Close fd) w))
         else tcp_epoll_add k i (snd (sys k (Listen fd (2 * 1024)) w)))"

definition unix_tcp_listen :: "kernel \<Rightarrow> bytes \<Rightarrow> nat \<Rightarrow> 'a world_scheme \<Rightarrow> bool \<times> 'a world_scheme" where
  "unix_tcp_listen k sun i w =
     (let fd = s_server_fd (the_server i w);
          (r, w) = sys k (Bind fd (Sun_Path sun)) w
      in if r_ret r < 0 then (False, w) else
     let (r, w) = sys k (Listen fd (2 * 1024)) w
      in if r_ret r < 0 then (False, w) else tcp_epoll_add k i w)"

definition inet_tcp_init :: "kernel \<Rightarrow> nat \<Rightarrow> 'a world_scheme \<Rightarrow> fault + bool \<times> 'a world_scheme" where
  "inet_tcp_init k i w =
     (let (ok, w) = tcp_create_epoll k i w
      in if \<not> ok then Inr (False, w) else
     let (ok, w) = tcp_socket k AF_INET (\<lambda>fd. fd < 0) i w
      in if \<not> ok then Inr (False, w) else
     let (_, w) = sys k (Set_Reuse_Addr (s_server_fd (the_server i w))) w
      in rbind (stoi (s_bind (the_server i w))) (\<lambda>port. Inr (inet_tcp_listen k port i w)))"

text \<open>\<open>strcpy\<close> into \<open>sun_path\<close>: the path and its zero byte must fit the array.\<close>

definition strcpy_sun_path :: "string \<Rightarrow> fault + bytes" where
  "strcpy_sun_path s =
     (if length (c_str s) + 1 \<le> SUN_PATH_SIZE then Inr (c_str s) else Inl Buffer_Overflow)"

text \<open>A socket file left over from an earlier run is removed first.\<close>

definition unlink_stale :: "kernel \<Rightarrow> string \<Rightarrow> 'a world_scheme \<Rightarrow> 'a world_scheme" where
  "unlink_stale k path w =
     (let (r, w) = sys k (Access (c_str path)) w
      in if r_ret r = 0 then snd (sys k (Unlink (c_str path)) w) else w)"

definition unix_tcp_init :: "kernel \<Rightarrow> nat \<Rightarrow> 'a world_scheme \<Rightarrow> fault + bool \<times> 'a world_scheme" where
  "unix_tcp_init k i w =
     (let (ok, w) = tcp_create_epoll k i w
      in if \<not> ok then Inr (False, w) else
     let w = unlink_stale k (s_bind (the_server i w)) w;
         (ok, w) = tcp_socket k AF_UNIX (\<lambda>fd. fd = -1) i w
      in if \<not> ok then Inr (False, w) else
     rbind (strcpy_sun_path (s_bind (the_server i w))) (\<lambda>sun. Inr (unix_tcp_listen k sun i w)))"

section \<open>start, stop, sendToClient\<close>

definition start_thread :: "kernel \<Rightarrow> nat \<Rightarrow> 'a world_scheme \<Rightarrow> bool \<times> 'a world_scheme" where
  "start_thread k i w =
     (let (r, w) = sys k (Pthread_Create i) w
      in if r_ret r \<noteq> 0 then (False, w)
         else (True, upd_server i (\<lambda>s. s\<lparr>s_thread := Thread_Created\<rparr>) w))"

definition inet_tcp_start :: "kernel \<Rightarrow> nat \<Rightarrow> 'a world_scheme \<Rightarrow> bool \<times> 'a world_scheme" where
  "inet_tcp_start k i w = start_thread k i w"

definition unix_tcp_start :: "kernel \<Rightarrow> nat \<Rightarrow> 'a world_scheme \<Rightarrow> bool \<times> 'a world_scheme" where
  "unix_tcp_start k i w = start_thread k i w"

definition clear_run :: "nat \<Rightarrow> 'a world_scheme \<Rightarrow> 'a world_scheme" where
  "clear_run i w = upd_server i (\<lambda>s. s\<lparr>s_run_thread := False\<rparr>) w"

definition inet_tcp_stop :: "nat \<Rightarrow> 'a world_scheme \<Rightarrow> 'a world_scheme" where
  "inet_tcp_stop i w = clear_run i w"

definition unix_tcp_stop :: "nat \<Rightarrow> 'a world_scheme \<Rightarrow> 'a world_scheme" where
  "unix_tcp_stop i w = clear_run i w"

text \<open>
  \<open>write\<close> to the descriptor of the client with the id; the pointer that \<open>findClientInfo\<close> returned
  is not checked.
\<close>

definition tcp_sendToClient ::
  "kernel \<Rightarrow> nat \<Rightarrow> size_t \<Rightarrow> bytes \<Rightarrow> uint \<Rightarrow> 'a world_scheme \<Rightarrow> fault + bool \<times> 'a world_scheme" where
  "tcp_sendToClient k i cid msg len w =
     (case findClientInfo cid (s_clients (the_server i w)) of
        None \<Rightarrow> Inl Null_Deref
      | Some c \<Rightarrow> (case getFd c of
          None \<Rightarrow> Inl Bad_Cast
        | Some fd \<Rightarrow> rbind (msg_bytes msg len) (\<lambda>b.
            let (r, w) = sys k (Write fd b) w in Inr (r_ret r \<noteq> -1, w))))"

definition inet_tcp_sendToClient ::
  "kernel \<Rightarrow> nat \<Rightarrow> size_t \<Rightarrow> bytes \<Rightarrow> uint \<Rightarrow> 'a world_scheme \<Rightarrow> fault + bool \<times> 'a world_scheme" where
  "inet_tcp_sendToClient k i cid msg len w = tcp_sendToClient k i cid msg len w"

definition unix_tcp_sendToClient ::
  "kernel \<Rightarrow> nat \<Rightarrow> size_t \<Rightarrow> bytes \<Rightarrow> uint \<Rightarrow> 'a world_scheme \<Rightarrow> fault + bool \<times> 'a world_scheme" where
  "unix_tcp_sendToClient k i cid msg len w = tcp_sendToClient k i cid msg len w"

section \<open>The event loop\<close>

text \<open>
  The branch of a ready listening socket: \<open>accept\<close>, register with epoll, create and add the
  client record, notify. The result of \<open>accept\<close> is not checked.
\<close>

definition epoll_accept ::
  "kernel \<Rightarrow> 'a listener \<Rightarrow> nat \<Rightarrow> 'a world_scheme \<Rightarrow> fault + 'a world_scheme" where
  "epoll_accept k up i w =
     (let (r, w) = sys k (Accept (s_server_fd (the_server i w))) w;
          client_fd = r_ret r;
          (_, w) = sys k (Epoll_Add (s_epoll_fd (the_server i w)) client_fd) w;
          (p, w) = sys k New_Client w
      in if r_ptr p = 0 then Inl (Uncaught ''bad_alloc'') else
     let (client_id, w) = add_client i (newTcpClientInfo (r_ptr p) client_fd (r_addr r)) w
      in notify up i (Client_Connected (s_server_id (the_server i w)) client_id) w)"

text \<open>The branch of a ready client socket: data is passed on, end of file or an error removes it.\<close>

definition epoll_read ::
  "kernel \<Rightarrow> 'a listener \<Rightarrow> nat \<Rightarrow> int \<Rightarrow> 'a world_scheme \<Rightarrow> fault + 'a world_scheme" where
  "epoll_read k up i fd w =
     (let (r, w) = sys k (Read fd TCP_BUFFER_LENGTH) w;
          buffer = fill TCP_BUFFER_LENGTH (r_data r);
          readn = r_ret r
      in if readn \<le> 0 then
           (let (_, w) = sys k (Epoll_Del (s_epoll_fd (the_server i w)) fd) w;
                (_, w) = sys k (Close fd) w
            in rbind (remove_client_fd i fd w) (\<lambda>(client_id, w).
                 notify up i (Client_Disconnected (s_server_id (the_server i w)) client_id) w))
         else
           rbind (findClientInfo_fd fd (s_clients (the_server i w))) (\<lambda>client.
             notify_received up i client
               (\<lambda>c. Received (s_server_id (the_server i w)) (ci_id c) buffer (word_of_int readn)) w))"

definition epoll_event ::
  "kernel \<Rightarrow> 'a listener \<Rightarrow> nat \<Rightarrow> int \<Rightarrow> 'a world_scheme \<Rightarrow> fault + 'a world_scheme" where
  "epoll_event k up i fd w =
     (if fd = s_server_fd (the_server i w) then epoll_accept k up i w else epoll_read k up i fd w)"

text \<open>One pass of the \<open>while\<close> loop: wait, then handle the reported descriptors in order.\<close>

definition epoll_iteration ::
  "kernel \<Rightarrow> 'a listener \<Rightarrow> nat \<Rightarrow> 'a world_scheme \<Rightarrow> fault + 'a world_scheme" where
  "epoll_iteration k up i w =
     (let (r, w) = sys k (Epoll_Wait (s_epoll_fd (the_server i w)) EPOLL_SIZE) w
      in rfold (epoll_event k up i) (take (nat (r_ret r)) (r_fds r)) w)"

definition thread_entry :: "nat \<Rightarrow> 'a world_scheme \<Rightarrow> 'a world_scheme" where
  "thread_entry i w = upd_server i (\<lambda>s. s\<lparr>s_run_thread := True, s_thread := Thread_Running\<rparr>) w"

definition thread_exit :: "nat \<Rightarrow> 'a world_scheme \<Rightarrow> 'a world_scheme" where
  "thread_exit i w = upd_server i (\<lambda>s. s\<lparr>s_thread := Thread_Exited\<rparr>) w"

text \<open>
  The thread function, run for at most \<open>n\<close> passes of its loop (it loops as long as the run flag
  is set, so it need not return): whether it returned, and the world.
\<close>

fun run_loop ::
  "(nat \<Rightarrow> 'a world_scheme \<Rightarrow> fault + 'a world_scheme) \<Rightarrow> (nat \<Rightarrow> 'a world_scheme \<Rightarrow> 'a world_scheme)
     \<Rightarrow> nat \<Rightarrow> nat \<Rightarrow> 'a world_scheme \<Rightarrow> fault + bool \<times> 'a world_scheme" where
  "run_loop body fin i n w =
     (if \<not> s_run_thread (the_server i w) then Inr (True, thread_exit i (fin i w))
      else case n of 0 \<Rightarrow> Inr (False, w) | Suc m \<Rightarrow> rbind (body i w) (run_loop body fin i m))"

declare run_loop.simps [simp del]

definition inet_tcp_thread ::
  "kernel \<Rightarrow> 'a listener \<Rightarrow> nat \<Rightarrow> nat \<Rightarrow> 'a world_scheme \<Rightarrow> fault + bool \<times> 'a world_scheme" where
  "inet_tcp_thread k up i n w =
     run_loop (epoll_iteration k up) (\<lambda>i w. snd (sys k (Close (s_server_fd (the_server i w))) w)) i n
       (thread_entry i w)"

definition unix_tcp_thread ::
  "kernel \<Rightarrow> 'a listener \<Rightarrow> nat \<Rightarrow> nat \<Rightarrow> 'a world_scheme \<Rightarrow> fault + bool \<times> 'a world_scheme" where
  "unix_tcp_thread k up i n w = run_loop (epoll_iteration k up) (\<lambda>i w. w) i n (thread_entry i w)"

end
