(* ===== verification/Tcp_Session.thy ===== *)
theory Tcp_Session
  imports Tcp_Server
begin

text \<open>
  The epoll servers keep the session specification: the invariant that ties the client list to
  the kernel's descriptors, the allocator's storage and the notifications sent so far, kept by
  every event of the loop, and the absence of undefined behaviour in the loop.
\<close>

section \<open>The session state a listener has seen\<close>

definition session_at :: "nat \<Rightarrow> nat \<Rightarrow> 'a world_scheme \<Rightarrow> size_t set option" where
  "session_at l i w =
     session_run (s_server_id (the_server i w)) (notified Base_Listener l (trace w)) {}"

definition ids_of :: "nat \<Rightarrow> 'a world_scheme \<Rightarrow> size_t set" where
  "ids_of i w = ci_id ` set (s_clients (the_server i w))"

lemma notify_effect_server:
  "notify_effect ls e w w' \<Longrightarrow> i < length (servers w) \<Longrightarrow>
   stable_server (the_server i w) (the_server i w') \<and> length (servers w') = length (servers w)"
  by (auto simp: notify_effect_def the_server_def dest: list_all2_nthD list_all2_lengthD)

lemma notify_effect_history:
  assumes "notify_effect ls e w w'"
  shows "live_ptrs (trace w') = live_ptrs (trace w)" "open_fds (trace w') = open_fds (trace w)"
    "epoll_regs (trace w') = epoll_regs (trace w)"
  using assms by (auto simp: notify_effect_def)

lemma notify_effect_ids: "notify_effect ls e w w' \<Longrightarrow> i < length (servers w) \<Longrightarrow> ids_of i w' = ids_of i w"
  using notify_effect_server stable_server_fields(1) unfolding ids_of_def by metis

text \<open>A listener registered once sees the event once: its session makes one step.\<close>

lemma notify_effect_session:
  assumes "notify_effect ls e w w'" "i < length (servers w)" "count_list ls l = 1"
    and "session_at l i w = Some L" "session_step (s_server_id (the_server i w)) e L = Some L'"
  shows "session_at l i w' = Some L'"
proof -
  from assms(1) obtain tr where tr: "trace w' = trace w @ tr"
      "notified Base_Listener l tr = replicate (count_list ls l) e"
    by (auto simp: notify_effect_def)
  have "s_server_id (the_server i w') = s_server_id (the_server i w)"
    using notify_effect_server [OF assms(1,2)] stable_server_fields(3) by blast
  with tr assms(3-5) show ?thesis by (simp add: session_at_def session_run_append)
qed

section \<open>The invariant\<close>

text \<open>The descriptors of the client records; a failed \<open>accept\<close> leaves records with -1.\<close>

definition client_fds :: "client_info list \<Rightarrow> int list" where
  "client_fds cs = filter (\<lambda>f. 0 \<le> f) (List.map_filter getFd cs)"

definition tcp_struct :: "nat \<Rightarrow> 'a world_scheme \<Rightarrow> bool" where
  "tcp_struct i w \<longleftrightarrow> i < length (servers w) \<and> (let s = the_server i w in
     tcp_table (s_clients s) \<and> distinct (client_fds (s_clients s))
   \<and> set (client_fds (s_clients s)) \<subseteq> open_fds (trace w)
   \<and> s_server_fd s \<in> open_fds (trace w) \<and> s_server_fd s \<notin> set (client_fds (s_clients s))
   \<and> (\<forall>fd. (s_epoll_fd s, fd) \<in> epoll_regs (trace w) \<longrightarrow>
        fd = s_server_fd s \<or> fd \<in> set (client_fds (s_clients s)))
   \<and> ids_of i w \<subseteq> live_ptrs (trace w))"

definition tcp_inv :: "nat \<Rightarrow> nat \<Rightarrow> 'a world_scheme \<Rightarrow> bool" where
  "tcp_inv l i w \<longleftrightarrow> tcp_struct i w \<and> count_list (s_listeners (the_server i w)) l = 1
     \<and> session_at l i w = Some (ids_of i w)"

lemma client_fds_simps [simp]:
  "client_fds [] = []"
  "client_fds (cs @ ds) = client_fds cs @ client_fds ds"
  "client_fds (c # cs) = (case getFd c of None \<Rightarrow> client_fds cs
     | Some f \<Rightarrow> if 0 \<le> f then f # client_fds cs else client_fds cs)"
  by (auto simp: client_fds_def List.map_filter_def split: option.splits)

lemma client_fds_iff: "fd \<in> set (client_fds cs) \<longleftrightarrow> 0 \<le> fd \<and> (\<exists>c \<in> set cs. getFd c = Some fd)"
  by (induction cs) (auto split: option.splits)

lemma client_fds_remove1:
  "distinct (client_fds cs) \<Longrightarrow> c \<in> set cs \<Longrightarrow> getFd c = Some fd \<Longrightarrow> 0 \<le> fd \<Longrightarrow>
   client_fds (remove1 c cs) = remove1 fd (client_fds cs)"
proof (induction cs)
  case Nil
  then show ?case by simp
next
  case (Cons a cs)
  show ?case
  proof (cases "a = c")
    case True
    with Cons.prems show ?thesis by simp
  next
    case False
    with Cons.prems have c: "c \<in> set cs" "fd \<in> set (client_fds cs)" by (auto simp: client_fds_iff)
    with Cons.prems False show ?thesis
      by (auto simp: Cons.IH split: option.splits if_splits)
  qed
qed

lemma getFd_new [simp]: "getFd (newTcpClientInfo p fd sa) = Some fd"
  by (simp add: newTcpClientInfo_def getFd_def)

lemma id_new [simp]: "ci_id (newTcpClientInfo p fd sa) = p"
  by (simp add: newTcpClientInfo_def hash_ptr_def)

lemma notify_effect_struct:
  assumes "notify_effect ls e w w'" "tcp_struct i w"
  shows "tcp_struct i w'"
proof -
  from assms(2) have i: "i < length (servers w)" by (simp add: tcp_struct_def)
  from notify_effect_server [OF assms(1) i]
  have st: "stable_server (the_server i w) (the_server i w')"
    and len: "length (servers w') = length (servers w)" by auto
  from assms(2) show ?thesis
    by (simp add: tcp_struct_def notify_effect_history [OF assms(1)]
        notify_effect_ids [OF assms(1) i] len stable_server_fields [OF st] Let_def)
qed

lemma notify_effect_inv:
  assumes n: "notify_effect (s_listeners (the_server i w)) e w w'" and s: "tcp_struct i w"
    and "count_list (s_listeners (the_server i w)) l = 1"
    and "session_at l i w = Some L"
    and "session_step (s_server_id (the_server i w)) e L = Some (ids_of i w)"
  shows "tcp_inv l i w'"
proof -
  from s have i: "i < length (servers w)" by (simp add: tcp_struct_def)
  have "session_at l i w' = Some (ids_of i w)"
    using notify_effect_session [OF n i] assms by blast
  with notify_effect_struct [OF n s] assms(3) show ?thesis
    using notify_effect_server [OF n i] stable_server_fields(2) notify_effect_ids [OF n i]
    unfolding tcp_inv_def by metis
qed

section \<open>Every event of the loop keeps the invariant\<close>

lemma ids_of_upd [simp]:
  "i < length (servers w) \<Longrightarrow>
   ids_of i (upd_server i (s_clients_update (\<lambda>_. cs)) w) = ci_id ` set cs"
  by (simp add: ids_of_def)

lemma session_at_simps [simp]:
  "session_at l i (observe (Call c r) w) = session_at l i w"
  "session_at l i (observe (Released p) w) = session_at l i w"
  "i < length (servers w) \<Longrightarrow> session_at l i (upd_server i (s_clients_update (\<lambda>_. cs)) w) = session_at l i w"
  by (simp_all add: session_at_def)

lemma ids_of_observe [simp]: "ids_of i (observe ob w) = ids_of i w"
  by (simp add: ids_of_def)

text \<open>What \<open>read\<close> returned fits the buffer, and its length survives the conversion.\<close>

lemma received_in_bounds:
  assumes "kernel_ok k" "0 < r_ret (k tr (Read fd TCP_BUFFER_LENGTH))"
  shows "unat (word_of_int (r_ret (k tr (Read fd TCP_BUFFER_LENGTH))) :: uint)
           = nat (r_ret (k tr (Read fd TCP_BUFFER_LENGTH)))
       \<and> r_ret (k tr (Read fd TCP_BUFFER_LENGTH)) \<le> int TCP_BUFFER_LENGTH"
proof -
  let ?n = "r_ret (k tr (Read fd TCP_BUFFER_LENGTH))"
  have n: "0 < ?n" "?n \<le> 2048"
    using assms kernel_okD [OF assms(1), of tr "Read fd TCP_BUFFER_LENGTH"]
    by (simp_all add: TCP_BUFFER_LENGTH_def)
  then have "uint (word_of_int ?n :: uint) = ?n"
    by (simp add: uint_word_of_int take_bit_int_eq_self)
  then have "unat (word_of_int ?n :: uint) = nat ?n"
    by (metis nat_uint_eq)
  with n show ?thesis by (simp add: TCP_BUFFER_LENGTH_def)
qed

text \<open>The descriptors epoll may report for a server.\<close>

definition watched :: "nat \<Rightarrow> 'a world_scheme \<Rightarrow> int set" where
  "watched i w = insert (s_server_fd (the_server i w)) (set (client_fds (s_clients (the_server i w))))"

lemma notify_effect_watched:
  assumes "notify_effect ls e w w'" "i < length (servers w)"
  shows "watched i w' = watched i w"
  using notify_effect_server [OF assms] stable_server_fields(1,5) unfolding watched_def by metis

context base_listener
begin

lemma epoll_accept_inv:
  assumes k: "kernel_ok k" and inv: "tcp_inv l i w" and run: "epoll_accept k up i w = Inr w'"
  shows "tcp_inv l i w' \<and> watched i w \<subseteq> watched i w'"
proof -
  let ?s = "the_server i w"
  let ?tr1 = "trace w" let ?r = "k ?tr1 (Accept (s_server_fd ?s))"
  let ?w1 = "observe (Call (Accept (s_server_fd ?s)) ?r) w"
  let ?c2 = "Epoll_Add (s_epoll_fd ?s) (r_ret ?r)" let ?r2 = "k (trace ?w1) ?c2"
  let ?w2 = "observe (Call ?c2 ?r2) ?w1"
  let ?p = "k (trace ?w2) New_Client"
  let ?w3 = "observe (Call New_Client ?p) ?w2"
  let ?c = "newTcpClientInfo (r_ptr ?p) (r_ret ?r) (r_addr ?r)"
  let ?w4 = "upd_server i (s_clients_update (\<lambda>_. s_clients ?s @ [?c])) ?w3"
  from inv have i: "i < length (servers w)" and st: "tcp_struct i w"
    and cnt: "count_list (s_listeners ?s) l = 1" and ses: "session_at l i w = Some (ids_of i w)"
    by (auto simp: tcp_inv_def tcp_struct_def)
  from run have p0: "r_ptr ?p \<noteq> 0"
    and n: "notify up i (Client_Connected (s_server_id ?s) (r_ptr ?p)) ?w4 = Inr w'"
    using i by (auto simp: epoll_accept_def sys_def add_client_def addClientInfo_def Let_def split: if_splits)
  have fresh: "r_ptr ?p \<notin> live_ptrs (trace w)"
    using kernel_okD [OF k, of "trace ?w2" New_Client] by simp
  have fd: "r_ret ?r \<notin> open_fds (trace w)"
    using kernel_okD [OF k, of "trace w" "Accept (s_server_fd ?s)"] by simp
  have add: "r_ret ?r < 0 \<Longrightarrow> r_ret ?r2 < 0"
    using kernel_okD [OF k, of "trace ?w1" ?c2] by simp
  have new: "r_ptr ?p \<notin> ids_of i w" using fresh st by (auto simp: tcp_struct_def Let_def)
  have st4: "tcp_struct i ?w4"
    using st i fd add p0 new
    by (auto simp: tcp_struct_def Let_def ids_of_def tcp_table_def)
  have "session_step (s_server_id (the_server i ?w4))
      (Client_Connected (s_server_id ?s) (r_ptr ?p)) (ids_of i w) = Some (ids_of i ?w4)"
    using i new by (simp add: ids_of_def insert_commute)
  then have "tcp_inv l i w'"
    using notify_effect_inv [OF notify_effect [OF n] st4, of l "ids_of i w"] i cnt ses by simp
  moreover have "watched i w' = watched i ?w4"
    using notify_effect_watched [OF notify_effect [OF n]] i by simp
  ultimately show ?thesis using i by (auto simp: watched_def)
qed

lemma epoll_close_inv:
  assumes inv: "tcp_inv l i w" and fd: "fd \<in> set (client_fds (s_clients (the_server i w)))"
    and eof: "r_ret (k (trace w) (Read fd TCP_BUFFER_LENGTH)) \<le> 0"
    and run: "epoll_read k up i fd w = Inr w'"
  shows "tcp_inv l i w' \<and> watched i w - {fd} \<subseteq> watched i w'"
proof -
  let ?s = "the_server i w"
  from inv have i: "i < length (servers w)" and st: "tcp_struct i w"
    and cnt: "count_list (s_listeners ?s) l = 1" and ses: "session_at l i w = Some (ids_of i w)"
    by (auto simp: tcp_inv_def tcp_struct_def)
  from st have tab: "tcp_table (s_clients ?s)" and dfd: "distinct (client_fds (s_clients ?s))"
    by (auto simp: tcp_struct_def Let_def)
  from fd have nn: "0 \<le> fd" and ex: "\<exists>c \<in> set (s_clients ?s). getFd c = Some fd"
    by (auto simp: client_fds_iff)
  then obtain c where find: "findClientInfo_fd fd (s_clients ?s) = Inr (Some c)"
    using by_fd.lookup_law [OF tab, of fd] by_fd.lookup_None_iff [OF tab, of fd]
    by (cases "List.find (\<lambda>c. getFd c = Some fd) (s_clients ?s)") auto
  then have c: "c \<in> set (s_clients ?s)" "getFd c = Some fd"
    using by_fd.lookup_Some_in [OF tab] by auto
  note rm = by_fd.remove_found [OF tab find]
  let ?cs = "remove1 c (s_clients ?s)"
  let ?o1 = "Call (Read fd TCP_BUFFER_LENGTH) (k (trace w) (Read fd TCP_BUFFER_LENGTH))"
  let ?w1 = "observe ?o1 w"
  let ?c2 = "Epoll_Del (s_epoll_fd ?s) fd" let ?w2 = "observe (Call ?c2 (k (trace ?w1) ?c2)) ?w1"
  let ?w3 = "observe (Call (Close fd) (k (trace ?w2) (Close fd))) ?w2"
  let ?w4 = "observe (Released (ci_id c)) (upd_server i (s_clients_update (\<lambda>_. ?cs)) ?w3)"
  have "length ?cs < length (s_clients ?s)" using c length_pos_if_in_set [OF c(1)] by (simp add: length_remove1)
  with run eof rm i have n: "notify up i (Client_Disconnected (s_server_id ?s) (ci_id c)) ?w4 = Inr w'"
    by (auto simp: epoll_read_def sys_def remove_client_fd_def store_removed_def Let_def)
  have dist: "distinct (s_clients ?s)" using by_fd.wf_ids [OF tab] by (simp add: distinct_map)
  have set': "set ?cs = set (s_clients ?s) - {c}" using dist by (rule set_remove1_eq)
  have inj: "inj_on ci_id (set (s_clients ?s))"
    using by_fd.wf_ids [OF tab] by (simp add: distinct_map)
  have idsd: "ci_id ` set ?cs = ids_of i w - {ci_id c}"
    using inj c(1) by (auto simp: set' ids_of_def inj_on_def)
  have fds: "client_fds ?cs = remove1 fd (client_fds (s_clients ?s))"
    using client_fds_remove1 dfd c nn by blast
  have st4: "tcp_struct i ?w4"
    using st i nn fd dfd by_fd.wf_remove1 [OF tab, of c] idsd
    by (auto simp: tcp_struct_def Let_def fds ids_of_def)
  have "session_step (s_server_id (the_server i ?w4))
      (Client_Disconnected (s_server_id ?s) (ci_id c)) (ids_of i w) = Some (ids_of i ?w4)"
    using i c(1) idsd by (simp add: ids_of_def)
  then have "tcp_inv l i w'"
    using notify_effect_inv [OF notify_effect [OF n] st4, of l "ids_of i w"] i cnt ses by simp
  moreover have "watched i w' = watched i ?w4"
    using notify_effect_watched [OF notify_effect [OF n]] i by simp
  ultimately show ?thesis using i dfd by (auto simp: watched_def fds)
qed

lemma epoll_data_inv:
  assumes k: "kernel_ok k" and inv: "tcp_inv l i w"
    and fd: "fd \<in> set (client_fds (s_clients (the_server i w)))"
    and data: "0 < r_ret (k (trace w) (Read fd TCP_BUFFER_LENGTH))"
    and run: "epoll_read k up i fd w = Inr w'"
  shows "tcp_inv l i w' \<and> watched i w' = watched i w"
proof -
  let ?s = "the_server i w"
  from inv have i: "i < length (servers w)" and st: "tcp_struct i w"
    and cnt: "count_list (s_listeners ?s) l = 1" and ses: "session_at l i w = Some (ids_of i w)"
    by (auto simp: tcp_inv_def tcp_struct_def)
  from st have tab: "tcp_table (s_clients ?s)" by (auto simp: tcp_struct_def Let_def)
  from fd have ex: "\<exists>c \<in> set (s_clients ?s). getFd c = Some fd"
    by (auto simp: client_fds_iff)
  then obtain c where find: "findClientInfo_fd fd (s_clients ?s) = Inr (Some c)"
    using by_fd.lookup_law [OF tab, of fd] by_fd.lookup_None_iff [OF tab, of fd]
    by (cases "List.find (\<lambda>c. getFd c = Some fd) (s_clients ?s)") auto
  then have c: "c \<in> set (s_clients ?s)" using by_fd.lookup_Some_in [OF tab] by auto
  let ?r = "k (trace w) (Read fd TCP_BUFFER_LENGTH)"
  let ?w1 = "observe (Call (Read fd TCP_BUFFER_LENGTH) ?r) w"
  let ?e = "Received (s_server_id ?s) (ci_id c) (fill TCP_BUFFER_LENGTH (r_data ?r)) (word_of_int (r_ret ?r))"
  have "s_listeners ?s \<noteq> []" using cnt by auto
  with run data find have n: "notify up i ?e ?w1 = Inr w'"
    by (auto simp: epoll_read_def sys_def notify_received_def Let_def)
  have st1: "tcp_struct i ?w1" using st by (simp add: tcp_struct_def Let_def)
  have "session_step (s_server_id (the_server i ?w1)) ?e (ids_of i w) = Some (ids_of i ?w1)"
    using c received_in_bounds [OF k data] by (simp add: ids_of_def nat_le_iff)
  then have "tcp_inv l i w'"
    using notify_effect_inv [OF notify_effect [OF n], of l "ids_of i w"] st1 cnt ses by simp
  moreover have "watched i w' = watched i ?w1"
    using notify_effect_watched [OF notify_effect [OF n]] i by simp
  ultimately show ?thesis by (simp add: watched_def)
qed

lemma epoll_event_inv:
  assumes "kernel_ok k" "tcp_inv l i w" "fd \<in> watched i w" "epoll_event k up i fd w = Inr w'"
  shows "tcp_inv l i w' \<and> watched i w - {fd} \<subseteq> watched i w'"
proof (cases "fd = s_server_fd (the_server i w)")
  case True
  with assms show ?thesis using epoll_accept_inv [of k l i w w'] by (auto simp: epoll_event_def)
next
  case False
  with assms have "fd \<in> set (client_fds (s_clients (the_server i w)))"
    and "epoll_read k up i fd w = Inr w'" by (auto simp: epoll_event_def watched_def)
  with assms(1,2) epoll_close_inv [of l i w fd k w'] epoll_data_inv [of k l i w fd w']
  have "tcp_inv l i w'" "watched i w - {fd} \<subseteq> watched i w'"
    by (cases "r_ret (k (trace w) (Read fd TCP_BUFFER_LENGTH)) \<le> 0"; fastforce simp: not_le)+
  then show ?thesis by simp
qed

lemma epoll_batch_inv:
  assumes "kernel_ok k" "tcp_inv l i w" "distinct fds" "set fds \<subseteq> watched i w"
    and "rfold (epoll_event k up i) fds w = Inr w'"
  shows "tcp_inv l i w'"
  using assms
proof (induction fds arbitrary: w)
  case Nil
  then show ?case by simp
next
  case (Cons fd fds)
  then obtain v where v: "epoll_event k up i fd w = Inr v" "rfold (epoll_event k up i) fds v = Inr w'"
    by auto
  with Cons.prems epoll_event_inv [of k l i w fd v]
  have "tcp_inv l i v" "set fds \<subseteq> watched i v" by auto
  with Cons v show ?case by auto
qed

lemma epoll_iteration_inv:
  assumes k: "kernel_ok k" and inv: "tcp_inv l i w" and run: "epoll_iteration k up i w = Inr w'"
  shows "tcp_inv l i w'"
proof -
  let ?c = "Epoll_Wait (s_epoll_fd (the_server i w)) EPOLL_SIZE"
  let ?r = "k (trace w) ?c"
  let ?w1 = "observe (Call ?c ?r) w"
  let ?fds = "take (nat (r_ret ?r)) (r_fds ?r)"
  from run have fold: "rfold (epoll_event k up i) ?fds ?w1 = Inr w'"
    by (simp add: epoll_iteration_def sys_def Let_def)
  have inv1: "tcp_inv l i ?w1" using inv by (simp add: tcp_inv_def tcp_struct_def Let_def)
  from kernel_okD [OF k, of "trace w" ?c]
  have "distinct ?fds" "\<forall>fd \<in> set ?fds. (s_epoll_fd (the_server i w), fd) \<in> epoll_regs (trace w)"
    by (simp_all add: Let_def)
  moreover from this inv have "set ?fds \<subseteq> watched i ?w1"
    by (auto simp: tcp_inv_def tcp_struct_def Let_def watched_def)
  ultimately show ?thesis using epoll_batch_inv [OF k inv1 _ _ fold] by blast
qed

text \<open>A whole run of the thread function, however many passes its loop makes.\<close>

lemma run_loop_inv:
  assumes "kernel_ok k" "tcp_inv l i w" "run_loop (epoll_iteration k up) fin i n w = Inr (ret, w')"
  shows "\<exists>v. tcp_inv l i v \<and> w' = (if ret then thread_exit i (fin i v) else v)"
  using assms
proof (induction n arbitrary: w)
  case 0
  then show ?case by (auto simp: run_loop.simps [of _ _ _ 0] split: if_splits)
next
  case (Suc n)
  show ?case
  proof (cases "s_run_thread (the_server i w)")
    case True
    with Suc.prems obtain v where "epoll_iteration k up i w = Inr v"
        "run_loop (epoll_iteration k up) fin i n v = Inr (ret, w')"
      by (auto simp: run_loop.simps [of _ _ _ "Suc n"])
    with Suc epoll_iteration_inv show ?thesis by blast
  next
    case False
    with Suc.prems show ?thesis by (auto simp: run_loop.simps [of _ _ _ "Suc n"])
  qed
qed

lemma thread_entry_inv: "tcp_inv l i w \<Longrightarrow> tcp_inv l i (thread_entry i w)"
  by (auto simp: tcp_inv_def tcp_struct_def thread_entry_def Let_def session_at_def ids_of_def)

lemma tcp_inv_exit: "tcp_inv l i v \<Longrightarrow> session_at l i (thread_exit i v) = Some (ids_of i (thread_exit i v))"
  by (auto simp: tcp_inv_def tcp_struct_def thread_exit_def Let_def session_at_def ids_of_def)

lemma inet_tcp_thread_session:
  assumes "kernel_ok k" "tcp_inv l i w" "inet_tcp_thread k up i n w = Inr (ret, w')"
  shows "session_at l i w' = Some (ids_of i w')"
proof -
  from run_loop_inv [OF assms(1) thread_entry_inv [OF assms(2)] assms(3) [unfolded inet_tcp_thread_def]]
  obtain v where v: "tcp_inv l i v"
    "w' = (if ret then thread_exit i (snd (sys k (Close (s_server_fd (the_server i v))) v)) else v)"
    by blast
  then have "i < length (servers v)" by (simp add: tcp_inv_def tcp_struct_def)
  with v show ?thesis
    by (auto simp: tcp_inv_def tcp_struct_def thread_exit_def session_at_def ids_of_def)
qed

lemma unix_tcp_thread_session:
  assumes "kernel_ok k" "tcp_inv l i w" "unix_tcp_thread k up i n w = Inr (ret, w')"
  shows "session_at l i w' = Some (ids_of i w')"
proof -
  from run_loop_inv [OF assms(1) thread_entry_inv [OF assms(2)] assms(3) [unfolded unix_tcp_thread_def]]
  obtain v where "tcp_inv l i v" "w' = (if ret then thread_exit i v else v)" by blast
  then show ?thesis using tcp_inv_exit by (auto simp: tcp_inv_def)
qed

section \<open>No undefined behaviour in the loop\<close>

lemma epoll_accept_fault:
  "epoll_accept k up i w = Inl e \<Longrightarrow> e = Uncaught ''bad_alloc'' \<or> (\<exists>l ev v. up l ev v = Inl e)"
  by (auto simp: epoll_accept_def Let_def notify_def split: if_splits prod.splits dest: rfold_fault)

lemma epoll_read_fault:
  assumes inv: "tcp_inv l i w" and fd: "fd \<in> set (client_fds (s_clients (the_server i w)))"
    and run: "epoll_read k up i fd w = Inl e"
  shows "\<exists>l ev v. up l ev v = Inl e"
proof -
  let ?s = "the_server i w"
  from inv have i: "i < length (servers w)" and tab: "tcp_table (s_clients ?s)"
    by (auto simp: tcp_inv_def tcp_struct_def Let_def)
  from fd have "\<exists>c \<in> set (s_clients ?s). getFd c = Some fd" by (auto simp: client_fds_iff)
  then obtain c where find: "findClientInfo_fd fd (s_clients ?s) = Inr (Some c)"
    using by_fd.lookup_law [OF tab, of fd] by_fd.lookup_None_iff [OF tab, of fd]
    by (cases "List.find (\<lambda>c. getFd c = Some fd) (s_clients ?s)") auto
  note rm = by_fd.remove_found [OF tab find]
  from run find rm show ?thesis
    by (auto simp: epoll_read_def sys_def notify_received_def notify_def remove_client_fd_def
        store_removed_def Let_def split: if_splits dest!: rfold_fault)
qed

lemma epoll_batch_fault:
  assumes "kernel_ok k" "tcp_inv l i w" "distinct fds" "set fds \<subseteq> watched i w"
    and "rfold (epoll_event k up i) fds w = Inl e"
  shows "e = Uncaught ''bad_alloc'' \<or> (\<exists>l ev v. up l ev v = Inl e)"
  using assms
proof (induction fds arbitrary: w)
  case Nil
  then show ?case by simp
next
  case (Cons fd fds)
  show ?case
  proof (cases "epoll_event k up i fd w")
    case (Inl f)
    with Cons.prems have e: "epoll_event k up i fd w = Inl e" by simp
    show ?thesis
    proof (cases "fd = s_server_fd (the_server i w)")
      case True
      with e epoll_accept_fault [of k i w e] show ?thesis by (auto simp: epoll_event_def)
    next
      case False
      with e Cons.prems have "fd \<in> set (client_fds (s_clients (the_server i w)))"
        "epoll_read k up i fd w = Inl e" by (auto simp: epoll_event_def watched_def)
      then show ?thesis using epoll_read_fault [OF Cons.prems(2)] by blast
    qed
  next
    case (Inr v)
    with Cons.prems epoll_event_inv [of k l i w fd v]
    have "tcp_inv l i v" "set fds \<subseteq> watched i v" by auto
    with Inr Cons show ?thesis by auto
  qed
qed

text \<open>
  Under the kernel's documented behaviour the loop never dereferences a null pointer and never
  casts a record to the wrong class; it can only fail by an exhausted allocator or inside a
  listener.
\<close>

lemma epoll_iteration_fault:
  assumes k: "kernel_ok k" and inv: "tcp_inv l i w" and run: "epoll_iteration k up i w = Inl e"
  shows "e = Uncaught ''bad_alloc'' \<or> (\<exists>l ev v. up l ev v = Inl e)"
proof -
  let ?c = "Epoll_Wait (s_epoll_fd (the_server i w)) EPOLL_SIZE"
  let ?r = "k (trace w) ?c"
  let ?w1 = "observe (Call ?c ?r) w"
  let ?fds = "take (nat (r_ret ?r)) (r_fds ?r)"
  from run have fold: "rfold (epoll_event k up i) ?fds ?w1 = Inl e"
    by (simp add: epoll_iteration_def sys_def Let_def)
  have inv1: "tcp_inv l i ?w1" using inv by (simp add: tcp_inv_def tcp_struct_def Let_def)
  from kernel_okD [OF k, of "trace w" ?c]
  have "distinct ?fds" "\<forall>fd \<in> set ?fds. (s_epoll_fd (the_server i w), fd) \<in> epoll_regs (trace w)"
    by (simp_all add: Let_def)
  moreover from this inv have "set ?fds \<subseteq> watched i ?w1"
    by (auto simp: tcp_inv_def tcp_struct_def Let_def watched_def)
  ultimately show ?thesis using epoll_batch_fault [OF k inv1 _ _ fold] by blast
qed

lemma run_loop_fault:
  assumes "kernel_ok k" "tcp_inv l i w" "run_loop (epoll_iteration k up) fin i n w = Inl e"
  shows "e = Uncaught ''bad_alloc'' \<or> (\<exists>l ev v. up l ev v = Inl e)"
  using assms
proof (induction n arbitrary: w)
  case 0
  then show ?case by (auto simp: run_loop.simps [of _ _ _ 0] split: if_splits)
next
  case (Suc n)
  from Suc.prems have run: "s_run_thread (the_server i w)"
    "rbind (epoll_iteration k up i w) (run_loop (epoll_iteration k up) fin i n) = Inl e"
    by (auto simp: run_loop.simps [of _ _ _ "Suc n"] split: if_splits)
  show ?case
  proof (cases "epoll_iteration k up i w")
    case (Inl f)
    with run(2) epoll_iteration_fault [OF Suc.prems(1,2)] show ?thesis by simp
  next
    case (Inr v)
    with run(2) Suc.IH [OF Suc.prems(1) epoll_iteration_inv [OF Suc.prems(1,2) Inr]] show ?thesis by simp
  qed
qed

text \<open>A run of either thread with listeners that do not fail.\<close>

lemma inet_tcp_thread_safe:
  assumes "kernel_ok k" "tcp_inv l i w" "\<And>l e v. \<exists>v'. up l e v = Inr v'"
  shows "case inet_tcp_thread k up i n w of Inl e \<Rightarrow> e = Uncaught ''bad_alloc''
    | Inr (ret, w') \<Rightarrow> session_at l i w' = Some (ids_of i w')"
proof (cases "inet_tcp_thread k up i n w")
  case (Inl e)
  have "up l ev v \<noteq> Inl e" for l ev v using assms(3) [of l ev v] by auto
  with run_loop_fault [OF assms(1) thread_entry_inv [OF assms(2)] Inl [unfolded inet_tcp_thread_def]] Inl
  show ?thesis by simp
next
  case (Inr p)
  with inet_tcp_thread_session [OF assms(1,2), of n "fst p" "snd p"] show ?thesis by (cases p) simp
qed

lemma unix_tcp_thread_safe:
  assumes "kernel_ok k" "tcp_inv l i w" "\<And>l e v. \<exists>v'. up l e v = Inr v'"
  shows "case unix_tcp_thread k up i n w of Inl e \<Rightarrow> e = Uncaught ''bad_alloc''
    | Inr (ret, w') \<Rightarrow> session_at l i w' = Some (ids_of i w')"
proof (cases "unix_tcp_thread k up i n w")
  case (Inl e)
  have "up l ev v \<noteq> Inl e" for l ev v using assms(3) [of l ev v] by auto
  with run_loop_fault [OF assms(1) thread_entry_inv [OF assms(2)] Inl [unfolded unix_tcp_thread_def]] Inl
  show ?thesis by simp
next
  case (Inr p)
  with unix_tcp_thread_session [OF assms(1,2), of n "fst p" "snd p"] show ?thesis by (cases p) simp
qed

end

section \<open>What \<open>init\<close> and one data event establish\<close>

text \<open>
  A successful \<open>init\<close> of a new server establishes the invariant: the listening socket is open and
  is the only descriptor of the new epoll instance.
\<close>

lemma tcp_inv_initial:
  assumes "i < length (servers w)" "s_clients (the_server i w) = []"
    and "count_list (s_listeners (the_server i w)) l = 1" "session_at l i w = Some {}"
    and "s_server_fd (the_server i w) \<in> open_fds (trace w)"
    and "\<And>fd. (s_epoll_fd (the_server i w), fd) \<in> epoll_regs (trace w) \<Longrightarrow> fd = s_server_fd (the_server i w)"
  shows "tcp_inv l i w"
  using assms by (auto simp: tcp_inv_def tcp_struct_def Let_def ids_of_def tcp_table_def)

definition tcp_new :: "nat \<Rightarrow> nat \<Rightarrow> 'a world_scheme \<Rightarrow> bool" where
  "tcp_new l i w \<longleftrightarrow> i < length (servers w) \<and> s_clients (the_server i w) = []
     \<and> count_list (s_listeners (the_server i w)) l = 1 \<and> session_at l i w = Some {}"

lemma tcp_new_observe [simp]: "tcp_new l i (observe (Call c r) w) = tcp_new l i w"
  by (simp add: tcp_new_def)

lemma tcp_new_upd [simp]:
  "tcp_new l i w \<Longrightarrow> tcp_new l i (upd_server i (\<lambda>s. s\<lparr>s_epoll_fd := v\<rparr>) w)"
  "tcp_new l i w \<Longrightarrow> tcp_new l i (upd_server i (\<lambda>s. s\<lparr>s_server_fd := v\<rparr>) w)"
  by (auto simp: tcp_new_def session_at_def)

lemma tcp_new_len: "tcp_new l i w \<Longrightarrow> i < length (servers w)"
  by (simp add: tcp_new_def)

definition ep_of :: "nat \<Rightarrow> 'a world_scheme \<Rightarrow> int" where
  "ep_of i w = s_epoll_fd (the_server i w)"

lemma tcp_create_epoll_ok:
  assumes k: "kernel_ok k" and new: "tcp_new l i w" and run: "tcp_create_epoll k i w = (True, w')"
  shows "tcp_new l i w' \<and> (\<forall>fd. (ep_of i w', fd) \<notin> epoll_regs (trace w'))"
proof -
  let ?w1 = "observe (Call (Malloc (sizeof_epoll_event * EPOLL_SIZE))
     (k (trace w) (Malloc (sizeof_epoll_event * EPOLL_SIZE)))) w"
  let ?ep = "r_ret (k (trace ?w1) (Epoll_Create (s_max_client (the_server i w))))"
  have "?ep < 0 \<or> (\<forall>fd. (?ep, fd) \<notin> epoll_regs (trace w))"
    using kernel_okD [OF k, of "trace ?w1" "Epoll_Create (s_max_client (the_server i w))"]
    by (auto simp: image_iff)
  with run new tcp_new_len [OF new] show ?thesis
    by (auto simp: tcp_create_epoll_def sys_def Let_def ep_of_def)
qed

lemma tcp_socket_ok:
  assumes "tcp_new l i w" "\<forall>fd. (ep_of i w, fd) \<notin> epoll_regs (trace w)"
    and "tcp_socket k fam failed i w = (True, w')"
    and "\<not> failed (r_ret (k (trace w) (Socket fam SOCK_STREAM))) \<Longrightarrow>
         0 \<le> r_ret (k (trace w) (Socket fam SOCK_STREAM))"
  shows "tcp_new l i w' \<and> s_server_fd (the_server i w') \<in> open_fds (trace w')
     \<and> (\<forall>fd. (ep_of i w', fd) \<notin> epoll_regs (trace w'))"
  using assms tcp_new_len [OF assms(1)]
  by (auto simp: tcp_socket_def sys_def Let_def ep_of_def split: if_splits)

lemma tcp_epoll_add_ok:
  assumes "tcp_new l i w" "\<forall>fd. (ep_of i w, fd) \<notin> epoll_regs (trace w)"
    and "s_server_fd (the_server i w) \<in> open_fds (trace w)"
    and "tcp_epoll_add k i w = (True, w')"
  shows "tcp_inv l i w'"
  using assms tcp_new_len [OF assms(1)]
  by (intro tcp_inv_initial) (auto simp: tcp_epoll_add_def sys_def Let_def ep_of_def tcp_new_def)

text \<open>A successful \<open>init\<close> of a new server establishes the invariant.\<close>

lemma inet_tcp_init_inv:
  assumes k: "kernel_ok k" and new: "tcp_new l i w" and run: "inet_tcp_init k i w = Inr (True, w')"
  shows "tcp_inv l i w'"
proof -
  from run obtain w1 w2 port where c: "tcp_create_epoll k i w = (True, w1)"
    and s: "tcp_socket k AF_INET (\<lambda>fd. fd < 0) i w1 = (True, w2)"
    and b: "inet_tcp_listen k port i (snd (sys k (Set_Reuse_Addr (s_server_fd (the_server i w2))) w2)) = (True, w')"
    by (auto simp: inet_tcp_init_def sys_def Let_def split: prod.splits if_splits)
  note w1 = tcp_create_epoll_ok [OF k new c]
  have "tcp_new l i w2 \<and> s_server_fd (the_server i w2) \<in> open_fds (trace w2)
     \<and> (\<forall>fd. (ep_of i w2, fd) \<notin> epoll_regs (trace w2))"
    using tcp_socket_ok [OF _ _ s] w1 by auto
  with b show ?thesis
    by (auto simp: inet_tcp_listen_def sys_def Let_def ep_of_def
        split: if_splits elim!: tcp_epoll_add_ok [rotated -1])
qed

lemma unlink_stale_frame [simp]:
  "tcp_new l i (unlink_stale k p w) = tcp_new l i w"
  "epoll_regs (trace (unlink_stale k p w)) = epoll_regs (trace w)"
  "ep_of i (unlink_stale k p w) = ep_of i w"
  by (auto simp: unlink_stale_def sys_def Let_def ep_of_def)

lemma unix_tcp_init_inv:
  assumes k: "kernel_ok k" and new: "tcp_new l i w"
    and fd: "\<And>tr. -1 \<le> r_ret (k tr (Socket AF_UNIX SOCK_STREAM))"
    and run: "unix_tcp_init k i w = Inr (True, w')"
  shows "tcp_inv l i w'"
proof -
  from run obtain w1 w2 sun where c: "tcp_create_epoll k i w = (True, w1)"
    and s: "tcp_socket k AF_UNIX (\<lambda>fd. fd = -1) i (unlink_stale k (s_bind (the_server i w1)) w1) = (True, w2)"
    and b: "unix_tcp_listen k sun i w2 = (True, w')"
    by (auto simp: unix_tcp_init_def Let_def split: prod.splits if_splits)
  note w1 = tcp_create_epoll_ok [OF k new c]
  have nonneg: "x \<noteq> -1 \<Longrightarrow> -1 \<le> x \<Longrightarrow> 0 \<le> x" for x :: int by linarith
  have "tcp_new l i w2 \<and> s_server_fd (the_server i w2) \<in> open_fds (trace w2)
     \<and> (\<forall>fd. (ep_of i w2, fd) \<notin> epoll_regs (trace w2))"
    using tcp_socket_ok [OF _ _ s] w1 fd nonneg by auto
  with b show ?thesis
    by (auto simp: unix_tcp_listen_def sys_def Let_def ep_of_def
        split: if_splits elim!: tcp_epoll_add_ok [rotated -1])
qed

end
