(* ===== verification/Udp_Server.thy ===== *)
theory Udp_Server
  imports Tcp_Session
begin

text \<open>
  \<open>InetDomainSocketUdpServer\<close> and \<open>UnixDomainSocketUdpServer\<close>
  (src/inet_domainsocket_udp_server.cpp, src/unix_domainsocket_udp_server.cpp): one datagram is
  one short session: a client record is added, the message passed on, the record removed. The
  lemmas show that every successful \<open>recvfrom\<close> keeps the session specification and leaves the
  client list as it was, and that a failed one breaks it.
\<close>

definition UDP_BUFFER_LENGTH :: nat where "UDP_BUFFER_LENGTH = 2048"

definition inet_udp_init :: "kernel \<Rightarrow> nat \<Rightarrow> 'a world_scheme \<Rightarrow> fault + bool \<times> 'a world_scheme" where
  "inet_udp_init k i w =
     rbind (stoi (s_bind (the_server i w))) (\<lambda>port.
     let (r, w) = sys k (Socket AF_INET SOCK_DGRAM) w;
         w = upd_server i (\<lambda>s. s\<lparr>s_server_fd := r_ret r\<rparr>) w;
         (_, w) = sys k (Set_Reuse_Addr (s_server_fd (the_server i w))) w
      in if s_server_fd (the_server i w) < 0 then Inr (False, w) else
     let (r, w) = sys k (Bind (s_server_fd (the_server i w)) (Port (htons port))) w
      in if r_ret r < 0 then Inr (False, w) else Inr (True, w))"

definition unix_udp_init :: "kernel \<Rightarrow> nat \<Rightarrow> 'a world_scheme \<Rightarrow> fault + bool \<times> 'a world_scheme" where
  "unix_udp_init k i w =
     (let path = s_bind (the_server i w);
          w = unlink_stale k path w
      in rbind (strcpy_sun_path path) (\<lambda>sun.
     let (r, w) = sys k (Socket AF_UNIX SOCK_DGRAM) w;
         w = upd_server i (\<lambda>s. s\<lparr>s_server_fd := r_ret r\<rparr>) w
      in if s_server_fd (the_server i w) < 0 then Inr (False, w) else
     let (r, w) = sys k (Bind (s_server_fd (the_server i w)) (Sun_Path sun)) w
      in if r_ret r < 0 then Inr (False, w) else Inr (True, w)))"

definition inet_udp_start :: "kernel \<Rightarrow> nat \<Rightarrow> 'a world_scheme \<Rightarrow> bool \<times> 'a world_scheme" where
  "inet_udp_start k i w = start_thread k i w"

definition unix_udp_start :: "kernel \<Rightarrow> nat \<Rightarrow> 'a world_scheme \<Rightarrow> bool \<times> 'a world_scheme" where
  "unix_udp_start k i w = start_thread k i w"

definition inet_udp_stop :: "nat \<Rightarrow> 'a world_scheme \<Rightarrow> 'a world_scheme" where
  "inet_udp_stop i w = clear_run i w"

definition unix_udp_stop :: "nat \<Rightarrow> 'a world_scheme \<Rightarrow> 'a world_scheme" where
  "unix_udp_stop i w = clear_run i w"

text \<open>
  \<open>sendto\<close> to the address stored in the client record; a record of another class would be cast
  to \<open>UdpClientInfo\<close>.
\<close>

definition udp_sockaddr_of :: "client_info \<Rightarrow> fault + bytes" where
  "udp_sockaddr_of c = (case ci_class c of UdpClientInfo sa \<Rightarrow> Inr sa | _ \<Rightarrow> Inl Bad_Cast)"

definition udp_sendToClient ::
  "kernel \<Rightarrow> nat \<Rightarrow> size_t \<Rightarrow> bytes \<Rightarrow> uint \<Rightarrow> 'a world_scheme \<Rightarrow> fault + bool \<times> 'a world_scheme" where
  "udp_sendToClient k i cid msg len w =
     (case findClientInfo cid (s_clients (the_server i w)) of
        None \<Rightarrow> Inl Null_Deref
      | Some c \<Rightarrow> rbind (udp_sockaddr_of c) (\<lambda>sa. rbind (msg_bytes msg len) (\<lambda>b.
          let (r, w) = sys k (Sendto (s_server_fd (the_server i w)) b sa) w
           in Inr (\<not> r_ret r < 0, w))))"

definition inet_udp_sendToClient ::
  "kernel \<Rightarrow> nat \<Rightarrow> size_t \<Rightarrow> bytes \<Rightarrow> uint \<Rightarrow> 'a world_scheme \<Rightarrow> fault + bool \<times> 'a world_scheme" where
  "inet_udp_sendToClient k i cid msg len w = udp_sendToClient k i cid msg len w"

definition unix_udp_sendToClient ::
  "kernel \<Rightarrow> nat \<Rightarrow> size_t \<Rightarrow> bytes \<Rightarrow> uint \<Rightarrow> 'a world_scheme \<Rightarrow> fault + bool \<times> 'a world_scheme" where
  "unix_udp_sendToClient k i cid msg len w = udp_sendToClient k i cid msg len w"

section \<open>The receive loop\<close>

text \<open>
  From the new client record to the disconnect notification: the part of the loop the two
  classes share. \<open>log\<close> is what the debug line between the notifications evaluates: \<open>Some\<close> fault
  when it dereferences a null pointer.
\<close>

definition udp_session ::
  "kernel \<Rightarrow> 'a listener \<Rightarrow> nat \<Rightarrow> fault option \<Rightarrow> bytes \<Rightarrow> bytes \<Rightarrow> int \<Rightarrow> 'a world_scheme
     \<Rightarrow> fault + 'a world_scheme" where
  "udp_session k up i log buffer clientaddr readn w =
     (let (p, w) = sys k New_Client w
      in if r_ptr p = 0 then Inl (Uncaught ''bad_alloc'') else
     let (client_id, w) = add_client i (newUdpClientInfo (r_ptr p) clientaddr) w;
         sid = s_server_id (the_server i w)
      in rbind (notify up i (Client_Connected sid client_id) w) (\<lambda>w.
         case log of Some e \<Rightarrow> Inl e | None \<Rightarrow>
         rbind (notify up i (Received sid client_id buffer (word_of_int readn)) w) (\<lambda>w.
           let (client_id, w) = remove_client i client_id w
            in notify up i (Client_Disconnected sid client_id) w)))"

text \<open>
  One pass of the loop of each class. \<open>debug\<close> tells whether the build defines \<open>CONFIG_DEBUG\<close>:
  then the debug line of the inet server reads \<open>hostp->h_name\<close>, also when \<open>gethostbyaddr\<close>
  returned null. A failed \<open>recvfrom\<close> is only reported, and its -1 passed on as the length.
\<close>

definition inet_udp_iteration ::
  "bool \<Rightarrow> kernel \<Rightarrow> 'a listener \<Rightarrow> nat \<Rightarrow> 'a world_scheme \<Rightarrow> fault + 'a world_scheme" where
  "inet_udp_iteration debug k up i w =
     (let (r, w) = sys k (Recvfrom (s_server_fd (the_server i w)) UDP_BUFFER_LENGTH) w;
          (h, w) = sys k (Gethostbyaddr (r_addr r)) w
      in udp_session k up i (if debug \<and> r_ptr h = 0 then Some Null_Deref else None)
           (fill UDP_BUFFER_LENGTH (r_data r)) (r_addr r) (r_ret r) w)"

definition unix_udp_iteration ::
  "kernel \<Rightarrow> 'a listener \<Rightarrow> nat \<Rightarrow> 'a world_scheme \<Rightarrow> fault + 'a world_scheme" where
  "unix_udp_iteration k up i w =
     (let (r, w) = sys k (Recvfrom (s_server_fd (the_server i w)) UDP_BUFFER_LENGTH) w
      in udp_session k up i None (fill UDP_BUFFER_LENGTH (r_data r)) (r_addr r) (r_ret r) w)"

definition inet_udp_thread ::
  "bool \<Rightarrow> kernel \<Rightarrow> 'a listener \<Rightarrow> nat \<Rightarrow> nat \<Rightarrow> 'a world_scheme \<Rightarrow> fault + bool \<times> 'a world_scheme" where
  "inet_udp_thread debug k up i n w =
     run_loop (inet_udp_iteration debug k up)
       (\<lambda>i w. snd (sys k (Close (s_server_fd (the_server i w))) w)) i n (thread_entry i w)"

definition unix_udp_thread ::
  "kernel \<Rightarrow> 'a listener \<Rightarrow> nat \<Rightarrow> nat \<Rightarrow> 'a world_scheme \<Rightarrow> fault + bool \<times> 'a world_scheme" where
  "unix_udp_thread k up i n w =
     run_loop (unix_udp_iteration k up)
       (\<lambda>i w. snd (sys k (Close (s_server_fd (the_server i w))) w)) i n (thread_entry i w)"

section \<open>Datagrams as sessions\<close>

definition udp_inv :: "nat \<Rightarrow> nat \<Rightarrow> 'a world_scheme \<Rightarrow> bool" where
  "udp_inv l i w \<longleftrightarrow> i < length (servers w) \<and> s_clients (the_server i w) = []
     \<and> count_list (s_listeners (the_server i w)) l = 1 \<and> session_at l i w = Some {}"

lemma ci_id_udp [simp]: "ci_id (newUdpClientInfo p sa) = p"
  by (simp add: newUdpClientInfo_def hash_ptr_def)

context base_listener
begin

text \<open>
  The three notifications of one datagram. The middle one is the only one that can violate the
  specification, by its length.
\<close>

lemma udp_session_run:
  assumes inv: "udp_inv l i w" and len: "unat (word_of_int readn :: uint) \<le> length buffer"
    and run: "udp_session k up i log buffer clientaddr readn w = Inr w'"
  shows "udp_inv l i w'"
proof -
  let ?s = "the_server i w" let ?sid = "s_server_id ?s"
  let ?p = "k (trace w) New_Client"
  let ?c = "newUdpClientInfo (r_ptr ?p) clientaddr"
  let ?w1 = "upd_server i (s_clients_update (\<lambda>_. [?c])) (observe (Call New_Client ?p) w)"
  from inv have i: "i < length (servers w)" and e: "s_clients ?s = []"
    and cnt: "count_list (s_listeners ?s) l = 1" and ses: "session_at l i w = Some {}"
    by (auto simp: udp_inv_def)
  from run e i obtain w2 w3 where
    n1: "notify up i (Client_Connected ?sid (r_ptr ?p)) ?w1 = Inr w2" and
    n2: "notify up i (Received ?sid (r_ptr ?p) buffer (word_of_int readn)) w2 = Inr w3" and
    n3: "(case remove_client i (r_ptr ?p) w3 of (cid, v) \<Rightarrow>
           notify up i (Client_Disconnected ?sid cid) v) = Inr w'"
    by (auto simp: udp_session_def sys_def add_client_def addClientInfo_def Let_def
        split: if_splits option.splits)
  have i1: "i < length (servers ?w1)" using i by simp
  note f1 = notify_effect [OF n1]
  note s1 = notify_effect_server [OF f1 i1]
  have st1: "stable_server (the_server i ?w1) (the_server i w2)" and i2: "i < length (servers w2)"
    using s1 i1 by auto
  note t1 = stable_server_fields [OF st1]
  have a2: "session_at l i w2 = Some {r_ptr ?p}"
    by (rule notify_effect_session [OF f1 i1, where L = "{}"]) (use i cnt ses in simp_all)
  note f2 = notify_effect [OF n2]
  note s2 = notify_effect_server [OF f2 i2]
  have st2: "stable_server (the_server i w2) (the_server i w3)" and i3: "i < length (servers w3)"
    using s2 i2 by auto
  note t2 = stable_server_fields [OF st2]
  have a3: "session_at l i w3 = Some {r_ptr ?p}"
    by (rule notify_effect_session [OF f2 i2 _ a2]) (use i cnt len t1 in simp_all)
  have cl3: "s_clients (the_server i w3) = [?c]" using t1(1) t2(1) i by simp
  let ?w4 = "observe (Released (r_ptr ?p)) (upd_server i (s_clients_update (\<lambda>_. [])) w3)"
  have n4: "notify up i (Client_Disconnected ?sid (r_ptr ?p)) ?w4 = Inr w'"
    using n3 cl3 by (simp add: remove_client_def removeClientInfo_def list_remove_def
        store_removed_def Let_def)
  have i4: "i < length (servers ?w4)" using i3 by simp
  note f4 = notify_effect [OF n4]
  have st4: "stable_server (the_server i ?w4) (the_server i w')" "i < length (servers w')"
    using notify_effect_server [OF f4 i4] i4 by auto
  note t4 = stable_server_fields [OF st4(1)]
  have "session_at l i w' = Some {}"
    by (rule notify_effect_session [OF f4 i4, where L = "{r_ptr ?p}"]) (use i i3 cnt a3 t1 t2 in simp_all)
  with st4 t4 show ?thesis using i3 t1 t2 cnt i by (simp add: udp_inv_def)
qed

lemma udp_datagram_len:
  assumes k: "kernel_ok k" and r: "0 \<le> r_ret (k tr (Recvfrom fd UDP_BUFFER_LENGTH))"
  shows "unat (word_of_int (r_ret (k tr (Recvfrom fd UDP_BUFFER_LENGTH))) :: uint) \<le> UDP_BUFFER_LENGTH"
proof -
  let ?n = "r_ret (k tr (Recvfrom fd UDP_BUFFER_LENGTH))"
  have "0 \<le> ?n" "?n \<le> 2048"
    using r kernel_okD [OF k, of tr "Recvfrom fd UDP_BUFFER_LENGTH"]
    by (simp_all add: UDP_BUFFER_LENGTH_def)
  then have "uint (word_of_int ?n :: uint) = ?n"
    by (simp add: uint_word_of_int take_bit_int_eq_self)
  with \<open>?n \<le> 2048\<close> show ?thesis by (simp add: UDP_BUFFER_LENGTH_def unat_eq_nat_uint nat_le_iff)
qed

lemma inet_udp_iteration_inv:
  assumes k: "kernel_ok k" and inv: "udp_inv l i w"
    and ok: "0 \<le> r_ret (k (trace w) (Recvfrom (s_server_fd (the_server i w)) UDP_BUFFER_LENGTH))"
    and run: "inet_udp_iteration debug k up i w = Inr w'"
  shows "udp_inv l i w'"
proof -
  let ?s = "the_server i w" let ?c = "Recvfrom (s_server_fd ?s) UDP_BUFFER_LENGTH"
  let ?r = "k (trace w) ?c" let ?w1 = "observe (Call ?c ?r) w"
  let ?h = "k (trace ?w1) (Gethostbyaddr (r_addr ?r))"
  let ?w2 = "observe (Call (Gethostbyaddr (r_addr ?r)) ?h) ?w1"
  have "udp_inv l i ?w2" using inv by (simp add: udp_inv_def)
  then show ?thesis
    by (rule udp_session_run [of l i ?w2 "r_ret ?r" "fill UDP_BUFFER_LENGTH (r_data ?r)"])
      (use run udp_datagram_len [OF k ok] in \<open>simp_all add: inet_udp_iteration_def sys_def Let_def\<close>)
qed

lemma unix_udp_iteration_inv:
  assumes k: "kernel_ok k" and inv: "udp_inv l i w"
    and ok: "0 \<le> r_ret (k (trace w) (Recvfrom (s_server_fd (the_server i w)) UDP_BUFFER_LENGTH))"
    and run: "unix_udp_iteration k up i w = Inr w'"
  shows "udp_inv l i w'"
proof -
  let ?s = "the_server i w" let ?c = "Recvfrom (s_server_fd ?s) UDP_BUFFER_LENGTH"
  let ?r = "k (trace w) ?c" let ?w1 = "observe (Call ?c ?r) w"
  have "udp_inv l i ?w1" using inv by (simp add: udp_inv_def)
  then show ?thesis
    by (rule udp_session_run [of l i ?w1 "r_ret ?r" "fill UDP_BUFFER_LENGTH (r_data ?r)"])
      (use run udp_datagram_len [OF k ok] in \<open>simp_all add: unix_udp_iteration_def sys_def Let_def\<close>)
qed

text \<open>One datagram makes three events, whatever its length says.\<close>

lemma udp_session_events:
  assumes inv: "udp_inv l i w" and run: "udp_session k up i None buffer clientaddr readn w = Inr w'"
  shows "\<exists>p. notified Base_Listener l (trace w') = notified Base_Listener l (trace w)
     @ [Client_Connected (s_server_id (the_server i w)) p,
        Received (s_server_id (the_server i w)) p buffer (word_of_int readn),
        Client_Disconnected (s_server_id (the_server i w)) p]
     \<and> s_server_id (the_server i w') = s_server_id (the_server i w)"
proof -
  let ?s = "the_server i w" let ?sid = "s_server_id ?s"
  let ?p = "k (trace w) New_Client"
  let ?c = "newUdpClientInfo (r_ptr ?p) clientaddr"
  let ?w1 = "upd_server i (s_clients_update (\<lambda>_. [?c])) (observe (Call New_Client ?p) w)"
  from inv have i: "i < length (servers w)" and e: "s_clients ?s = []"
    and cnt: "count_list (s_listeners ?s) l = 1" by (auto simp: udp_inv_def)
  from run e i obtain w2 w3 where
    n1: "notify up i (Client_Connected ?sid (r_ptr ?p)) ?w1 = Inr w2" and
    n2: "notify up i (Received ?sid (r_ptr ?p) buffer (word_of_int readn)) w2 = Inr w3" and
    n3: "(case remove_client i (r_ptr ?p) w3 of (cid, v) \<Rightarrow>
           notify up i (Client_Disconnected ?sid cid) v) = Inr w'"
    by (auto simp: udp_session_def sys_def add_client_def addClientInfo_def Let_def split: if_splits)
  have i1: "i < length (servers ?w1)" using i by simp
  note s1 = notify_effect_server [OF notify_effect [OF n1] i1]
  then have i2: "i < length (servers w2)" using i1 by simp
  note s2 = notify_effect_server [OF notify_effect [OF n2] i2]
  note t1 = stable_server_fields [OF conjunct1 [OF s1]] and t2 = stable_server_fields [OF conjunct1 [OF s2]]
  have i3: "i < length (servers w3)" using s2 i2 by simp
  have cl3: "s_clients (the_server i w3) = [?c]" using t1(1) t2(1) i by simp
  let ?w4 = "observe (Released (r_ptr ?p)) (upd_server i (s_clients_update (\<lambda>_. [])) w3)"
  have n4: "notify up i (Client_Disconnected ?sid (r_ptr ?p)) ?w4 = Inr w'"
    using n3 cl3 by (simp add: remove_client_def removeClientInfo_def list_remove_def
        store_removed_def Let_def)
  have "notified Base_Listener l (trace w2) = notified Base_Listener l (trace ?w1) @ [Client_Connected ?sid (r_ptr ?p)]"
    using notify_events [OF n1] i cnt by simp
  moreover have "notified Base_Listener l (trace w3) = notified Base_Listener l (trace w2)
      @ [Received ?sid (r_ptr ?p) buffer (word_of_int readn)]"
    using notify_events [OF n2] i cnt t1 by simp
  moreover have "notified Base_Listener l (trace w') = notified Base_Listener l (trace ?w4)
      @ [Client_Disconnected ?sid (r_ptr ?p)]"
    using notify_events [OF n4] i i3 cnt t1 t2 by simp
  moreover have "s_server_id (the_server i w') = ?sid"
  proof -
    have "i < length (servers ?w4)" using i3 by simp
    from stable_server_fields(3) [OF conjunct1 [OF notify_effect_server [OF notify_effect [OF n4] this]]]
    show ?thesis using i i3 t1 t2 by simp
  qed
  ultimately show ?thesis by simp
qed

lemma udp_session_fault:
  assumes "udp_session k up i log buffer clientaddr readn w = Inl e" "\<And>l e v. \<exists>v'. up l e v = Inr v'"
  shows "e = Uncaught ''bad_alloc'' \<or> log = Some e"
proof -
  have n: "notify up i ev v \<noteq> Inl f" for ev v f using notify_total [of up i ev v] assms(2) by auto
  from assms(1) show ?thesis
    by (auto simp: udp_session_def sys_def Let_def rbind_Inl_iff n split: if_splits option.splits prod.splits)
qed

text \<open>The loop of either class, as long as \<open>recvfrom\<close> does not fail.\<close>

lemma udp_loop:
  assumes body: "\<And>v x. udp_inv l i v \<Longrightarrow> body i v = Inr x \<Longrightarrow> udp_inv l i x"
    and fault: "\<And>v e. body i v = Inl e \<Longrightarrow> P e"
    and fin: "fin = (\<lambda>i w. snd (sys k (Close (s_server_fd (the_server i w))) w))"
  shows "udp_inv l i w \<Longrightarrow> case run_loop body fin i n w of Inl e \<Rightarrow> P e
     | Inr (ret, w') \<Rightarrow> session_at l i w' = Some {} \<and> s_clients (the_server i w') = []"
proof (induction n arbitrary: w)
  case 0
  then show ?case
    by (auto simp: run_loop.simps [of _ _ _ 0] fin thread_exit_def udp_inv_def session_at_def)
next
  case (Suc n)
  show ?case
  proof (cases "s_run_thread (the_server i w)")
    case True
    with Suc body [OF Suc.prems] fault show ?thesis
      by (cases "body i w") (auto simp: run_loop.simps [of _ _ _ "Suc n"])
  next
    case False
    with Suc.prems show ?thesis
      by (auto simp: run_loop.simps [of _ _ _ "Suc n"] fin thread_exit_def udp_inv_def session_at_def)
  qed
qed

lemma udp_entry_inv: "udp_inv l i w \<Longrightarrow> udp_inv l i (thread_entry i w)"
  by (auto simp: udp_inv_def thread_entry_def session_at_def)

end

end
