(* ===== verification/Lws_Common.thy ===== *)
theory Lws_Common
  imports Tcp_Session
begin

text \<open>
  What the two libwebsockets servers share (the lines appear in both src/http_tcp_server.cpp and
  src/websocket_tcp_server.cpp): the creation record, the lookup of the context's user, the
  handling of a new and of a closed connection, and their effect on the session specification.
\<close>

section \<open>Library constants and the creation record\<close>

definition LWS_SERVER_OPTION_ALLOW_NON_SSL_ON_SSL_PORT :: uint where
  "LWS_SERVER_OPTION_ALLOW_NON_SSL_ON_SSL_PORT = push_bit 3 1 OR push_bit 12 1"
definition LWS_SERVER_OPTION_PEER_CERT_NOT_REQUIRED :: uint where
  "LWS_SERVER_OPTION_PEER_CERT_NOT_REQUIRED = push_bit 7 1"
definition LWS_SERVER_OPTION_VALIDATE_UTF8 :: uint where
  "LWS_SERVER_OPTION_VALIDATE_UTF8 = push_bit 8 1"
definition LWS_SERVER_OPTION_REDIRECT_HTTP_TO_HTTPS :: uint where
  "LWS_SERVER_OPTION_REDIRECT_HTTP_TO_HTTPS = push_bit 11 1 OR push_bit 12 1"
definition LWS_SERVER_OPTION_DO_SSL_GLOBAL_INIT :: uint where
  "LWS_SERVER_OPTION_DO_SSL_GLOBAL_INIT = push_bit 12 1"
definition LWS_SERVER_OPTION_EXPLICIT_VHOSTS :: uint where
  "LWS_SERVER_OPTION_EXPLICIT_VHOSTS = push_bit 13 1"

lemmas lws_options =
  LWS_SERVER_OPTION_ALLOW_NON_SSL_ON_SSL_PORT_def LWS_SERVER_OPTION_PEER_CERT_NOT_REQUIRED_def
  LWS_SERVER_OPTION_VALIDATE_UTF8_def LWS_SERVER_OPTION_REDIRECT_HTTP_TO_HTTPS_def
  LWS_SERVER_OPTION_DO_SSL_GLOBAL_INIT_def LWS_SERVER_OPTION_EXPLICIT_VHOSTS_def

definition ssl_cipher_list :: string where
  "ssl_cipher_list =
     ''ECDHE-ECDSA-AES256-GCM-SHA384:'' @ ''ECDHE-RSA-AES256-GCM-SHA384:'' @
     ''DHE-RSA-AES256-GCM-SHA384:'' @ ''ECDHE-RSA-AES256-SHA384:'' @
     ''HIGH:!aNULL:!eNULL:!EXPORT:'' @ ''!DES:!MD5:!PSK:!RC4:!HMAC_SHA1:'' @
     ''!SHA1:!DHE-RSA-AES128-GCM-SHA256:'' @ ''!DHE-RSA-AES128-SHA256:'' @
     ''!AES128-GCM-SHA256:'' @ ''!AES128-SHA256:'' @ ''!DHE-RSA-AES256-SHA256:'' @
     ''!AES256-GCM-SHA384:'' @ ''!AES256-SHA256''"

text \<open>
  The creation record of a server that is or is not secured: the two last arguments are the
  option bits of the two cases. The record is cleared first: what is not set is null or 0.
\<close>

definition lws_create_info ::
  "nat \<Rightarrow> server \<Rightarrow> int \<Rightarrow> lws_protocol option list \<Rightarrow> uint \<Rightarrow> uint \<Rightarrow> lws_info" where
  "lws_create_info i s port protocols secure_opts plain_opts =
     \<lparr>li_port = port, li_protocols = protocols, li_keepalive_timeout = 60, li_timeout_secs = 5,
      li_vhost_name = (if s_security s then Some ''localhost'' else None),
      li_private_key = (if s_security s then Some (s_private_key s) else None),
      li_private_key_password = (if s_security s then Some (s_private_key_password s) else None),
      li_cert = (if s_security s then Some (s_cert s) else None),
      li_ca = (if s_security s then Some (s_ca s) else None),
      li_cipher_list = (if s_security s then Some ssl_cipher_list else None),
      li_options = (if s_security s then secure_opts else plain_opts),
      li_server_string = s_name s, li_fd_limit = s_max_client s, li_user = i\<rparr>"

section \<open>Connections\<close>

text \<open>
  \<open>lws_context_user\<close>: the \<open>user\<close> the context was created with; the latest creation counts, as
  the address of a destroyed context may be reused.
\<close>

fun context_user_rev :: "obs list \<Rightarrow> size_t \<Rightarrow> nat" where
  "context_user_rev [] ctx = 0"
| "context_user_rev (Call (Lws_Create_Context info) r # tr) ctx =
     (if r_ptr r = ctx then li_user info else context_user_rev tr ctx)"
| "context_user_rev (_ # tr) ctx = context_user_rev tr ctx"

definition context_user :: "obs list \<Rightarrow> size_t \<Rightarrow> nat" where
  "context_user tr ctx = context_user_rev (rev tr) ctx"

text \<open>
  A new connection: the descriptor, the peer's address, the client record, the notification.
  \<open>mk\<close> is the constructor of the server's client class.
\<close>

definition lws_connect ::
  "kernel \<Rightarrow> 'a listener \<Rightarrow> nat \<Rightarrow> (size_t \<Rightarrow> int \<Rightarrow> bytes \<Rightarrow> client_info) \<Rightarrow> nat \<Rightarrow> 'a world_scheme
     \<Rightarrow> fault + 'a world_scheme" where
  "lws_connect k up i mk wsi w =
     (let (r, w) = sys k (Lws_Get_Socket_Fd wsi) w;
          client_fd = r_ret r;
          (a, w) = sys k (Getpeername client_fd) w;
          (p, w) = sys k New_Client w
      in if r_ptr p = 0 then Inl (Uncaught ''bad_alloc'') else
     let (client_id, w) = add_client i (mk (r_ptr p) client_fd (r_addr a)) w
      in notify up i (Client_Connected (s_server_id (the_server i w)) client_id) w)"

text \<open>The two callback reasons that remove a client run the same lines.\<close>

definition lws_remove ::
  "kernel \<Rightarrow> 'a listener \<Rightarrow> nat \<Rightarrow> nat \<Rightarrow> 'a world_scheme \<Rightarrow> fault + 'a world_scheme" where
  "lws_remove k up i wsi w =
     (let (r, w) = sys k (Lws_Get_Socket_Fd wsi) w
      in rbind (remove_client_fd i (r_ret r) w) (\<lambda>(client_id, w).
           notify up i (Client_Disconnected (s_server_id (the_server i w)) client_id) w))"

section \<open>Connections and the session specification\<close>

text \<open>The invariant of a libwebsockets server; the descriptors are the library's here.\<close>

definition lws_struct :: "nat \<Rightarrow> 'a world_scheme \<Rightarrow> bool" where
  "lws_struct i w \<longleftrightarrow> i < length (servers w) \<and> tcp_table (s_clients (the_server i w))
     \<and> inj_on getFd (set (s_clients (the_server i w))) \<and> ids_of i w \<subseteq> live_ptrs (trace w)"

definition lws_inv :: "nat \<Rightarrow> nat \<Rightarrow> 'a world_scheme \<Rightarrow> bool" where
  "lws_inv l i w \<longleftrightarrow> lws_struct i w \<and> count_list (s_listeners (the_server i w)) l = 1
     \<and> session_at l i w = Some (ids_of i w)"

definition fd_known :: "nat \<Rightarrow> int \<Rightarrow> 'a world_scheme \<Rightarrow> bool" where
  "fd_known i fd w \<longleftrightarrow> (\<exists>c \<in> set (s_clients (the_server i w)). getFd c = Some fd)"

lemma unat_of_length: "length (xs :: 'b list) < 2 ^ 32 \<Longrightarrow> unat (of_nat (length xs) :: uint) = length xs"
  by (simp add: unat_of_nat take_bit_nat_eq_self_iff)

lemma lws_effect_inv:
  assumes n: "notify_effect (s_listeners (the_server i w)) e w w'" and s: "lws_struct i w"
    and "count_list (s_listeners (the_server i w)) l = 1"
    and "session_at l i w = Some L"
    and "session_step (s_server_id (the_server i w)) e L = Some (ids_of i w)"
  shows "lws_inv l i w'"
proof -
  from s have i: "i < length (servers w)" by (simp add: lws_struct_def)
  have ses: "session_at l i w' = Some (ids_of i w)"
    using notify_effect_session [OF n i] assms by blast
  from notify_effect_server [OF n i]
  have st: "stable_server (the_server i w) (the_server i w')"
    and len: "length (servers w') = length (servers w)" by auto
  from s ses assms(3) show ?thesis
    by (simp add: lws_inv_def lws_struct_def notify_effect_history [OF n]
        notify_effect_ids [OF n i] len stable_server_fields [OF st])
qed

lemma lws_fd_known:
  assumes tab: "tcp_table (s_clients (the_server i w))" and fd: "fd_known i fd w"
  obtains c where "c \<in> set (s_clients (the_server i w))"
    "findClientInfo_fd fd (s_clients (the_server i w)) = Inr (Some c)"
proof -
  let ?cs = "s_clients (the_server i w)"
  from by_fd.lookup_law [OF tab] obtain r where r: "findClientInfo_fd fd ?cs = Inr r" by blast
  with fd by_fd.lookup_None_iff [OF tab, of fd] obtain c where "r = Some c"
    by (cases r) (auto simp: fd_known_def)
  with r by_fd.lookup_Some_in [OF tab] that show thesis by blast
qed

lemma lws_fd_unknown:
  assumes tab: "tcp_table (s_clients (the_server i w))" and fd: "\<not> fd_known i fd w"
  shows "findClientInfo_fd fd (s_clients (the_server i w)) = Inr None"
  using by_fd.lookup_None_iff [OF tab, of fd] fd by (auto simp: fd_known_def)

context base_listener
begin

text \<open>A new connection on a descriptor that is not in the table.\<close>

lemma lws_connect_inv:
  assumes k: "kernel_ok k" and inv: "lws_inv l i w"
    and mk: "\<And>p fd sa. ci_id (mk p fd sa) = p \<and> getFd (mk p fd sa) = Some fd"
    and fd: "\<not> fd_known i (r_ret (k (trace w) (Lws_Get_Socket_Fd wsi))) w"
    and run: "lws_connect k up i mk wsi w = Inr w'"
  shows "lws_inv l i w'"
proof -
  let ?s = "the_server i w" let ?c1 = "Lws_Get_Socket_Fd wsi" let ?r = "k (trace w) ?c1"
  let ?w1 = "observe (Call ?c1 ?r) w" let ?c2 = "Getpeername (r_ret ?r)" let ?a = "k (trace ?w1) ?c2"
  let ?w2 = "observe (Call ?c2 ?a) ?w1" let ?p = "k (trace ?w2) New_Client"
  let ?w3 = "observe (Call New_Client ?p) ?w2"
  let ?c = "mk (r_ptr ?p) (r_ret ?r) (r_addr ?a)"
  let ?w4 = "upd_server i (s_clients_update (\<lambda>_. s_clients ?s @ [?c])) ?w3"
  from inv have i: "i < length (servers w)" and st: "lws_struct i w"
    and cnt: "count_list (s_listeners ?s) l = 1" and ses: "session_at l i w = Some (ids_of i w)"
    by (auto simp: lws_inv_def lws_struct_def)
  from run have p0: "r_ptr ?p \<noteq> 0"
    and n: "notify up i (Client_Connected (s_server_id ?s) (r_ptr ?p)) ?w4 = Inr w'"
    using i mk by (auto simp: lws_connect_def sys_def add_client_def addClientInfo_def Let_def split: if_splits)
  have new: "r_ptr ?p \<notin> ids_of i w"
    using kernel_okD [OF k, of "trace ?w2" New_Client] st by (auto simp: lws_struct_def)
  have st4: "lws_struct i ?w4"
    using st i fd p0 new mk
    by (auto simp: lws_struct_def ids_of_def tcp_table_def fd_known_def inj_on_def)
  have "session_step (s_server_id (the_server i ?w4))
      (Client_Connected (s_server_id ?s) (r_ptr ?p)) (ids_of i w) = Some (ids_of i ?w4)"
    using i new mk by (simp add: ids_of_def insert_commute)
  then show ?thesis
    using lws_effect_inv [OF notify_effect [OF n] st4, of l "ids_of i w"] i cnt ses by simp
qed

text \<open>A close of a connection in the table.\<close>

lemma lws_remove_inv:
  assumes inv: "lws_inv l i w" and fd: "fd_known i (r_ret (k (trace w) (Lws_Get_Socket_Fd wsi))) w"
    and run: "lws_remove k up i wsi w = Inr w'"
  shows "lws_inv l i w'"
proof -
  let ?s = "the_server i w" let ?c1 = "Lws_Get_Socket_Fd wsi" let ?r = "k (trace w) ?c1"
  let ?w1 = "observe (Call ?c1 ?r) w"
  from inv have i: "i < length (servers w)" and st: "lws_struct i w"
    and tab: "tcp_table (s_clients ?s)"
    and cnt: "count_list (s_listeners ?s) l = 1" and ses: "session_at l i w = Some (ids_of i w)"
    by (auto simp: lws_inv_def lws_struct_def)
  from lws_fd_known [OF tab fd] obtain c where c: "c \<in> set (s_clients ?s)"
    and find: "findClientInfo_fd (r_ret ?r) (s_clients ?s) = Inr (Some c)" by blast
  note rm = by_fd.remove_found [OF tab find]
  let ?cs = "remove1 c (s_clients ?s)"
  let ?w4 = "observe (Released (ci_id c)) (upd_server i (s_clients_update (\<lambda>_. ?cs)) ?w1)"
  have "length ?cs < length (s_clients ?s)"
    using c length_pos_if_in_set [OF c] by (simp add: length_remove1)
  with run rm i have n: "notify up i (Client_Disconnected (s_server_id ?s) (ci_id c)) ?w4 = Inr w'"
    by (auto simp: lws_remove_def sys_def remove_client_fd_def store_removed_def Let_def)
  have dist: "distinct (s_clients ?s)" using by_fd.wf_ids [OF tab] by (simp add: distinct_map)
  have set': "set ?cs = set (s_clients ?s) - {c}" using dist by (rule set_remove1_eq)
  have inj: "inj_on ci_id (set (s_clients ?s))" using by_fd.wf_ids [OF tab] by (simp add: distinct_map)
  have idsd: "ci_id ` set ?cs = ids_of i w - {ci_id c}"
    using inj c by (auto simp: set' ids_of_def inj_on_def)
  have "ci_id ` set ?cs \<subseteq> live_ptrs (trace w) - {ci_id c}"
    using st idsd by (auto simp: lws_struct_def)
  then have st4: "lws_struct i ?w4"
    using st i by_fd.wf_remove1 [OF tab, of c]
    by (auto simp: lws_struct_def ids_of_def set' intro: inj_on_subset)
  have "session_step (s_server_id (the_server i ?w4))
      (Client_Disconnected (s_server_id ?s) (ci_id c)) (ids_of i w) = Some (ids_of i ?w4)"
    using i c idsd by (simp add: ids_of_def)
  then show ?thesis
    using lws_effect_inv [OF notify_effect [OF n] st4, of l "ids_of i w"] i cnt ses by simp
qed

text \<open>
  A close of a connection that is not in the table, the second of the two reasons that report one
  close: a disconnection of client 0 is notified, which no client has.
\<close>

lemma lws_remove_again:
  assumes inv: "lws_inv l i w" and fd: "\<not> fd_known i (r_ret (k (trace w) (Lws_Get_Socket_Fd wsi))) w"
    and run: "lws_remove k up i wsi w = Inr w'"
  shows "notified Base_Listener l (trace w') = notified Base_Listener l (trace w)
           @ [Client_Disconnected (s_server_id (the_server i w)) 0]
       \<and> session_at l i w' = None"
proof -
  let ?s = "the_server i w" let ?c1 = "Lws_Get_Socket_Fd wsi" let ?r = "k (trace w) ?c1"
  let ?w1 = "upd_server i (s_clients_update (\<lambda>_. s_clients ?s)) (observe (Call ?c1 ?r) w)"
  from inv have i: "i < length (servers w)" and st: "lws_struct i w" and tab: "tcp_table (s_clients ?s)"
    and cnt: "count_list (s_listeners ?s) l = 1" and ses: "session_at l i w = Some (ids_of i w)"
    by (auto simp: lws_inv_def lws_struct_def)
  note rm = by_fd.remove_missing [OF tab lws_fd_unknown [OF tab fd]]
  from run rm i have n: "notify up i (Client_Disconnected (s_server_id ?s) 0) ?w1 = Inr w'"
    by (auto simp: lws_remove_def sys_def remove_client_fd_def store_removed_def Let_def)
  have ls: "s_listeners (the_server i ?w1) = s_listeners ?s" using i by simp
  from notify_effect [OF n] cnt obtain tr where tr: "trace w' = trace ?w1 @ tr"
      "notified Base_Listener l tr = [Client_Disconnected (s_server_id ?s) 0]"
    unfolding ls by (auto simp: notify_effect_def)
  have i1: "i < length (servers ?w1)" using i by simp
  have sid: "s_server_id (the_server i w') = s_server_id ?s"
    using notify_effect_server [OF notify_effect [OF n] i1] stable_server_fields(3) i by fastforce
  have "0 \<notin> ids_of i w" using st by (auto simp: lws_struct_def)
  with tr sid ses show ?thesis by (simp add: session_at_def session_run_append)
qed

text \<open>With a listener that does not fail only the allocator can.\<close>

lemma lws_connect_fault:
  assumes "lws_connect k up i mk wsi w = Inl e" "\<And>l e v. \<exists>v'. up l e v = Inr v'"
  shows "e = Uncaught ''bad_alloc''"
proof -
  have n: "notify up i ev v \<noteq> Inl f" for ev v f using notify_total [of up i ev v] assms(2) by auto
  from assms(1) show ?thesis by (auto simp: lws_connect_def sys_def Let_def n split: if_splits prod.splits)
qed

lemma lws_remove_total:
  assumes "tcp_table (s_clients (the_server i w))" "\<And>l e v. \<exists>v'. up l e v = Inr v'"
  shows "\<exists>w'. lws_remove k up i wsi w = Inr w'"
proof -
  let ?r = "k (trace w) (Lws_Get_Socket_Fd wsi)"
  from by_fd.remove_total [OF assms(1)] obtain x where
    "removeClientInfo_fd (r_ret ?r) (s_clients (the_server i w)) = Inr x" by blast
  then show ?thesis
    using notify_total [of up i] assms(2)
    by (auto simp: lws_remove_def remove_client_fd_def sys_def Let_def split: prod.splits)
qed

text \<open>One close of a connection in the table is one disconnection, of its client.\<close>

lemma lws_remove_events:
  assumes inv: "lws_inv l i w" and fd: "fd_known i (r_ret (k (trace w) (Lws_Get_Socket_Fd wsi))) w"
    and run: "lws_remove k up i wsi w = Inr w'"
  shows "\<exists>cid \<in> ids_of i w. notified Base_Listener l (trace w') = notified Base_Listener l (trace w)
           @ [Client_Disconnected (s_server_id (the_server i w)) cid]
       \<and> \<not> fd_known i (r_ret (k (trace w) (Lws_Get_Socket_Fd wsi))) w'
       \<and> s_server_id (the_server i w') = s_server_id (the_server i w)"
proof -
  let ?s = "the_server i w" let ?c1 = "Lws_Get_Socket_Fd wsi" let ?r = "k (trace w) ?c1"
  let ?w1 = "observe (Call ?c1 ?r) w"
  from inv have i: "i < length (servers w)" and tab: "tcp_table (s_clients ?s)"
    and inj: "inj_on getFd (set (s_clients ?s))"
    and cnt: "count_list (s_listeners ?s) l = 1" by (auto simp: lws_inv_def lws_struct_def)
  from lws_fd_known [OF tab fd] obtain c where c: "c \<in> set (s_clients ?s)"
    and find: "findClientInfo_fd (r_ret ?r) (s_clients ?s) = Inr (Some c)" by blast
  note rm = by_fd.remove_found [OF tab find]
  let ?cs = "remove1 c (s_clients ?s)"
  let ?w4 = "observe (Released (ci_id c)) (upd_server i (s_clients_update (\<lambda>_. ?cs)) ?w1)"
  have "length ?cs < length (s_clients ?s)"
    using c length_pos_if_in_set [OF c] by (simp add: length_remove1)
  with run rm i have n: "notify up i (Client_Disconnected (s_server_id ?s) (ci_id c)) ?w4 = Inr w'"
    by (auto simp: lws_remove_def sys_def remove_client_fd_def store_removed_def Let_def)
  have i4: "i < length (servers ?w4)" using i by simp
  note st = stable_server_fields [OF conjunct1 [OF notify_effect_server [OF notify_effect [OF n] i4]]]
  have "findClientInfo_fd (r_ret ?r) ?cs = Inr None"
    using by_fd.lookup_removed [OF tab inj rm] .
  then have "\<not> fd_known i (r_ret ?r) w'"
    using st(1) i by_fd.lookup_None_iff [OF by_fd.wf_remove1 [OF tab, of c], of "r_ret ?r"]
    by (simp add: fd_known_def)
  with notify_events [OF n] cnt i st c show ?thesis
    by (intro bexI [of _ "ci_id c"]) (simp_all add: ids_of_def)
qed

end

end
