(* ===== verification/Http_Server.thy ===== *)
theory Http_Server
  imports Lws_Common
begin

text \<open>
  \<open>HttpTcpServer\<close> (src/http_tcp_server.cpp) over libwebsockets: context creation, the service
  thread, the callback, and the reply of \<open>sendToClient\<close>. \<open>m_context\<close> and \<open>req_body\<close> are static:
  one context pointer and one body buffer for the whole process.
\<close>

section \<open>Construction, init, start, stop\<close>

text \<open>The protocol array the constructor fills: one entry and the terminator; ids are not set.\<close>

definition http_protocols :: "nat \<Rightarrow> (nat \<Rightarrow> uint) \<Rightarrow> lws_protocol option list" where
  "http_protocols i junk =
     [Some \<lparr>lp_name = Some ''http-only'', lp_has_callback = True, lp_user = User_Server i,
            lp_per_session = 0, lp_rx_buffer = 0, lp_id = junk 0\<rparr>,
      Some \<lparr>lp_name = None, lp_has_callback = False, lp_user = User_Null,
            lp_per_session = 0, lp_rx_buffer = 0, lp_id = junk 1\<rparr>]"

definition http_secure_options :: uint where
  "http_secure_options = LWS_SERVER_OPTION_REDIRECT_HTTP_TO_HTTPS OR LWS_SERVER_OPTION_VALIDATE_UTF8
     OR LWS_SERVER_OPTION_ALLOW_NON_SSL_ON_SSL_PORT OR LWS_SERVER_OPTION_PEER_CERT_NOT_REQUIRED
     OR LWS_SERVER_OPTION_DO_SSL_GLOBAL_INIT"

definition http_init :: "kernel \<Rightarrow> nat \<Rightarrow> 'a world_scheme \<Rightarrow> fault + bool \<times> 'a world_scheme" where
  "http_init k i w =
     rbind (stoi (s_bind (the_server i w))) (\<lambda>port.
     let info = lws_create_info i (the_server i w) port (s_protocols (the_server i w)) http_secure_options 0;
         (r, w) = sys k (Lws_Create_Context info) w;
         w = w\<lparr>http_context := r_ptr r\<rparr>
      in Inr (http_context w \<noteq> 0, w))"

definition http_start :: "kernel \<Rightarrow> nat \<Rightarrow> 'a world_scheme \<Rightarrow> bool \<times> 'a world_scheme" where
  "http_start k i w = start_thread k i w"

definition http_stop :: "nat \<Rightarrow> 'a world_scheme \<Rightarrow> 'a world_scheme" where
  "http_stop i w = clear_run i w"

section \<open>sendToClient\<close>

text \<open>
  The header lines of the reply, as the calls pass them: the value and its length are separate
  arguments, and the last fixed line passes one character with the length 2.
\<close>

definition http_headers :: "uint \<Rightarrow> (string \<times> bytes) list" where
  "http_headers msg_len =
     [(''status'', ''200''), (''server'', ''libwebsockets''), (''content-type'', ''text/plain''),
      (''access-control-allow-origin'', [CHR ''*'', NUL]),
      (''content-length'', dec_text (unat msg_len))]"

text \<open>The header calls: each appends its bytes at \<open>p\<close>; the first that fails ends the chain.\<close>

fun http_add_headers ::
  "kernel \<Rightarrow> nat \<Rightarrow> (string \<times> bytes) list \<Rightarrow> bytes \<Rightarrow> 'a world_scheme \<Rightarrow> (bytes \<times> bool) \<times> 'a world_scheme" where
  "http_add_headers k wsi [] h w =
     (let (r, w) = sys k (Lws_Finalize_Header wsi) w in ((h @ r_data r, r_ret r = 0), w))"
| "http_add_headers k wsi ((name, v) # hs) h w =
     (let (r, w) = sys k (Lws_Add_Header wsi name v) w
      in if r_ret r \<noteq> 0 then ((h, False), w) else http_add_headers k wsi hs (h @ r_data r) w)"

definition http_wsi_of :: "client_info \<Rightarrow> fault + nat" where
  "http_wsi_of c = (case ci_class c of HttpTcpClientInfo _ _ wsi \<Rightarrow> Inr wsi | _ \<Rightarrow> Inl Bad_Cast)"

definition http_sendToClient ::
  "kernel \<Rightarrow> nat \<Rightarrow> size_t \<Rightarrow> bytes \<Rightarrow> uint \<Rightarrow> 'a world_scheme \<Rightarrow> fault + bool \<times> 'a world_scheme" where
  "http_sendToClient k i cid msg msg_len w =
     (case findClientInfo cid (s_clients (the_server i w)) of
        None \<Rightarrow> Inl Null_Deref
      | Some c \<Rightarrow> rbind (http_wsi_of c) (\<lambda>wsi.
          let ((h, ok), w) = http_add_headers k wsi (http_headers msg_len) [] w;
              finish = (\<lambda>ret w. Inr (ret, snd (sys k (Lws_Transaction_Completed wsi) w)))
           in if \<not> ok then finish False w else
          let (r, w) = sys k (Lws_Write wsi h LWS_WRITE_HTTP_HEADERS) w
           in if r_ret r = -1 then finish False w else
          rbind (msg_bytes msg msg_len) (\<lambda>b.
          let (r, w) = sys k (Lws_Write wsi b LWS_WRITE_HTTP) w
           in finish (r_ret r \<noteq> -1) w)))"

section \<open>The callback\<close>

text \<open>
  The \<open>switch\<close> of the callback. For a request line the query fragments are read for the debug
  log only; that loop has no other effect and is left out.
\<close>

definition http_switch ::
  "kernel \<Rightarrow> 'a listener \<Rightarrow> nat \<Rightarrow> lws_callback \<Rightarrow> 'a world_scheme \<Rightarrow> fault + 'a world_scheme" where
  "http_switch k up i cb w =
     (let wsi = cb_wsi cb; sid = s_server_id (the_server i w) in
      case cb_reason cb of
        LWS_CALLBACK_SERVER_NEW_CLIENT_INSTANTIATED \<Rightarrow>
          lws_connect k up i (\<lambda>p fd sa. newHttpTcpClientInfo p fd sa wsi) wsi w
      | LWS_CALLBACK_CLOSED_HTTP \<Rightarrow> lws_remove k up i wsi w
      | LWS_CALLBACK_HTTP \<Rightarrow> Inr (w\<lparr>http_req_body := []\<rparr>)
      | LWS_CALLBACK_HTTP_BODY \<Rightarrow> Inr (w\<lparr>http_req_body := http_req_body w @ cb_in cb\<rparr>)
      | LWS_CALLBACK_HTTP_BODY_COMPLETION \<Rightarrow>
          (let (r, w) = sys k (Lws_Get_Socket_Fd wsi) w
            in rbind (findClientInfo_fd (r_ret r) (s_clients (the_server i w))) (\<lambda>client.
                 notify_received up i client (\<lambda>c. Received sid (ci_id c) (http_req_body w)
                   (of_nat (length (http_req_body w)))) w))
      | LWS_CALLBACK_DEL_POLL_FD \<Rightarrow> lws_remove k up i wsi w
      | _ \<Rightarrow> Inr w)"

definition callback_http ::
  "kernel \<Rightarrow> 'a listener \<Rightarrow> lws_callback \<Rightarrow> 'a world_scheme \<Rightarrow> fault + 'a world_scheme" where
  "callback_http k up cb w =
     (if http_context w = 0 then Inr w else
      let i = context_user (trace w) (http_context w)
       in if \<not> s_run_thread (the_server i w) then Inr w else http_switch k up i cb w)"

definition http_iteration ::
  "kernel \<Rightarrow> 'a listener \<Rightarrow> nat \<Rightarrow> 'a world_scheme \<Rightarrow> fault + 'a world_scheme" where
  "http_iteration k up i w =
     (let (r, w) = sys k (Lws_Service (http_context w)) w
      in rfold (callback_http k up) (r_cbs r) w)"

definition http_thread ::
  "kernel \<Rightarrow> 'a listener \<Rightarrow> nat \<Rightarrow> nat \<Rightarrow> 'a world_scheme \<Rightarrow> fault + bool \<times> 'a world_scheme" where
  "http_thread k up i n w = run_loop (http_iteration k up) (\<lambda>i w. w) i n (thread_entry i w)"

text \<open>The destructor: \<open>__deinit__\<close> and the destruction of the shared context.\<close>

definition http_destroy :: "kernel \<Rightarrow> nat \<Rightarrow> 'a world_scheme \<Rightarrow> 'a world_scheme" where
  "http_destroy k i w =
     (let w = http_stop i w in snd (sys k (Lws_Context_Destroy (http_context w)) w))"

section \<open>Requests\<close>

text \<open>A callback with a reason, a connection and data, as the library makes it.\<close>

definition cb :: "lws_reason \<Rightarrow> nat \<Rightarrow> bytes \<Rightarrow> lws_callback" where
  "cb r wsi d = \<lparr>cb_reason = r, cb_wsi = wsi, cb_in = d\<rparr>"

lemma cb_simps [simp]: "cb_reason (cb r wsi d) = r" "cb_wsi (cb r wsi d) = wsi" "cb_in (cb r wsi d) = d"
  by (simp_all add: cb_def)

text \<open>The callbacks of one request: its line, the chunks of its body, the end of the body.\<close>

definition http_request :: "nat \<Rightarrow> bytes \<Rightarrow> bytes list \<Rightarrow> lws_callback list" where
  "http_request wsi line chunks =
     cb LWS_CALLBACK_HTTP wsi line # List.map (cb LWS_CALLBACK_HTTP_BODY wsi) chunks
       @ [cb LWS_CALLBACK_HTTP_BODY_COMPLETION wsi []]"

text \<open>The server is in service: its context is the shared one and its loop runs.\<close>

definition http_serving :: "nat \<Rightarrow> 'a world_scheme \<Rightarrow> bool" where
  "http_serving i w \<longleftrightarrow> http_context w \<noteq> 0 \<and> context_user (trace w) (http_context w) = i
     \<and> s_run_thread (the_server i w)"

lemma http_serving_body [simp]: "http_serving i (w\<lparr>http_req_body := b\<rparr>) = http_serving i w"
  by (simp add: http_serving_def the_server_def)

lemma the_server_body [simp]: "the_server i (w\<lparr>http_req_body := b\<rparr>) = the_server i w"
  by (simp add: the_server_def)

lemma callback_http_serving:
  "http_serving i w \<Longrightarrow> callback_http k up c w = http_switch k up i c w"
  by (simp add: callback_http_def http_serving_def)

lemma http_body_chunks:
  "http_serving i w \<Longrightarrow>
   rfold (callback_http k up) (List.map (cb LWS_CALLBACK_HTTP_BODY wsi) chunks) w
     = Inr (w\<lparr>http_req_body := http_req_body w @ concat chunks\<rparr>)"
proof (induction chunks arbitrary: w)
  case Nil
  then show ?case by simp
next
  case (Cons c chunks)
  then show ?case by (simp add: callback_http_serving http_switch_def)
qed

lemma http_request_run:
  assumes "http_serving i w"
  shows "rfold (callback_http k up) (http_request wsi line chunks) w
       = http_switch k up i (cb LWS_CALLBACK_HTTP_BODY_COMPLETION wsi [])
           (w\<lparr>http_req_body := concat chunks\<rparr>)"
  using assms
proof -
  have "callback_http k up (cb LWS_CALLBACK_HTTP wsi line) w = Inr (w\<lparr>http_req_body := []\<rparr>)"
    by (simp add: callback_http_serving [OF assms] http_switch_def)
  moreover have "callback_http k up c (w\<lparr>http_req_body := b\<rparr>) = http_switch k up i c (w\<lparr>http_req_body := b\<rparr>)"
    for c b using assms by (intro callback_http_serving) simp
  ultimately show ?thesis
    using assms by (simp add: http_request_def rfold_append http_body_chunks)
qed

text \<open>What the library promises of a callback: the state of the connection it is about.\<close>

definition http_cb_ok :: "kernel \<Rightarrow> nat \<Rightarrow> lws_callback \<Rightarrow> 'a world_scheme \<Rightarrow> bool" where
  "http_cb_ok k i c w =
     (let fd = r_ret (k (trace w) (Lws_Get_Socket_Fd (cb_wsi c)))
      in case cb_reason c of
           LWS_CALLBACK_SERVER_NEW_CLIENT_INSTANTIATED \<Rightarrow> \<not> fd_known i fd w
         | LWS_CALLBACK_CLOSED_HTTP \<Rightarrow> fd_known i fd w
         | LWS_CALLBACK_DEL_POLL_FD \<Rightarrow> fd_known i fd w
         | LWS_CALLBACK_HTTP_BODY_COMPLETION \<Rightarrow> fd_known i fd w \<and> length (http_req_body w) < 2 ^ 32
         | _ \<Rightarrow> True)"

lemma lws_inv_body [simp]: "lws_inv l i (w\<lparr>http_req_body := b\<rparr>) = lws_inv l i w"
  by (simp add: lws_inv_def lws_struct_def session_at_def ids_of_def)

lemma http_client_info_simps [simp]:
  "ci_id (newHttpTcpClientInfo p fd sa wsi) = p" "getFd (newHttpTcpClientInfo p fd sa wsi) = Some fd"
  by (simp_all add: newHttpTcpClientInfo_def hash_ptr_def getFd_def)

context base_listener
begin

text \<open>The end of a body is one message from the client of the connection: the body so far.\<close>

lemma http_complete:
  assumes inv: "lws_inv l i w"
    and fd: "fd_known i (r_ret (k (trace w) (Lws_Get_Socket_Fd wsi))) w"
    and run: "http_switch k up i (cb LWS_CALLBACK_HTTP_BODY_COMPLETION wsi d) w = Inr w'"
  shows "\<exists>c \<in> set (s_clients (the_server i w)).
      getFd c = Some (r_ret (k (trace w) (Lws_Get_Socket_Fd wsi)))
    \<and> notify up i (Received (s_server_id (the_server i w)) (ci_id c) (http_req_body w)
        (of_nat (length (http_req_body w))))
        (observe (Call (Lws_Get_Socket_Fd wsi) (k (trace w) (Lws_Get_Socket_Fd wsi))) w) = Inr w'"
proof -
  let ?s = "the_server i w"
  from inv have tab: "tcp_table (s_clients ?s)" and cnt: "count_list (s_listeners ?s) l = 1"
    by (auto simp: lws_inv_def lws_struct_def)
  from lws_fd_known [OF tab fd] obtain c where c: "c \<in> set (s_clients ?s)"
    and find: "findClientInfo_fd (r_ret (k (trace w) (Lws_Get_Socket_Fd wsi))) (s_clients ?s) = Inr (Some c)"
    by blast
  have "s_listeners ?s \<noteq> []" using cnt by auto
  with run find have "notify up i (Received (s_server_id ?s) (ci_id c) (http_req_body w)
        (of_nat (length (http_req_body w))))
        (observe (Call (Lws_Get_Socket_Fd wsi) (k (trace w) (Lws_Get_Socket_Fd wsi))) w) = Inr w'"
    by (auto simp: http_switch_def sys_def Let_def notify_received_def)
  with c by_fd.lookup_Some_in [OF tab find] show ?thesis by blast
qed

lemma http_complete_inv:
  assumes inv: "lws_inv l i w" and fd: "fd_known i (r_ret (k (trace w) (Lws_Get_Socket_Fd wsi))) w"
    and len: "length (http_req_body w) < 2 ^ 32"
    and run: "http_switch k up i (cb LWS_CALLBACK_HTTP_BODY_COMPLETION wsi d) w = Inr w'"
  shows "lws_inv l i w'"
proof -
  let ?s = "the_server i w" let ?c1 = "Lws_Get_Socket_Fd wsi"
  let ?w1 = "observe (Call ?c1 (k (trace w) ?c1)) w"
  from inv have st: "lws_struct i w" and ses: "session_at l i w = Some (ids_of i w)"
    and cnt: "count_list (s_listeners ?s) l = 1" by (auto simp: lws_inv_def)
  from http_complete [OF inv fd run] obtain c where c: "c \<in> set (s_clients ?s)"
    and n: "notify up i (Received (s_server_id ?s) (ci_id c) (http_req_body w)
        (of_nat (length (http_req_body w)))) ?w1 = Inr w'" by blast
  have st1: "lws_struct i ?w1" using st by (simp add: lws_struct_def)
  from c len show ?thesis
    by (intro lws_effect_inv [OF notify_effect [OF n] st1, of l "ids_of i w"])
      (use cnt ses in \<open>auto simp: ids_of_def unat_of_length\<close>)
qed

text \<open>Every callback that the library makes in a proper state keeps the session specification.\<close>

lemma http_switch_inv:
  assumes k: "kernel_ok k" and inv: "lws_inv l i w" and ok: "http_cb_ok k i c w"
    and run: "http_switch k up i c w = Inr w'"
  shows "lws_inv l i w'"
proof -
  have c: "c = cb (cb_reason c) (cb_wsi c) (cb_in c)" by (simp add: cb_def)
  show ?thesis
  proof (cases "cb_reason c")
    case LWS_CALLBACK_SERVER_NEW_CLIENT_INSTANTIATED
    with run ok show ?thesis
      by (intro lws_connect_inv [OF k inv, of "\<lambda>p fd sa. newHttpTcpClientInfo p fd sa (cb_wsi c)"
            "cb_wsi c" w']) (simp_all add: http_switch_def http_cb_ok_def Let_def)
  next
    case LWS_CALLBACK_HTTP_BODY_COMPLETION
    with run c have "http_switch k up i (cb LWS_CALLBACK_HTTP_BODY_COMPLETION (cb_wsi c) (cb_in c)) w = Inr w'"
      by metis
    with LWS_CALLBACK_HTTP_BODY_COMPLETION ok show ?thesis
      by (intro http_complete_inv [OF inv]) (simp_all add: http_cb_ok_def Let_def)
  qed (use inv ok run lws_remove_inv [OF inv, of k "cb_wsi c" w'] in
      \<open>auto simp: http_switch_def http_cb_ok_def Let_def\<close>)
qed

lemma http_complete_total:
  assumes "tcp_table (s_clients (the_server i w))" "\<And>l e v. \<exists>v'. up l e v = Inr v'"
    and fd: "fd_known i (r_ret (k (trace w) (Lws_Get_Socket_Fd wsi))) w"
  shows "\<exists>w'. http_switch k up i (cb LWS_CALLBACK_HTTP_BODY_COMPLETION wsi d) w = Inr w'"
proof -
  from lws_fd_known [OF assms(1) fd] obtain c where
    "findClientInfo_fd (r_ret (k (trace w) (Lws_Get_Socket_Fd wsi))) (s_clients (the_server i w)) = Inr (Some c)"
    by blast
  then show ?thesis
    using notify_total [of up i] assms(2) by (auto simp: http_switch_def sys_def Let_def notify_received_def)
qed

lemma http_switch_fault:
  assumes "lws_inv l i w" "http_cb_ok k i c w" "\<And>l e v. \<exists>v'. up l e v = Inr v'"
    and run: "http_switch k up i c w = Inl e"
  shows "e = Uncaught ''bad_alloc''"
proof -
  have c: "c = cb (cb_reason c) (cb_wsi c) (cb_in c)" by (simp add: cb_def)
  from assms(1) have tab: "tcp_table (s_clients (the_server i w))"
    by (simp add: lws_inv_def lws_struct_def)
  note rm = lws_remove_total [where k = k and wsi = "cb_wsi c", OF tab assms(3)]
  show ?thesis
  proof (cases "cb_reason c")
    case LWS_CALLBACK_HTTP_BODY_COMPLETION
    with assms(2) have "fd_known i (r_ret (k (trace w) (Lws_Get_Socket_Fd (cb_wsi c)))) w"
      by (simp add: http_cb_ok_def Let_def)
    then have "\<exists>w'. http_switch k up i (cb LWS_CALLBACK_HTTP_BODY_COMPLETION (cb_wsi c) (cb_in c)) w = Inr w'"
      by (rule http_complete_total [OF tab, rotated]) (rule assms(3))
    with LWS_CALLBACK_HTTP_BODY_COMPLETION run c show ?thesis by (metis Inl_Inr_False)
  qed (use rm run lws_connect_fault [OF _ assms(3)] in \<open>auto simp: http_switch_def Let_def\<close>)
qed

end

text \<open>The end of a body is exactly one event.\<close>

lemma http_completion_event:
  assumes inv: "lws_inv l i w" and up: "\<And>l e v. \<exists>v'. up l e v = Inr v' \<and> calm v v'"
    and fd: "fd_known i (r_ret (k (trace w) (Lws_Get_Socket_Fd wsi))) w"
  shows "\<exists>w' c. http_switch k up i (cb LWS_CALLBACK_HTTP_BODY_COMPLETION wsi d) w = Inr w'
     \<and> c \<in> set (s_clients (the_server i w)) \<and> getFd c = Some (r_ret (k (trace w) (Lws_Get_Socket_Fd wsi)))
     \<and> notified Base_Listener l (trace w') = notified Base_Listener l (trace w)
         @ [Received (s_server_id (the_server i w)) (ci_id c) (http_req_body w) (of_nat (length (http_req_body w)))]"
proof -
  have bl: "base_listener up" using up by unfold_locales (metis sum.inject(2))
  from inv have tab: "tcp_table (s_clients (the_server i w))"
    and cnt: "count_list (s_listeners (the_server i w)) l = 1" by (auto simp: lws_inv_def lws_struct_def)
  have "\<exists>w'. http_switch k up i (cb LWS_CALLBACK_HTTP_BODY_COMPLETION wsi d) w = Inr w'"
    by (rule base_listener.http_complete_total [OF bl tab]) (use up fd in blast)+
  then obtain w' where w': "http_switch k up i (cb LWS_CALLBACK_HTTP_BODY_COMPLETION wsi d) w = Inr w'" by blast
  from base_listener.http_complete [OF bl inv fd w'] base_listener.notify_events [OF bl _] cnt w'
  show ?thesis by fastforce
qed

end
