(* ===== verification/WebSocket_Server.thy ===== *)
theory WebSocket_Server
  imports Lws_Common
begin

text \<open>
  \<open>WebSocketTcpServer\<close> (src/websocket_tcp_server.cpp): the protocol array, context and virtual host
  creation, the two \<open>sendToClient\<close>, the protocol name taken from the request URI, and the callback.
  The context and the virtual host are static members.
\<close>

definition MAX_ECHO_PAYLOAD :: nat where "MAX_ECHO_PAYLOAD = 1024"
definition BASIC_PROTOCOL :: nat where "BASIC_PROTOCOL = 3"
definition sizeof_lws_protocols :: nat where "sizeof_lws_protocols = 48"

section \<open>addProtocols\<close>

text \<open>
  The array has \<open>BASIC_PROTOCOL\<close> more entries than the list. A name and the user pointer both point
  to the bytes of the string; that the strings of the list are copies which die with the call is
  not modelled.
\<close>

definition ws_entry :: "string \<Rightarrow> uint \<Rightarrow> lws_protocol" where
  "ws_entry name pid =
     \<lparr>lp_name = Some name, lp_has_callback = True, lp_user = User_Name name,
      lp_per_session = length (c_str name), lp_rx_buffer = MAX_ECHO_PAYLOAD, lp_id = pid\<rparr>"

definition ws_terminator :: "uint \<Rightarrow> lws_protocol" where
  "ws_terminator pid =
     \<lparr>lp_name = None, lp_has_callback = False, lp_user = User_Null,
      lp_per_session = 0, lp_rx_buffer = 0, lp_id = pid\<rparr>"

type_synonym protocol_array = "lws_protocol option list"

fun ws_add_loop ::
  "string list \<Rightarrow> nat \<Rightarrow> uint \<Rightarrow> protocol_array \<Rightarrow> fault + nat \<times> uint \<times> protocol_array" where
  "ws_add_loop [] idx pid a = Inr (idx, pid, a)"
| "ws_add_loop (p # ps) idx pid a =
     rbind (write_at idx (ws_entry p pid) a) (ws_add_loop ps (idx + 1) (pid + 1))"

definition ws_fill_protocols :: "string list \<Rightarrow> fault + protocol_array" where
  "ws_fill_protocols protocols =
     rbind (write_at 0 (ws_entry ''http-only'' 0) (replicate (BASIC_PROTOCOL + length protocols) None))
     (\<lambda>a. rbind (write_at 1 (ws_entry ''test'' 1) a)
     (\<lambda>a. rbind (ws_add_loop protocols 2 2 a)
     (\<lambda>(idx, pid, a). write_at idx (ws_terminator pid) a)))"

definition ws_addProtocols ::
  "kernel \<Rightarrow> string list \<Rightarrow> nat \<Rightarrow> 'a world_scheme \<Rightarrow> fault + 'a world_scheme" where
  "ws_addProtocols k protocols i w =
     (let (r, w) = sys k (Malloc (sizeof_lws_protocols * (BASIC_PROTOCOL + length protocols))) w
      in if r_ptr r = 0 then Inl Null_Deref else
      rbind (ws_fill_protocols protocols) (\<lambda>a.
        Inr (upd_server i (\<lambda>s. s\<lparr>s_protocols := a\<rparr>) w)))"

section \<open>init, start, stop, destructor\<close>

definition ws_secure_options :: uint where
  "ws_secure_options = LWS_SERVER_OPTION_REDIRECT_HTTP_TO_HTTPS OR LWS_SERVER_OPTION_VALIDATE_UTF8
     OR LWS_SERVER_OPTION_ALLOW_NON_SSL_ON_SSL_PORT OR LWS_SERVER_OPTION_PEER_CERT_NOT_REQUIRED
     OR LWS_SERVER_OPTION_EXPLICIT_VHOSTS OR LWS_SERVER_OPTION_DO_SSL_GLOBAL_INIT"

definition ws_init :: "kernel \<Rightarrow> nat \<Rightarrow> 'a world_scheme \<Rightarrow> fault + bool \<times> 'a world_scheme" where
  "ws_init k i w =
     rbind (stoi (s_bind (the_server i w))) (\<lambda>port.
     let info = lws_create_info i (the_server i w) port (s_protocols (the_server i w))
                  ws_secure_options LWS_SERVER_OPTION_EXPLICIT_VHOSTS;
         (r, w) = sys k (Lws_Create_Context info) w;
         w = w\<lparr>ws_context := r_ptr r\<rparr>
      in if ws_context w = 0 then Inr (False, w) else
     let (r, w) = sys k (Lws_Create_Vhost (ws_context w) info) w;
         w = w\<lparr>ws_vhost := r_ptr r\<rparr>
      in Inr (ws_vhost w \<noteq> 0, w))"

definition ws_start :: "kernel \<Rightarrow> nat \<Rightarrow> 'a world_scheme \<Rightarrow> bool \<times> 'a world_scheme" where
  "ws_start k i w = start_thread k i w"

text \<open>
  \<open>stop\<close> joins the thread: a handle that was never set, or whose thread has been joined already, is
  indeterminate. A join that fails (a thread joining itself) leaves the thread as it is.
\<close>

definition ws_stop :: "kernel \<Rightarrow> nat \<Rightarrow> 'a world_scheme \<Rightarrow> fault + 'a world_scheme" where
  "ws_stop k i w =
     (let w = clear_run i w
      in if s_thread (the_server i w) \<in> {Thread_None, Thread_Joined} then Inl Wild_Deref else
     let (r, w) = sys k (Pthread_Join i) w
      in Inr (if r_ret r = 0 then upd_server i (\<lambda>s. s\<lparr>s_thread := Thread_Joined\<rparr>) w else w))"

definition ws_destroy :: "kernel \<Rightarrow> nat \<Rightarrow> 'a world_scheme \<Rightarrow> fault + 'a world_scheme" where
  "ws_destroy k i w =
     rbind (ws_stop k i w) (\<lambda>w.
     let w = (if ws_context w \<noteq> 0
              then (snd (sys k (Lws_Context_Destroy (ws_context w)) w))\<lparr>ws_context := 0\<rparr> else w)
      in Inr (upd_server i (\<lambda>s. s\<lparr>s_protocols := []\<rparr>) w))"

section \<open>sendToClient\<close>

definition ws_wsi_of :: "client_info \<Rightarrow> fault + nat \<times> bytes" where
  "ws_wsi_of c = (case ci_class c of
     WebSocketTcpClientInfo _ _ wsi protocol \<Rightarrow> Inr (wsi, protocol) | _ \<Rightarrow> Inl Bad_Cast)"

text \<open>With a protocol: null is checked, the names compared by \<open>strcmp\<close>, the write's result ignored.\<close>

definition ws_sendToClient_protocol ::
  "kernel \<Rightarrow> nat \<Rightarrow> size_t \<Rightarrow> bytes \<Rightarrow> bytes \<Rightarrow> uint \<Rightarrow> 'a world_scheme \<Rightarrow> fault + bool \<times> 'a world_scheme" where
  "ws_sendToClient_protocol k i cid protocol msg msg_len w =
     (case findClientInfo cid (s_clients (the_server i w)) of
        None \<Rightarrow> Inr (False, w)
      | Some c \<Rightarrow> rbind (ws_wsi_of c) (\<lambda>(wsi, client_protocol).
          if strcmp_eq protocol client_protocol then
            rbind (msg_bytes msg msg_len) (\<lambda>b. Inr (True, snd (sys k (Lws_Write wsi b LWS_WRITE_TEXT) w)))
          else Inr (False, w)))"

definition ws_sendToClient ::
  "kernel \<Rightarrow> nat \<Rightarrow> size_t \<Rightarrow> bytes \<Rightarrow> uint \<Rightarrow> 'a world_scheme \<Rightarrow> fault + bool \<times> 'a world_scheme" where
  "ws_sendToClient k i cid msg msg_len w =
     (case findClientInfo cid (s_clients (the_server i w)) of
        None \<Rightarrow> Inl Null_Deref
      | Some c \<Rightarrow> rbind (ws_wsi_of c) (\<lambda>(wsi, client_protocol).
          rbind (msg_bytes msg msg_len) (\<lambda>b.
          let (r, w) = sys k (Lws_Write wsi b LWS_WRITE_TEXT) w in Inr (r_ret r \<noteq> -1, w))))"

section \<open>The protocol of a connection\<close>

text \<open>\<open>std::string::find\<close> from a position; \<open>npos\<close> is \<open>None\<close>.\<close>

definition str_find :: "string \<Rightarrow> string \<Rightarrow> nat \<Rightarrow> nat option" where
  "str_find s from pos =
     List.find (\<lambda>j. take (length from) (drop j s) = from) [pos ..< length s + 1 - length from]"

text \<open>The loop of \<open>__replaceAll__\<close>; it need not end.\<close>

partial_function (option) replaceAll_loop :: "string \<Rightarrow> string \<Rightarrow> nat \<Rightarrow> string \<Rightarrow> string option" where
  "replaceAll_loop from to start_pos s = (case str_find s from start_pos of
      None \<Rightarrow> Some s
    | Some j \<Rightarrow> replaceAll_loop from to (j + length to) (take j s @ to @ drop (j + length from) s))"

definition replaceAll :: "string \<Rightarrow> string \<Rightarrow> string \<Rightarrow> string option" where
  "replaceAll s from to = replaceAll_loop from to 0 s"

definition URI_BUFFER_LENGTH :: nat where "URI_BUFFER_LENGTH = 64"

definition getProtocolFromHeader :: "kernel \<Rightarrow> nat \<Rightarrow> 'a world_scheme \<Rightarrow> fault + string \<times> 'a world_scheme" where
  "getProtocolFromHeader k wsi w =
     (let (r, w) = sys k (Lws_Hdr_Copy_Uri wsi URI_BUFFER_LENGTH) w
      in rbind (returns (replaceAll (fill URI_BUFFER_LENGTH (r_data r)) ''/'' []))
           (\<lambda>protocol. Inr (protocol, w)))"

section \<open>The callback and the thread\<close>

definition ws_received ::
  "'a listener \<Rightarrow> nat \<Rightarrow> client_info option \<Rightarrow> bytes \<Rightarrow> 'a world_scheme \<Rightarrow> fault + 'a world_scheme" where
  "ws_received up i client buf w =
     (if s_listeners (the_server i w) = [] then Inr w
      else case client of
        None \<Rightarrow> Inl Null_Deref
      | Some c \<Rightarrow> rbind (ws_wsi_of c) (\<lambda>(wsi, protocol).
          notify up i (Received_Protocol (s_server_id (the_server i w)) (ci_id c) buf
            (of_nat (length buf)) protocol) w))"

definition ws_switch ::
  "kernel \<Rightarrow> 'a listener \<Rightarrow> nat \<Rightarrow> lws_callback \<Rightarrow> 'a world_scheme \<Rightarrow> fault + 'a world_scheme" where
  "ws_switch k up i c w =
     (let wsi = cb_wsi c in
      case cb_reason c of
        LWS_CALLBACK_ESTABLISHED \<Rightarrow>
          rbind (getProtocolFromHeader k wsi w) (\<lambda>(protocol, w).
            lws_connect k up i (\<lambda>p fd sa. newWebSocketTcpClientInfo p fd sa wsi protocol) wsi w)
      | LWS_CALLBACK_RECEIVE \<Rightarrow>
          (let (r, w) = sys k (Lws_Get_Socket_Fd wsi) w
            in rbind (findClientInfo_fd (r_ret r) (s_clients (the_server i w))) (\<lambda>client.
                 ws_received up i client (cb_in c) w))
      | LWS_CALLBACK_CLOSED \<Rightarrow> lws_remove k up i wsi w
      | LWS_CALLBACK_DEL_POLL_FD \<Rightarrow> lws_remove k up i wsi w
      | _ \<Rightarrow> Inr w)"

definition callback_websocket ::
  "kernel \<Rightarrow> 'a listener \<Rightarrow> lws_callback \<Rightarrow> 'a world_scheme \<Rightarrow> fault + 'a world_scheme" where
  "callback_websocket k up c w =
     (if ws_context w = 0 then Inr w else
      let i = context_user (trace w) (ws_context w)
       in if \<not> s_run_thread (the_server i w) then Inr w else ws_switch k up i c w)"

definition ws_iteration ::
  "kernel \<Rightarrow> 'a listener \<Rightarrow> nat \<Rightarrow> 'a world_scheme \<Rightarrow> fault + 'a world_scheme" where
  "ws_iteration k up i w =
     (let (r, w) = sys k (Lws_Service (ws_context w)) w
      in rfold (callback_websocket k up) (r_cbs r) w)"

definition ws_thread ::
  "kernel \<Rightarrow> 'a listener \<Rightarrow> nat \<Rightarrow> nat \<Rightarrow> 'a world_scheme \<Rightarrow> fault + bool \<times> 'a world_scheme" where
  "ws_thread k up i n w = run_loop (ws_iteration k up) (\<lambda>i w. w) i n (thread_entry i w)"

section \<open>The protocol array is filled within its bounds\<close>

fun ws_entries :: "string list \<Rightarrow> uint \<Rightarrow> lws_protocol list" where
  "ws_entries [] pid = []"
| "ws_entries (p # ps) pid = ws_entry p pid # ws_entries ps (pid + 1)"

definition ws_table :: "string list \<Rightarrow> lws_protocol list" where
  "ws_table ps = ws_entry ''http-only'' 0 # ws_entry ''test'' 1 # ws_entries ps 2
     @ [ws_terminator (2 + of_nat (length ps))]"

lemma length_ws_entries [simp]: "length (ws_entries ps pid) = length ps"
  by (induction ps arbitrary: pid) auto

lemma nth_ws_entries: "j < length ps \<Longrightarrow> ws_entries ps pid ! j = ws_entry (ps ! j) (pid + of_nat j)"
  by (induction ps arbitrary: pid j) (auto simp: nth_Cons' less_Suc_eq_0_disj algebra_simps of_nat_diff)

lemma ws_add_loop_run:
  "ws_add_loop ps (length vs) pid (List.map Some vs @ replicate (Suc (length ps)) None)
     = Inr (length vs + length ps, pid + of_nat (length ps), List.map Some (vs @ ws_entries ps pid) @ [None])"
proof (induction ps arbitrary: vs pid)
  case Nil
  then show ?case by simp
next
  case (Cons p ps)
  show ?case
    using Cons.IH [of "vs @ [ws_entry p pid]" "pid + 1"] write_at_next [of vs "ws_entry p pid" "Suc (length ps)"]
    by (simp add: algebra_simps)
qed

lemma ws_fill_protocols_run: "ws_fill_protocols ps = Inr (List.map Some (ws_table ps))"
proof -
  let ?n = "length ps"
  let ?a = "ws_entry ''http-only'' 0" let ?b = "ws_entry ''test'' 1"
  have 0: "write_at 0 ?a (replicate (BASIC_PROTOCOL + ?n) None) = Inr (Some ?a # replicate (Suc (Suc ?n)) None)"
    by (simp add: write_at_def BASIC_PROTOCOL_def numeral_3_eq_3)
  have 1: "write_at 1 ?b (Some ?a # replicate (Suc (Suc ?n)) None) = Inr (Some ?a # Some ?b # replicate (Suc ?n) None)"
    by (simp add: write_at_def)
  have 2: "ws_add_loop ps 2 2 (Some ?a # Some ?b # replicate (Suc ?n) None)
      = Inr (2 + ?n, 2 + of_nat ?n, Some ?a # Some ?b # List.map Some (ws_entries ps 2) @ [None])"
    using ws_add_loop_run [of ps "[?a, ?b]" 2] by (simp add: numeral_2_eq_2)
  have 3: "write_at (2 + ?n) (ws_terminator (2 + of_nat ?n))
      (Some ?a # Some ?b # List.map Some (ws_entries ps 2) @ [None]) = Inr (List.map Some (ws_table ps))"
    by (simp add: write_at_def ws_table_def list_update_append)
  show ?thesis by (simp add: ws_fill_protocols_def 0 1 [simplified] 2 [simplified] 3 [simplified])
qed

section \<open>The replacement loop\<close>

text \<open>What the loop computes when the text to replace is not empty.\<close>

fun subst_all :: "string \<Rightarrow> string \<Rightarrow> string \<Rightarrow> string" where
  "subst_all from to [] = []"
| "subst_all from to (c # s) =
     (if from \<noteq> [] \<and> take (length from) (c # s) = from
      then to @ subst_all from to (drop (length from - 1) s) else c # subst_all from to s)"

lemma str_find_here:
  "length from \<le> length s \<Longrightarrow> take (length from) s = from \<Longrightarrow>
   str_find (pre @ s) from (length pre) = Some (length pre)"
  by (auto simp: str_find_def upt_rec Suc_le_eq less_diff_conv)

lemma str_find_step:
  assumes "take (length from) (c # s) \<noteq> from"
  shows "str_find (pre @ c # s) from (length pre) = str_find (pre @ c # s) from (Suc (length pre))"
proof (cases "length pre < length (pre @ c # s) + 1 - length from")
  case True
  with assms show ?thesis by (simp add: str_find_def upt_rec)
next
  case False
  then show ?thesis by (simp add: str_find_def)
qed

lemma replaceAll_loop_run:
  "from \<noteq> [] \<Longrightarrow> replaceAll_loop from to (length pre) (pre @ s) = Some (pre @ subst_all from to s)"
proof (induction "length s" arbitrary: s pre rule: less_induct)
  case less
  show ?case
  proof (cases s)
    case Nil
    with less.prems have "str_find (pre @ s) from (length pre) = None"
      by (cases "from") (simp_all add: str_find_def)
    with Nil show ?thesis by (simp add: replaceAll_loop.simps)
  next
    case (Cons c t)
    show ?thesis
    proof (cases "take (length from) s = from")
      case True
      let ?rest = "drop (length from) s"
      from True have len: "length from \<le> length s" by (metis length_take min.absorb_iff2)
      have f: "str_find (pre @ s) from (length pre) = Some (length pre)"
        using str_find_here [OF len True] .
      have shorter: "length ?rest < length s" using less.prems Cons by (cases "from") auto
      have rest: "?rest = drop (length from - 1) t" using less.prems Cons by (cases "from") auto
      have "replaceAll_loop from to (length pre) (pre @ s)
          = replaceAll_loop from to (length (pre @ to)) ((pre @ to) @ ?rest)"
        by (subst replaceAll_loop.simps) (simp add: f)
      also have "\<dots> = Some ((pre @ to) @ subst_all from to ?rest)"
        by (rule less.hyps [OF shorter less.prems])
      finally show ?thesis using True Cons less.prems rest by simp
    next
      case False
      have "replaceAll_loop from to (length pre) (pre @ c # t)
          = replaceAll_loop from to (Suc (length pre)) (pre @ c # t)"
        using str_find_step [of "from" c t pre] False Cons
        by (subst (1 2) replaceAll_loop.simps) simp
      then have "replaceAll_loop from to (length pre) (pre @ s)
          = replaceAll_loop from to (length (pre @ [c])) ((pre @ [c]) @ t)"
        using Cons by simp
      also have "\<dots> = Some ((pre @ [c]) @ subst_all from to t)"
        by (rule less.hyps) (use Cons less.prems in simp_all)
      finally show ?thesis using False Cons by simp
    qed
  qed
qed

lemma replaceAll_run: "from \<noteq> [] \<Longrightarrow> replaceAll s from to = Some (subst_all from to s)"
  using replaceAll_loop_run [of "from" to "[]" s] by (simp add: replaceAll_def)

text \<open>With an empty text to replace the loop finds one at every position, and never ends.\<close>

lemma replaceAll_loop_empty:
  assumes "replaceAll_loop fr to pos s = Some r"
  shows "\<not> (fr = [] \<and> pos \<le> length s)"
proof (rule replaceAll_loop.raw_induct [OF _ assms], rule notI)
  fix f fr to pos s r
  assume IH: "\<And>fr to pos s r. f fr to pos s = Some r \<Longrightarrow> \<not> (fr = [] \<and> pos \<le> length s)"
    and step: "(case str_find s fr pos of None \<Rightarrow> Some s
      | Some j \<Rightarrow> f fr to (j + length to) (take j s @ to @ drop (j + length fr) s)) = Some r"
    and c: "fr = [] \<and> pos \<le> length s"
  then have "str_find s fr pos = Some pos" by (simp add: str_find_def upt_rec)
  with step have "f fr to (pos + length to) (take pos s @ to @ drop (pos + length fr) s) = Some r" by simp
  from IH [OF this] c show False by simp
qed

lemma subst_slash: "subst_all ''/'' [] s = filter (\<lambda>c. c \<noteq> CHR ''/'') s"
  by (induction s) auto

section \<open>Protocols of connections\<close>

text \<open>The protocol of a request for \<open>/name\<close>: the name, and the zero bytes of the buffer after it.\<close>

lemma getProtocolFromHeader_run:
  assumes "r_data (k (trace w) (Lws_Hdr_Copy_Uri wsi URI_BUFFER_LENGTH)) = CHR ''/'' # name"
    and "length name < 64" "CHR ''/'' \<notin> set name"
  shows "getProtocolFromHeader k wsi w =
    Inr (name @ replicate (63 - length name) NUL,
      observe (Call (Lws_Hdr_Copy_Uri wsi URI_BUFFER_LENGTH)
        (k (trace w) (Lws_Hdr_Copy_Uri wsi URI_BUFFER_LENGTH))) w)"
proof -
  have "fill URI_BUFFER_LENGTH (CHR ''/'' # name) = CHR ''/'' # name @ replicate (63 - length name) NUL"
    using assms(2) by (simp add: fill_def URI_BUFFER_LENGTH_def take_Cons' min_def)
  moreover have "filter (\<lambda>c. c \<noteq> CHR ''/'') (name @ replicate n NUL) = name @ replicate n NUL" for n
    using assms(3) by (auto simp: filter_id_conv NUL_def)
  ultimately show ?thesis
    using assms(1) by (simp add: getProtocolFromHeader_def sys_def Let_def replaceAll_run subst_slash)
qed

lemma ws_client_info_simps [simp]:
  "ci_id (newWebSocketTcpClientInfo p fd sa wsi pr) = p"
  "getFd (newWebSocketTcpClientInfo p fd sa wsi pr) = Some fd"
  "ws_wsi_of (newWebSocketTcpClientInfo p fd sa wsi pr) = Inr (wsi, pr)"
  by (simp_all add: newWebSocketTcpClientInfo_def hash_ptr_def getFd_def ws_wsi_of_def)

definition ws_clients_ok :: "nat \<Rightarrow> 'a world_scheme \<Rightarrow> bool" where
  "ws_clients_ok i w \<longleftrightarrow> (\<forall>c \<in> set (s_clients (the_server i w)). \<exists>wsi pr. ws_wsi_of c = Inr (wsi, pr))"

text \<open>What the library promises of a callback: the state of the connection it is about.\<close>

definition ws_cb_ok :: "kernel \<Rightarrow> nat \<Rightarrow> lws_callback \<Rightarrow> 'a world_scheme \<Rightarrow> bool" where
  "ws_cb_ok k i c w =
     (let known = (\<lambda>v. fd_known i (r_ret (k (trace v) (Lws_Get_Socket_Fd (cb_wsi c)))) v)
      in case cb_reason c of
           LWS_CALLBACK_ESTABLISHED \<Rightarrow> (case getProtocolFromHeader k (cb_wsi c) w of
             Inl e \<Rightarrow> True | Inr (protocol, v) \<Rightarrow> \<not> known v)
         | LWS_CALLBACK_CLOSED \<Rightarrow> known w
         | LWS_CALLBACK_DEL_POLL_FD \<Rightarrow> known w
         | LWS_CALLBACK_RECEIVE \<Rightarrow> known w \<and> length (cb_in c) < 2 ^ 32
         | _ \<Rightarrow> True)"

lemma getProtocolFromHeader_total: "\<exists>protocol r. getProtocolFromHeader k wsi w
    = Inr (protocol, observe (Call (Lws_Hdr_Copy_Uri wsi URI_BUFFER_LENGTH) r) w)"
  by (auto simp: getProtocolFromHeader_def sys_def Let_def replaceAll_run)

lemma lws_inv_Call [simp]: "lws_inv l i (observe (Call (Lws_Hdr_Copy_Uri a b) r) w) = lws_inv l i w"
  by (simp add: lws_inv_def lws_struct_def)

context base_listener
begin

text \<open>A frame is one message from the client of the connection, with the connection's protocol.\<close>

lemma ws_receive:
  assumes inv: "lws_inv l i w"
    and fd: "fd_known i (r_ret (k (trace w) (Lws_Get_Socket_Fd wsi))) w"
    and run: "ws_switch k up i (\<lparr>cb_reason = LWS_CALLBACK_RECEIVE, cb_wsi = wsi, cb_in = d\<rparr>) w = Inr w'"
  shows "\<exists>c \<in> set (s_clients (the_server i w)). \<exists>cwsi protocol.
      getFd c = Some (r_ret (k (trace w) (Lws_Get_Socket_Fd wsi))) \<and> ws_wsi_of c = Inr (cwsi, protocol)
    \<and> notify up i (Received_Protocol (s_server_id (the_server i w)) (ci_id c) d (of_nat (length d)) protocol)
        (observe (Call (Lws_Get_Socket_Fd wsi) (k (trace w) (Lws_Get_Socket_Fd wsi))) w) = Inr w'"
proof -
  let ?s = "the_server i w"
  from inv have tab: "tcp_table (s_clients ?s)" and cnt: "count_list (s_listeners ?s) l = 1"
    by (auto simp: lws_inv_def lws_struct_def)
  from lws_fd_known [OF tab fd] obtain c where c: "c \<in> set (s_clients ?s)"
    and find: "findClientInfo_fd (r_ret (k (trace w) (Lws_Get_Socket_Fd wsi))) (s_clients ?s) = Inr (Some c)"
    by blast
  have "s_listeners ?s \<noteq> []" using cnt by auto
  with run find obtain cwsi protocol where "ws_wsi_of c = Inr (cwsi, protocol)"
    "notify up i (Received_Protocol (s_server_id ?s) (ci_id c) d (of_nat (length d)) protocol)
        (observe (Call (Lws_Get_Socket_Fd wsi) (k (trace w) (Lws_Get_Socket_Fd wsi))) w) = Inr w'"
    by (auto simp: ws_switch_def sys_def Let_def ws_received_def)
  with c by_fd.lookup_Some_in [OF tab find] show ?thesis by blast
qed

lemma ws_receive_inv:
  assumes inv: "lws_inv l i w" and fd: "fd_known i (r_ret (k (trace w) (Lws_Get_Socket_Fd wsi))) w"
    and len: "length d < 2 ^ 32"
    and run: "ws_switch k up i (\<lparr>cb_reason = LWS_CALLBACK_RECEIVE, cb_wsi = wsi, cb_in = d\<rparr>) w = Inr w'"
  shows "lws_inv l i w'"
proof -
  let ?s = "the_server i w" let ?c1 = "Lws_Get_Socket_Fd wsi"
  let ?w1 = "observe (Call ?c1 (k (trace w) ?c1)) w"
  from inv have st: "lws_struct i w" and ses: "session_at l i w = Some (ids_of i w)"
    and cnt: "count_list (s_listeners ?s) l = 1" by (auto simp: lws_inv_def)
  from ws_receive [OF inv fd run] obtain c protocol where c: "c \<in> set (s_clients ?s)"
    and n: "notify up i (Received_Protocol (s_server_id ?s) (ci_id c) d (of_nat (length d)) protocol) ?w1 = Inr w'"
    by blast
  have st1: "lws_struct i ?w1" using st by (simp add: lws_struct_def)
  from c len show ?thesis
    by (intro lws_effect_inv [OF notify_effect [OF n] st1, of l "ids_of i w"])
      (use cnt ses in \<open>auto simp: ids_of_def unat_of_length\<close>)
qed

lemma ws_switch_inv:
  assumes k: "kernel_ok k" and inv: "lws_inv l i w" and ok: "ws_cb_ok k i c w"
    and run: "ws_switch k up i c w = Inr w'"
  shows "lws_inv l i w'"
proof (cases "cb_reason c")
  case LWS_CALLBACK_ESTABLISHED
  from getProtocolFromHeader_total [of k "cb_wsi c" w] obtain protocol r where
    p: "getProtocolFromHeader k (cb_wsi c) w
        = Inr (protocol, observe (Call (Lws_Hdr_Copy_Uri (cb_wsi c) URI_BUFFER_LENGTH) r) w)" by blast
  let ?w1 = "observe (Call (Lws_Hdr_Copy_Uri (cb_wsi c) URI_BUFFER_LENGTH) r) w"
  have "lws_inv l i ?w1" using inv by simp
  then show ?thesis
    by (rule lws_connect_inv [OF k, where mk = "\<lambda>p fd sa. newWebSocketTcpClientInfo p fd sa (cb_wsi c) protocol"
          and wsi = "cb_wsi c"])
      (use run ok p LWS_CALLBACK_ESTABLISHED in \<open>simp_all add: ws_switch_def ws_cb_ok_def Let_def\<close>)
next
  case LWS_CALLBACK_RECEIVE
  then have "c = \<lparr>cb_reason = LWS_CALLBACK_RECEIVE, cb_wsi = cb_wsi c, cb_in = cb_in c\<rparr>" by simp
  with run have "ws_switch k up i (\<lparr>cb_reason = LWS_CALLBACK_RECEIVE, cb_wsi = cb_wsi c, cb_in = cb_in c\<rparr>) w = Inr w'"
    by metis
  with LWS_CALLBACK_RECEIVE ok show ?thesis
    by (intro ws_receive_inv [OF inv]) (simp_all add: ws_cb_ok_def Let_def)
qed (use inv ok run lws_remove_inv [OF inv, of k "cb_wsi c" w'] in
      \<open>auto simp: ws_switch_def ws_cb_ok_def Let_def\<close>)

text \<open>
  After the handshake for \<open>/name\<close> the client is in the table, under a new id, with its protocol.
\<close>

lemma ws_established:
  assumes k: "kernel_ok k" and inv: "lws_inv l i w"
    and uri: "r_data (k (trace w) (Lws_Hdr_Copy_Uri wsi URI_BUFFER_LENGTH)) = CHR ''/'' # name"
    and name: "length name < 64" "CHR ''/'' \<notin> set name"
    and run: "ws_switch k up i (\<lparr>cb_reason = LWS_CALLBACK_ESTABLISHED, cb_wsi = wsi, cb_in = d\<rparr>) w = Inr w'"
  shows "\<exists>cid c. cid \<notin> ids_of i w \<and> findClientInfo cid (s_clients (the_server i w')) = Some c
      \<and> ws_wsi_of c = Inr (wsi, name @ replicate (63 - length name) NUL)"
proof -
  let ?s = "the_server i w" let ?c0 = "Lws_Hdr_Copy_Uri wsi URI_BUFFER_LENGTH"
  let ?w0 = "observe (Call ?c0 (k (trace w) ?c0)) w"
  let ?c1 = "Lws_Get_Socket_Fd wsi" let ?r = "k (trace ?w0) ?c1"
  let ?w1 = "observe (Call ?c1 ?r) ?w0" let ?c2 = "Getpeername (r_ret ?r)" let ?a = "k (trace ?w1) ?c2"
  let ?w2 = "observe (Call ?c2 ?a) ?w1" let ?p = "k (trace ?w2) New_Client"
  let ?w3 = "observe (Call New_Client ?p) ?w2"
  let ?c = "newWebSocketTcpClientInfo (r_ptr ?p) (r_ret ?r) (r_addr ?a) wsi
              (name @ replicate (63 - length name) NUL)"
  let ?w4 = "upd_server i (s_clients_update (\<lambda>_. s_clients ?s @ [?c])) ?w3"
  from inv have i: "i < length (servers w)" and st: "lws_struct i w"
    by (auto simp: lws_inv_def lws_struct_def)
  have "lws_connect k up i (\<lambda>p fd sa. newWebSocketTcpClientInfo p fd sa wsi
              (name @ replicate (63 - length name) NUL)) wsi ?w0 = Inr w'"
    using run by (simp add: ws_switch_def getProtocolFromHeader_run [of k w wsi name, OF uri name])
  then have n: "notify up i (Client_Connected (s_server_id ?s) (r_ptr ?p)) ?w4 = Inr w'"
    using i by (auto simp: lws_connect_def sys_def add_client_def addClientInfo_def Let_def split: if_splits)
  have new: "r_ptr ?p \<notin> ids_of i w"
    using kernel_okD [OF k, of "trace ?w2" New_Client] st by (auto simp: lws_struct_def)
  have i4: "i < length (servers ?w4)" using i by simp
  have "s_clients (the_server i w') = s_clients ?s @ [?c]"
    using notify_effect_server [OF notify_effect [OF n] i4] stable_server_fields(1) i by fastforce
  moreover have "findClientInfo (r_ptr ?p) (s_clients ?s @ [?c]) = Some ?c"
    by (rule findClientInfo_added) (use new in \<open>simp_all add: ids_of_def\<close>)
  ultimately show ?thesis using new by (intro exI [of _ "r_ptr ?p"] exI [of _ ?c]) simp
qed

lemma ws_switch_fault:
  assumes "lws_inv l i w" "ws_cb_ok k i c w" "\<And>l e v. \<exists>v'. up l e v = Inr v'" "ws_clients_ok i w"
    and run: "ws_switch k up i c w = Inl e"
  shows "e = Uncaught ''bad_alloc''"
proof -
  from assms(1) have tab: "tcp_table (s_clients (the_server i w))"
    by (simp add: lws_inv_def lws_struct_def)
  note rm = lws_remove_total [where k = k and wsi = "cb_wsi c", OF tab assms(3)]
  show ?thesis
  proof (cases "cb_reason c")
    case LWS_CALLBACK_ESTABLISHED
    then show ?thesis
      using getProtocolFromHeader_total [of k "cb_wsi c" w] run lws_connect_fault [OF _ assms(3)]
      by (auto simp: ws_switch_def Let_def)
  next
    case LWS_CALLBACK_RECEIVE
    with assms(2) have "fd_known i (r_ret (k (trace w) (Lws_Get_Socket_Fd (cb_wsi c)))) w"
      by (simp add: ws_cb_ok_def Let_def)
    from lws_fd_known [OF tab this] obtain cl where cl: "cl \<in> set (s_clients (the_server i w))"
      "findClientInfo_fd (r_ret (k (trace w) (Lws_Get_Socket_Fd (cb_wsi c)))) (s_clients (the_server i w)) = Inr (Some cl)"
      by blast
    with assms(4) obtain wsi pr where "ws_wsi_of cl = Inr (wsi, pr)" by (auto simp: ws_clients_ok_def)
    with cl LWS_CALLBACK_RECEIVE run have "\<exists>ev v. notify up i ev v = Inl e"
      by (auto simp: ws_switch_def sys_def Let_def ws_received_def split: if_splits)
    with notify_total [of up i] assms(3) show ?thesis by (metis Inl_Inr_False)
  qed (use rm run in \<open>auto simp: ws_switch_def Let_def\<close>)
qed

end

end
