(* ===== verification/Json_Value.thy ===== *)
theory Json_Value
  imports Std_Conv
begin

text \<open>
  The values of the JSON library as far as the configuration uses them (\<open>Json::Value\<close> in
  external/json/jsoncpp.cpp): the type, the lookups that insert and the lookups that do not, and
  the conversions with their exceptions. Doubles are the C library's: their bits are kept, and what
  reads, prints and compares them is a parameter.
\<close>

datatype json =
    nullValue
  | intValue int
  | uintValue nat
  | realValue "64 word"
  | stringValue bytes
  | booleanValue bool
  | arrayValue "json list"
  | objectValue "(string \<times> json) list"

text \<open>The exceptions of the library, both subclasses of \<open>std::exception\<close>.\<close>

datatype json_error = RuntimeError | LogicError

text \<open>
  The C library on doubles: \<open>operator>>\<close> (\<open>None\<close>: it fails), \<open>snprintf\<close> with 17 digits, the
  conversion to \<open>unsigned int\<close> (\<open>None\<close>: out of range), and the comparison with 0.
\<close>

record c_double =
  parse_double :: "string \<Rightarrow> 64 word option"
  format_double :: "64 word \<Rightarrow> string"
  double_to_uint :: "64 word \<Rightarrow> 32 word option"
  double_nonzero :: "64 word \<Rightarrow> bool"

section \<open>Objects\<close>

text \<open>
  \<open>CZString::operator<\<close>: the common prefix is compared by \<open>memcmp\<close>, then the lengths. An object is
  a map sorted by it.
\<close>

fun key_less :: "string \<Rightarrow> string \<Rightarrow> bool" where
  "key_less [] ys = (ys \<noteq> [])"
| "key_less (x # xs) [] = False"
| "key_less (x # xs) (y # ys) =
     ((of_char x :: nat) < of_char y \<or> x = y \<and> key_less xs ys)"

fun obj_insert :: "string \<Rightarrow> json \<Rightarrow> (string \<times> json) list \<Rightarrow> (string \<times> json) list" where
  "obj_insert k v [] = [(k, v)]"
| "obj_insert k v ((k', v') # ms) =
     (if k = k' then (k, v) # ms
      else if key_less k k' then (k, v) # (k', v') # ms
      else (k', v') # obj_insert k v ms)"

text \<open>
  \<open>operator[]\<close> on a constant value and \<open>find\<close>: only objects and null have members; \<open>None\<close> is the
  null pointer.
\<close>

definition json_find :: "string \<Rightarrow> json \<Rightarrow> json_error + json option" where
  "json_find key v = (case v of
      nullValue \<Rightarrow> Inr None
    | objectValue ms \<Rightarrow> Inr (map_of ms key)
    | _ \<Rightarrow> Inl LogicError)"

definition member :: "string \<Rightarrow> json \<Rightarrow> json_error + json" where
  "member key v = rbind (json_find key v) (\<lambda>r. Inr (case r of None \<Rightarrow> nullValue | Some x \<Rightarrow> x))"

definition json_get :: "string \<Rightarrow> json \<Rightarrow> json \<Rightarrow> json_error + json" where
  "json_get key default_value v =
     rbind (json_find key v) (\<lambda>r. Inr (case r of None \<Rightarrow> default_value | Some x \<Rightarrow> x))"

text \<open>
  \<open>operator[]\<close> on a value that can be changed: a null value becomes an object and a missing member
  is inserted as null. The result is the member and the changed value.
\<close>

definition resolveReference :: "string \<Rightarrow> json \<Rightarrow> json_error + json \<times> json" where
  "resolveReference key v = (case v of
      nullValue \<Rightarrow> Inr (nullValue, objectValue [(key, nullValue)])
    | objectValue ms \<Rightarrow> (case map_of ms key of
        Some x \<Rightarrow> Inr (x, v) | None \<Rightarrow> Inr (nullValue, objectValue (obj_insert key nullValue ms)))
    | _ \<Rightarrow> Inl LogicError)"

text \<open>\<open>root[k1][k2]\<close> on a value that can be changed.\<close>

definition resolve2 :: "string \<Rightarrow> string \<Rightarrow> json \<Rightarrow> json_error + json \<times> json" where
  "resolve2 k1 k2 v = rbind (resolveReference k1 v) (\<lambda>(x, v).
     rbind (resolveReference k2 x) (\<lambda>(y, x).
       Inr (y, case v of objectValue ms \<Rightarrow> objectValue (obj_insert k1 x ms) | _ \<Rightarrow> v)))"

definition json_elem :: "nat \<Rightarrow> json \<Rightarrow> json_error + json" where
  "json_elem idx v = (case v of
      nullValue \<Rightarrow> Inr nullValue
    | arrayValue vs \<Rightarrow> Inr (if idx < length vs then vs ! idx else nullValue)
    | _ \<Rightarrow> Inl LogicError)"

definition json_size :: "json \<Rightarrow> nat" where
  "json_size v = (case v of arrayValue vs \<Rightarrow> length vs | objectValue ms \<Rightarrow> length ms | _ \<Rightarrow> 0)"

definition isNull :: "json \<Rightarrow> bool" where
  "isNull v = (case v of nullValue \<Rightarrow> True | _ \<Rightarrow> False)"

section \<open>Conversions\<close>

text \<open>The two integer overloads of \<open>valueToString\<close>, over \<open>uintToString\<close>.\<close>

definition valueToString_int :: "int \<Rightarrow> string" where
  "valueToString_int i = (if i < 0 then CHR ''-'' # dec_text (nat (- i)) else dec_text (nat i))"

definition valueToString_uint :: "nat \<Rightarrow> string" where
  "valueToString_uint n = dec_text n"

definition asString :: "c_double \<Rightarrow> json \<Rightarrow> json_error + string" where
  "asString cd v = (case v of
      nullValue \<Rightarrow> Inr []
    | stringValue s \<Rightarrow> Inr s
    | booleanValue b \<Rightarrow> Inr (if b then ''true'' else ''false'')
    | intValue i \<Rightarrow> Inr (valueToString_int i)
    | uintValue n \<Rightarrow> Inr (valueToString_uint n)
    | realValue d \<Rightarrow> Inr (format_double cd d)
    | _ \<Rightarrow> Inl LogicError)"

definition asUInt :: "c_double \<Rightarrow> json \<Rightarrow> json_error + 32 word" where
  "asUInt cd v = (case v of
      intValue i \<Rightarrow> if 0 \<le> i \<and> i < 2 ^ 32 then Inr (word_of_int i) else Inl LogicError
    | uintValue n \<Rightarrow> if n < 2 ^ 32 then Inr (of_nat n) else Inl LogicError
    | realValue d \<Rightarrow> (case double_to_uint cd d of None \<Rightarrow> Inl LogicError | Some u \<Rightarrow> Inr u)
    | nullValue \<Rightarrow> Inr 0
    | booleanValue b \<Rightarrow> Inr (if b then 1 else 0)
    | _ \<Rightarrow> Inl LogicError)"

definition asBool :: "c_double \<Rightarrow> json \<Rightarrow> json_error + bool" where
  "asBool cd v = (case v of
      booleanValue b \<Rightarrow> Inr b
    | nullValue \<Rightarrow> Inr False
    | intValue i \<Rightarrow> Inr (i \<noteq> 0)
    | uintValue n \<Rightarrow> Inr (n \<noteq> 0)
    | realValue d \<Rightarrow> Inr (double_nonzero cd d)
    | _ \<Rightarrow> Inl LogicError)"

section \<open>Lookups that insert and lookups that do not\<close>

lemma key_less_irrefl [simp]: "\<not> key_less k k"
  by (induction k) auto

lemma key_less_trans: "key_less a b \<Longrightarrow> key_less b c \<Longrightarrow> key_less a c"
proof (induction a b arbitrary: c rule: key_less.induct)
  case (1 ys)
  then show ?case by (cases ys; cases c) auto
next
  case (3 x xs y ys)
  then show ?case by (cases c) auto
qed simp

lemma key_less_total: "key_less a b \<or> a = b \<or> key_less b a"
proof (induction a b rule: key_less.induct)
  case (3 x xs y ys)
  moreover have "(of_char x :: nat) = of_char y \<Longrightarrow> x = y" by simp
  ultimately show ?case by (metis key_less.simps(3) linorder_neqE_nat)
qed auto

lemma map_of_obj_insert [simp]: "map_of (obj_insert k v ms) = (map_of ms)(k \<mapsto> v)"
  by (induction ms) (auto simp: fun_eq_iff)

text \<open>An object as the library keeps it: sorted by key, each key once.\<close>

fun obj_sorted :: "(string \<times> json) list \<Rightarrow> bool" where
  "obj_sorted [] = True"
| "obj_sorted ((k, v) # ms) = ((\<forall>k' \<in> fst ` set ms. key_less k k') \<and> obj_sorted ms)"

lemma fst_obj_insert: "fst ` set (obj_insert k v ms) = insert k (fst ` set ms)"
  by (induction k v ms rule: obj_insert.induct) (simp_all add: insert_commute)

lemma set_obj_insert: "set (obj_insert k v ms) \<subseteq> insert (k, v) (set ms)"
  by (induction ms) (auto split: if_splits)

lemma obj_sorted_insert: "obj_sorted ms \<Longrightarrow> obj_sorted (obj_insert k v ms)"
proof (induction ms)
  case (Cons m ms)
  then show ?case
    using key_less_trans key_less_total by (cases m) (fastforce simp: fst_obj_insert)
qed simp

lemma obj_insert_last: "\<forall>k' \<in> fst ` set ms. key_less k' k \<Longrightarrow> obj_insert k v ms = ms @ [(k, v)]"
proof (induction ms)
  case (Cons m ms)
  moreover obtain k' v' where "m = (k', v')" by (cases m)
  moreover have "key_less k' k \<Longrightarrow> \<not> key_less k k'" using key_less_trans key_less_irrefl by blast
  ultimately show ?case by auto
qed simp

lemma resolveReference_member:
  "rbind (resolveReference key v) (\<lambda>(x, v). Inr x) = member key v"
  by (auto simp: resolveReference_def member_def json_find_def split: json.splits option.splits)

text \<open>An insertion of a null member is not seen by any later lookup.\<close>

lemma resolveReference_keeps:
  "resolveReference key v = Inr (x, v') \<Longrightarrow> member k v' = member k v"
  by (auto simp: resolveReference_def member_def json_find_def split: json.splits option.splits if_splits)

end
