(* ===== verification/Json_Reader.thy ===== *)
theory Json_Reader
  imports Json_Value
begin

text \<open>
  \<open>Json::Reader\<close> (external/json/jsoncpp.cpp) with the features the configuration uses: comments are
  allowed and not collected, the root need not be an object, no dropped placeholders, no numeric
  keys. The read position is the rest of the document. The list of error messages and the
  offsets of values are not kept: a syntax error ends the parse with false whatever
  \<open>recoverFromError\<close> skips after it.
\<close>

datatype token_type =
    tokenEndOfStream | tokenObjectBegin | tokenObjectEnd | tokenArrayBegin | tokenArrayEnd
  | tokenString | tokenNumber | tokenTrue | tokenFalse | tokenNull | tokenArraySeparator
  | tokenMemberSeparator | tokenComment | tokenError

section \<open>Tokens\<close>

definition json_space :: "char \<Rightarrow> bool" where
  "json_space c \<longleftrightarrow> c = CHR '' '' \<or> c = CHR 0x09 \<or> c = CHR 0x0D \<or> c = CHR 0x0A"

definition skipSpaces :: "string \<Rightarrow> string" where
  "skipSpaces s = dropWhile json_space s"

fun getNextChar :: "string \<Rightarrow> char \<times> string" where
  "getNextChar [] = (NUL, [])"
| "getNextChar (c # s) = (c, s)"

definition match_chars :: "string \<Rightarrow> string \<Rightarrow> bool \<times> string" where
  "match_chars pattern s =
     (if take (length pattern) s = pattern then (True, drop (length pattern) s) else (False, s))"

text \<open>The body of a C comment up to its closing slash, which is the next character to read.\<close>

fun c_comment_body :: "string \<Rightarrow> string" where
  "c_comment_body [] = []"
| "c_comment_body (c # s) = (if c = CHR ''*'' \<and> take 1 s = ''/'' then s else c_comment_body s)"

definition readCStyleComment :: "string \<Rightarrow> bool \<times> string" where
  "readCStyleComment s = (let (c, r) = getNextChar (c_comment_body s) in (c = CHR ''/'', r))"

fun readCppStyleComment :: "string \<Rightarrow> string" where
  "readCppStyleComment [] = []"
| "readCppStyleComment (c # s) =
     (if c = CHR 0x0A then s
      else if c = CHR 0x0D then (if take 1 s = [CHR 0x0A] then drop 1 s else s)
      else readCppStyleComment s)"

definition readComment :: "string \<Rightarrow> bool \<times> string" where
  "readComment s = (let (c, r) = getNextChar s in
     if c = CHR ''*'' then readCStyleComment r
     else if c = CHR ''/'' then (True, readCppStyleComment r)
     else (False, r))"

text \<open>The first character of the number is consumed already.\<close>

definition readNumber :: "string \<Rightarrow> string" where
  "readNumber s =
     (let s = dropWhile is_digit s;
          s = (case s of c # r \<Rightarrow> if c = CHR ''.'' then dropWhile is_digit r else s | [] \<Rightarrow> s)
      in case s of
           c # r \<Rightarrow> if c = CHR ''e'' \<or> c = CHR ''E''
                    then dropWhile is_digit (case r of
                           d # q \<Rightarrow> if d = CHR ''+'' \<or> d = CHR ''-'' then q else r | [] \<Rightarrow> r)
                    else s
         | [] \<Rightarrow> s)"

fun readString :: "string \<Rightarrow> bool \<times> string" where
  "readString [] = (False, [])"
| "readString (c # s) =
     (if c = CHR 0x5C then (case s of [] \<Rightarrow> (False, []) | _ # r \<Rightarrow> readString r)
      else if c = CHR 0x22 then (True, s)
      else readString s)"

text \<open>A token: its type, its characters, and the rest of the document after it.\<close>

definition read_by_char :: "char \<Rightarrow> string \<Rightarrow> (token_type \<times> bool) \<times> string" where
  "read_by_char c s =
     (if c = CHR ''{'' then ((tokenObjectBegin, True), s)
      else if c = CHR ''}'' then ((tokenObjectEnd, True), s)
      else if c = CHR ''['' then ((tokenArrayBegin, True), s)
      else if c = CHR '']'' then ((tokenArrayEnd, True), s)
      else if c = CHR 0x22 then (let (ok, r) = readString s in ((tokenString, ok), r))
      else if c = CHR ''/'' then (let (ok, r) = readComment s in ((tokenComment, ok), r))
      else if is_digit c \<or> c = CHR ''-'' then ((tokenNumber, True), readNumber s)
      else if c = CHR ''t'' then (let (ok, r) = match_chars ''rue'' s in ((tokenTrue, ok), r))
      else if c = CHR ''f'' then (let (ok, r) = match_chars ''alse'' s in ((tokenFalse, ok), r))
      else if c = CHR ''n'' then (let (ok, r) = match_chars ''ull'' s in ((tokenNull, ok), r))
      else if c = CHR '','' then ((tokenArraySeparator, True), s)
      else if c = CHR '':'' then ((tokenMemberSeparator, True), s)
      else if c = NUL then ((tokenEndOfStream, True), s)
      else ((tokenError, False), s))"

definition readToken :: "string \<Rightarrow> token_type \<times> string \<times> string" where
  "readToken s =
     (let start = skipSpaces s;
          (c, r) = getNextChar start;
          ((ty, ok), r) = read_by_char c r
      in (if ok then ty else tokenError, take (length start - length r) start, r))"

lemma c_comment_body_length: "length (c_comment_body s) \<le> length s"
  by (induction s rule: c_comment_body.induct) auto

lemma readCpp_length: "length (readCppStyleComment s) \<le> length s"
  by (induction s rule: readCppStyleComment.induct) auto

lemma getNextChar_length: "getNextChar s = (c, r) \<Longrightarrow> length r \<le> length s \<and> (s \<noteq> [] \<longrightarrow> length r < length s)"
  by (cases s) auto

lemma readComment_length: "readComment s = (ok, r) \<Longrightarrow> length r \<le> length s"
proof -
  obtain c q where q: "getNextChar s = (c, q)" by (cases "getNextChar s")
  obtain d z where z: "getNextChar (c_comment_body q) = (d, z)" by (cases "getNextChar (c_comment_body q)")
  show "readComment s = (ok, r) \<Longrightarrow> length r \<le> length s"
    using getNextChar_length [OF q] getNextChar_length [OF z] c_comment_body_length [of q] readCpp_length [of q]
    by (auto simp: readComment_def readCStyleComment_def q z split: if_splits)
qed

lemma readString_length: "readString s = (ok, r) \<Longrightarrow> length r \<le> length s"
  by (induction s arbitrary: ok r rule: readString.induct) (auto split: if_splits list.splits simp: le_Suc_eq)

lemma readNumber_length: "length (readNumber s) \<le> length s"
proof -
  have d: "length (dropWhile is_digit t) \<le> length t" for t by (simp add: length_dropWhile_le)
  let ?a = "dropWhile is_digit s"
  let ?b = "case ?a of c # r \<Rightarrow> if c = CHR ''.'' then dropWhile is_digit r else ?a | [] \<Rightarrow> ?a"
  have b: "length ?b \<le> length s"
    using d [of s] by (auto split: list.splits intro: le_trans [OF d])
  have "length (case t of c # r \<Rightarrow> if c = CHR ''e'' \<or> c = CHR ''E''
                    then dropWhile is_digit (case r of
                           d # q \<Rightarrow> if d = CHR ''+'' \<or> d = CHR ''-'' then q else r | [] \<Rightarrow> r)
                    else t
         | [] \<Rightarrow> t) \<le> length t" for t
    by (auto split: list.splits intro!: le_trans [OF d])
  from le_trans [OF this b] show ?thesis by (simp add: readNumber_def Let_def)
qed

lemma read_by_char_length: "read_by_char c s = (x, r) \<Longrightarrow> length r \<le> length s"
  using readNumber_length [of s]
  by (auto simp: read_by_char_def match_chars_def Let_def split: if_splits prod.splits
      dest: readComment_length readString_length)

text \<open>Every token but the end of the stream consumes a character.\<close>

lemma readToken_length:
  assumes "readToken s = (ty, tk, r)"
  shows "length r \<le> length s" and "ty \<noteq> tokenEndOfStream \<Longrightarrow> length r < length s"
proof -
  let ?start = "skipSpaces s"
  have st: "length ?start \<le> length s" by (simp add: skipSpaces_def length_dropWhile_le)
  show "length r \<le> length s"
  proof (cases ?start)
    case Nil
    with assms have "r = []" by (auto simp: readToken_def read_by_char_def NUL_def is_digit_def Let_def split: prod.splits)
    then show ?thesis by simp
  next
    case (Cons c q)
    with assms have "length r \<le> length q"
      using read_by_char_length [of c q] by (auto simp: readToken_def Let_def split: prod.splits)
    with Cons st show ?thesis by simp
  qed
  show "length r < length s" if "ty \<noteq> tokenEndOfStream"
  proof (cases ?start)
    case Nil
    with assms have "ty = tokenEndOfStream"
      by (auto simp: readToken_def read_by_char_def NUL_def is_digit_def Let_def split: prod.splits)
    with that show ?thesis by simp
  next
    case (Cons c q)
    with assms have "length r \<le> length q"
      using read_by_char_length [of c q] by (auto simp: readToken_def Let_def split: prod.splits)
    with Cons st show ?thesis by simp
  qed
qed

function skipCommentTokens :: "string \<Rightarrow> token_type \<times> string \<times> string" where
  "skipCommentTokens s =
     (let (ty, tk, r) = readToken s in if ty = tokenComment then skipCommentTokens r else (ty, tk, r))"
  by pat_completeness auto
termination
proof (relation "measure length", goal_cases)
  case (2 s x xa y xb ya)
  then have "readToken s = (tokenComment, xb, ya)" by simp
  from readToken_length(2) [OF this] show ?case by simp
qed simp

declare skipCommentTokens.simps [simp del]

lemma skipComment_length:
  assumes "skipCommentTokens s = (ty, tk, r)"
  shows "length r \<le> length s \<and> (ty \<noteq> tokenEndOfStream \<longrightarrow> length r < length s)"
  using assms
proof (induction s arbitrary: ty tk r rule: skipCommentTokens.induct)
  case (1 s)
  obtain ty1 tk1 r1 where t: "readToken s = (ty1, tk1, r1)" by (cases "readToken s")
  show ?case
  proof (cases "ty1 = tokenComment")
    case True
    with t "1.prems" have "skipCommentTokens r1 = (ty, tk, r)" by (simp add: skipCommentTokens.simps [of s])
    with "1.IH" [OF t [symmetric] refl refl True] readToken_length [OF t] True show ?thesis by fastforce
  next
    case False
    with t "1.prems" have "ty = ty1" "r = r1" by (simp_all add: skipCommentTokens.simps [of s])
    with readToken_length [OF t] show ?thesis by simp
  qed
qed

section \<open>Numbers and strings\<close>

text \<open>
  The digit loop of \<open>decodeNumber\<close>; \<open>None\<close> hands the token to \<open>decodeDouble\<close>. \<open>max\<close> is the largest
  magnitude of the sign, \<open>threshold\<close> a tenth of it.
\<close>

fun decode_digits :: "nat \<Rightarrow> nat \<Rightarrow> string \<Rightarrow> nat option" where
  "decode_digits mx v [] = Some v"
| "decode_digits mx v (c # s) =
     (if \<not> is_digit c then None
      else if v \<ge> mx div 10 \<and> (v > mx div 10 \<or> s \<noteq> [] \<or> digit_val c > mx mod 10) then None
      else decode_digits mx (v * 10 + digit_val c) s)"

definition maxLargestInt :: nat where "maxLargestInt = 2 ^ 63 - 1"
definition maxLargestUInt :: nat where "maxLargestUInt = 2 ^ 64 - 1"
definition maxInt :: nat where "maxInt = 2 ^ 31 - 1"

definition decodeNumber :: "c_double \<Rightarrow> string \<Rightarrow> json option" where
  "decodeNumber cd tok =
     (let isNegative = (take 1 tok = ''-'');
          mx = (if isNegative then maxLargestInt + 1 else maxLargestUInt)
      in case decode_digits mx 0 (if isNegative then drop 1 tok else tok) of
           None \<Rightarrow> map_option realValue (parse_double cd tok)
         | Some v \<Rightarrow> Some (if isNegative \<and> v = mx then intValue (- (2 ^ 63))
                         else if isNegative then intValue (- int v)
                         else if v \<le> maxInt then intValue (int v)
                         else uintValue v))"

fun hex_digit :: "char \<Rightarrow> nat option" where
  "hex_digit c = (let n = of_char c in
     if 48 \<le> n \<and> n \<le> 57 then Some (n - 48)
     else if 97 \<le> n \<and> n \<le> 102 then Some (n - 97 + 10)
     else if 65 \<le> n \<and> n \<le> 70 then Some (n - 65 + 10)
     else None)"

text \<open>Four hexadecimal digits, and the characters after them.\<close>

fun decodeUnicodeEscapeSequence :: "string \<Rightarrow> (nat \<times> string) option" where
  "decodeUnicodeEscapeSequence (a # b # c # d # s) =
     (case (hex_digit a, hex_digit b, hex_digit c, hex_digit d) of
        (Some w, Some x, Some y, Some z) \<Rightarrow> Some (((w * 16 + x) * 16 + y) * 16 + z, s)
      | _ \<Rightarrow> None)"
| "decodeUnicodeEscapeSequence _ = None"

definition decodeUnicodeCodePoint :: "string \<Rightarrow> (nat \<times> string) option" where
  "decodeUnicodeCodePoint s = (case decodeUnicodeEscapeSequence s of
      None \<Rightarrow> None
    | Some (unicode, r) \<Rightarrow>
        if 0xD800 \<le> unicode \<and> unicode \<le> 0xDBFF then
          (if length r < 6 then None
           else if take 2 r = [CHR 0x5C, CHR ''u''] then
             (case decodeUnicodeEscapeSequence (drop 2 r) of
                None \<Rightarrow> None
              | Some (pair, q) \<Rightarrow> Some (0x10000 + (unicode mod 0x400) * 0x400 + pair mod 0x400, q))
           else None)
        else Some (unicode, r))"

definition codePointToUTF8 :: "nat \<Rightarrow> string" where
  "codePointToUTF8 cp =
     (if cp \<le> 0x7F then [char_of cp]
      else if cp \<le> 0x7FF then [char_of (0xC0 + (cp div 0x40) mod 0x20), char_of (0x80 + cp mod 0x40)]
      else if cp \<le> 0xFFFF then
        [char_of (0xE0 + (cp div 0x1000) mod 0x10), char_of (0x80 + (cp div 0x40) mod 0x40),
         char_of (0x80 + cp mod 0x40)]
      else if cp \<le> 0x10FFFF then
        [char_of (0xF0 + (cp div 0x40000) mod 0x08), char_of (0x80 + (cp div 0x1000) mod 0x40),
         char_of (0x80 + (cp div 0x40) mod 0x40), char_of (0x80 + cp mod 0x40)]
      else [])"

lemma decodeUnicodeEscape_length: "decodeUnicodeEscapeSequence s = Some (u, r) \<Longrightarrow> length r < length s"
  by (cases s rule: decodeUnicodeEscapeSequence.cases) (auto split: option.splits)

lemma decodeUnicodeCodePoint_length: "decodeUnicodeCodePoint s = Some (u, r) \<Longrightarrow> length r < length s"
  by (auto simp: decodeUnicodeCodePoint_def split: option.splits if_splits
      dest!: decodeUnicodeEscape_length)

text \<open>The loop of \<open>decodeString\<close> over the characters between the quotes; \<open>None\<close> is an error.\<close>

definition simple_escape :: "char \<Rightarrow> char option" where
  "simple_escape e =
     (if e = CHR 0x22 \<or> e = CHR ''/'' \<or> e = CHR 0x5C then Some e
      else if e = CHR ''b'' then Some (CHR 0x08)
      else if e = CHR ''f'' then Some (CHR 0x0C)
      else if e = CHR ''n'' then Some (CHR 0x0A)
      else if e = CHR ''r'' then Some (CHR 0x0D)
      else if e = CHR ''t'' then Some (CHR 0x09)
      else None)"

function decode_chars :: "string \<Rightarrow> string option" where
  "decode_chars [] = Some []"
| "decode_chars (c # s) =
     (if c = CHR 0x22 then Some []
      else if c = CHR 0x5C then
        (case s of
           [] \<Rightarrow> None
         | e # r \<Rightarrow> (case simple_escape e of
             Some d \<Rightarrow> map_option ((#) d) (decode_chars r)
           | None \<Rightarrow>
               if e = CHR ''u'' then
                 (case decodeUnicodeCodePoint r of
                    None \<Rightarrow> None
                  | Some (u, q) \<Rightarrow> map_option ((@) (codePointToUTF8 u)) (decode_chars q))
               else None))
      else map_option ((#) c) (decode_chars s))"
  by pat_completeness auto
termination
  by (relation "measure length") (auto dest: decodeUnicodeCodePoint_length)

definition decodeString :: "string \<Rightarrow> string option" where
  "decodeString tok = decode_chars (butlast (drop 1 tok))"

section \<open>Values\<close>

text \<open>
  The outcome of a parse: a value and the rest of the document, false, an exception, or that the
  fuel of a loop ran out (which does not happen, below).
\<close>

datatype 'a parsed = Parsed 'a string | Failed | Thrown json_error | Out_Of_Fuel

text \<open>
  The loops of \<open>readObject\<close> and \<open>readArray\<close>, with \<open>readValue\<close> for the nested values as an argument.
  \<open>name\<close> is the last member's name, which decides whether a closing brace is accepted. One unit of
  fuel is one member.
\<close>

fun read_members ::
  "(string \<Rightarrow> json parsed) \<Rightarrow> nat \<Rightarrow> string \<Rightarrow> (string \<times> json) list \<Rightarrow> string \<Rightarrow> json parsed" where
  "read_members rv 0 name ms s = Out_Of_Fuel"
| "read_members rv (Suc n) name ms s =
     (let (ty, tk, r) = skipCommentTokens s in
      if ty = tokenObjectEnd \<and> name = [] then Parsed (objectValue ms) r
      else if ty \<noteq> tokenString then Failed
      else case decodeString tk of None \<Rightarrow> Failed | Some name \<Rightarrow>
     let (colon, _, r) = readToken r in
      if colon \<noteq> tokenMemberSeparator then Failed
      else case rv r of
        Parsed v r \<Rightarrow>
          (let ms = obj_insert name v ms;
               (comma, _, r) = readToken r in
           if comma \<notin> {tokenObjectEnd, tokenArraySeparator, tokenComment} then Failed
           else
          let (comma, r) = (if comma = tokenComment
                            then (let (t, _, q) = skipCommentTokens r in (t, q)) else (comma, r)) in
           if comma = tokenObjectEnd then Parsed (objectValue ms) r
           else read_members rv n name ms r)
      | e \<Rightarrow> e)"

fun read_elements ::
  "(string \<Rightarrow> json parsed) \<Rightarrow> nat \<Rightarrow> json list \<Rightarrow> string \<Rightarrow> json parsed" where
  "read_elements rv 0 vs s = Out_Of_Fuel"
| "read_elements rv (Suc n) vs s = (case rv s of
      Parsed v r \<Rightarrow>
        (let (ty, _, r) = skipCommentTokens r in
         if ty = tokenArrayEnd then Parsed (arrayValue (vs @ [v])) r
         else if ty = tokenArraySeparator then read_elements rv n (vs @ [v]) r
         else Failed)
    | e \<Rightarrow> e)"

definition readObject :: "(string \<Rightarrow> json parsed) \<Rightarrow> string \<Rightarrow> json parsed" where
  "readObject rv s = read_members rv (length s + 1) [] [] s"

definition readArray :: "(string \<Rightarrow> json parsed) \<Rightarrow> string \<Rightarrow> json parsed" where
  "readArray rv s =
     (let r = skipSpaces s in
      if take 1 r = '']'' then (let (_, _, q) = readToken r in Parsed (arrayValue []) q)
      else read_elements rv (length r + 1) [] r)"

text \<open>\<open>readValue\<close>; the number is what is left of the limit on nested calls.\<close>

fun readValue :: "c_double \<Rightarrow> nat \<Rightarrow> string \<Rightarrow> json parsed" where
  "readValue cd 0 s = Thrown RuntimeError"
| "readValue cd (Suc d) s =
     (let (ty, tk, r) = skipCommentTokens s in
      case ty of
        tokenObjectBegin \<Rightarrow> readObject (readValue cd d) r
      | tokenArrayBegin \<Rightarrow> readArray (readValue cd d) r
      | tokenNumber \<Rightarrow> (case decodeNumber cd tk of None \<Rightarrow> Failed | Some v \<Rightarrow> Parsed v r)
      | tokenString \<Rightarrow> (case decodeString tk of None \<Rightarrow> Failed | Some v \<Rightarrow> Parsed (stringValue v) r)
      | tokenTrue \<Rightarrow> Parsed (booleanValue True) r
      | tokenFalse \<Rightarrow> Parsed (booleanValue False) r
      | tokenNull \<Rightarrow> Parsed nullValue r
      | _ \<Rightarrow> Failed)"

definition stackLimit_g :: nat where "stackLimit_g = 1000"

definition parse_document :: "c_double \<Rightarrow> string \<Rightarrow> json parsed" where
  "parse_document cd doc = readValue cd stackLimit_g doc"

text \<open>
  The overload on a stream reads the document with \<open>getline\<close> up to the character \<open>(char)EOF\<close>, which
  is the byte 255: what follows such a byte is not read.
\<close>

definition parse_stream :: "c_double \<Rightarrow> bytes \<Rightarrow> json parsed" where
  "parse_stream cd content = parse_document cd (takeWhile (\<lambda>c. c \<noteq> CHR 0xFF) content)"

section \<open>The parse ends\<close>

text \<open>
  A reader of values that does not run out of fuel and consumes what it reads; the loops, given
  one unit of fuel more than there are characters, keep this.
\<close>

definition reads :: "(string \<Rightarrow> json parsed) \<Rightarrow> bool" where
  "reads rv \<longleftrightarrow> (\<forall>s. rv s \<noteq> Out_Of_Fuel \<and> (\<forall>v r. rv s = Parsed v r \<longrightarrow> length r < length s))"

lemma readsD: "reads rv \<Longrightarrow> rv s = Parsed v r \<Longrightarrow> length r < length s" "reads rv \<Longrightarrow> rv s \<noteq> Out_Of_Fuel"
  by (auto simp: reads_def)

lemma read_members_reads:
  assumes "reads rv"
  shows "length s < n \<Longrightarrow> read_members rv n name ms s \<noteq> Out_Of_Fuel
    \<and> (\<forall>v r. read_members rv n name ms s = Parsed v r \<longrightarrow> length r < length s)"
proof (induction n arbitrary: name ms s)
  case 0
  then show ?case by simp
next
  case (Suc n)
  obtain ty tk r where t: "skipCommentTokens s = (ty, tk, r)" by (cases "skipCommentTokens s")
  note lt = skipComment_length [OF t]
  show ?case
  proof (cases "ty = tokenString \<and> (\<exists>nm. decodeString tk = Some nm)")
    case False
    with t lt show ?thesis by (auto split: option.splits)
  next
    case True
    then obtain nm where nm: "ty = tokenString" "decodeString tk = Some nm" by blast
    obtain colon tk2 r2 where c: "readToken r = (colon, tk2, r2)" by (cases "readToken r")
    note lc = readToken_length(1) [OF c]
    show ?thesis
    proof (cases "rv r2")
      case (Parsed v r3)
      with readsD(1) [OF assms] have l3: "length r3 < length r2" by blast
      obtain comma tk4 r4 where k: "readToken r3 = (comma, tk4, r4)" by (cases "readToken r3")
      note lk = readToken_length(1) [OF k]
      obtain t5 tk5 r5 where q: "skipCommentTokens r4 = (t5, tk5, r5)" by (cases "skipCommentTokens r4")
      have l5: "length r5 \<le> length r4" using skipComment_length [OF q] by simp
      have "length r4 < length s" using lt nm(1) lc l3 lk by simp
      with l5 have ls: "length r4 < length s" "length r5 < length s" by simp_all
      let ?ms = "obj_insert nm v ms"
      have IH: "read_members rv n nm ?ms x \<noteq> Out_Of_Fuel
          \<and> (\<forall>v' r. read_members rv n nm ?ms x = Parsed v' r \<longrightarrow> length r < length s)"
        if "length x < length s" for x
      proof -
        from that Suc.prems have "length x < n" by simp
        from Suc.IH [OF this, of nm ?ms] that show ?thesis by auto
      qed
      have eq: "colon = tokenMemberSeparator \<Longrightarrow> read_members rv (Suc n) name ms s =
          (if comma \<notin> {tokenObjectEnd, tokenArraySeparator, tokenComment} then Failed
           else if comma = tokenComment
             then (if t5 = tokenObjectEnd then Parsed (objectValue ?ms) r5 else read_members rv n nm ?ms r5)
           else if comma = tokenObjectEnd then Parsed (objectValue ?ms) r4
           else read_members rv n nm ?ms r4)"
        using t nm c Parsed k q by simp
      show ?thesis
      proof (cases "colon = tokenMemberSeparator")
        case True
        from IH [OF ls(1)] IH [OF ls(2)] ls show ?thesis unfolding eq [OF True] by auto
      qed (use t nm c in simp)
    qed (use t nm c readsD(2) [OF assms, of r2] in \<open>auto simp: Let_def\<close>)
  qed
qed

lemma read_elements_reads:
  assumes "reads rv"
  shows "length s < n \<Longrightarrow> read_elements rv n vs s \<noteq> Out_Of_Fuel
    \<and> (\<forall>v r. read_elements rv n vs s = Parsed v r \<longrightarrow> length r < length s)"
proof (induction n arbitrary: vs s)
  case 0
  then show ?case by simp
next
  case (Suc n)
  show ?case
  proof (cases "rv s")
    case (Parsed v r)
    with readsD(1) [OF assms] have l: "length r < length s" by blast
    obtain ty tk q where t: "skipCommentTokens r = (ty, tk, q)" by (cases "skipCommentTokens r")
    have lq: "length q \<le> length r" using skipComment_length [OF t] by simp
    with Suc.IH [of q "vs @ [v]"] Suc.prems l t Parsed show ?thesis by (auto dest: less_trans)
  qed (use readsD(2) [OF assms, of s] in auto)
qed

lemma readObject_reads: "reads rv \<Longrightarrow> readObject rv s \<noteq> Out_Of_Fuel
    \<and> (\<forall>v r. readObject rv s = Parsed v r \<longrightarrow> length r < length s)"
  using read_members_reads [of rv s "length s + 1" "[]" "[]"]
  by (simp add: readObject_def del: read_members.simps)

lemma readArray_reads:
  assumes "reads rv"
  shows "readArray rv s \<noteq> Out_Of_Fuel \<and> (\<forall>v r. readArray rv s = Parsed v r \<longrightarrow> length r \<le> length s)"
proof -
  let ?r = "skipSpaces s"
  have l: "length ?r \<le> length s" by (simp add: skipSpaces_def length_dropWhile_le)
  obtain ty tk q where t: "readToken ?r = (ty, tk, q)" by (cases "readToken ?r")
  from readToken_length(1) [OF t] read_elements_reads [OF assms, of ?r "length ?r + 1" "[]"] l t
  show ?thesis by (auto simp: readArray_def Let_def simp del: read_elements.simps dest: less_imp_le_nat less_le_trans)
qed

lemma readValue_reads: "reads (readValue cd d)"
proof (induction d)
  case 0
  then show ?case by (simp add: reads_def)
next
  case (Suc d)
  show ?case unfolding reads_def
  proof
    fix s
    obtain ty tk r where t: "skipCommentTokens s = (ty, tk, r)" by (cases "skipCommentTokens s")
    from skipComment_length [OF t] readObject_reads [OF Suc, of r] readArray_reads [OF Suc, of r] t
    show "readValue cd (Suc d) s \<noteq> Out_Of_Fuel
        \<and> (\<forall>v q. readValue cd (Suc d) s = Parsed v q \<longrightarrow> length q < length s)"
      by (cases ty) (auto split: option.splits dest: less_trans le_less_trans)
  qed
qed

text \<open>The digit loop stays below its largest value: the 64-bit accumulator does not wrap.\<close>

lemma decode_digits_bound:
  "decode_digits mx v s = Some w \<Longrightarrow> v \<le> mx \<Longrightarrow> w \<le> mx"
proof (induction mx v s rule: decode_digits.induct)
  case (2 mx v c s)
  show ?case
  proof (cases "v < mx div 10")
    case True
    moreover have "digit_val c \<le> 9" using 2 by (auto simp: is_digit_def digit_val_def split: if_splits)
    ultimately have "v * 10 + digit_val c \<le> mx" by linarith
    with 2 show ?thesis by (auto split: if_splits)
  next
    case False
    with "2.prems" have "v = mx div 10" "digit_val c \<le> mx mod 10" by (auto split: if_splits)
    then have "v * 10 + digit_val c \<le> mx" using mult_div_mod_eq [of 10 mx] by linarith
    with 2 show ?thesis by (auto split: if_splits)
  qed
qed simp

end
