(* ===== verification/Json_Text.thy ===== *)
theory Json_Text
  imports Json_Reader
begin

text \<open>
  The texts of a value: a grammar of what the writers may print, in which white space may stand between
  any two tokens, and the proof that \<open>Json::Reader\<close> reads every text of a value as that value. A writer
  is then correct when what it prints is a text of the value. The quoting of strings, which the writers
  share, is here too.
\<close>

section \<open>Quoted strings\<close>

definition isControlCharacter :: "char \<Rightarrow> bool" where
  "isControlCharacter c \<longleftrightarrow> 0 < (of_char c :: nat) \<and> (of_char c :: nat) \<le> 0x1F"

definition hex_char :: "nat \<Rightarrow> char" where
  "hex_char n = (if n < 10 then char_of (48 + n) else char_of (55 + n))"

text \<open>The body of the loop of \<open>valueToQuotedStringN\<close>: what one character adds to the result.\<close>

definition escape_char :: "char \<Rightarrow> string" where
  "escape_char c =
     (if c = CHR 0x22 then [CHR 0x5C, CHR 0x22]
      else if c = CHR 0x5C then [CHR 0x5C, CHR 0x5C]
      else if c = CHR 0x08 then [CHR 0x5C, CHR ''b'']
      else if c = CHR 0x0C then [CHR 0x5C, CHR ''f'']
      else if c = CHR 0x0A then [CHR 0x5C, CHR ''n'']
      else if c = CHR 0x0D then [CHR 0x5C, CHR ''r'']
      else if c = CHR 0x09 then [CHR 0x5C, CHR ''t'']
      else if isControlCharacter c \<or> c = NUL then
        [CHR 0x5C, CHR ''u'', CHR ''0'', CHR ''0'', hex_char (of_char c div 16), hex_char (of_char c mod 16)]
      else [c])"

definition special_chars :: string where
  "special_chars = [CHR 0x22, CHR 0x5C, CHR 0x08, CHR 0x0C, CHR 0x0A, CHR 0x0D, CHR 0x09]"

definition valueToQuotedStringN :: "bytes \<Rightarrow> string" where
  "valueToQuotedStringN s =
     (if \<not> list_ex (\<lambda>c. c \<in> set special_chars) s \<and> \<not> list_ex (\<lambda>c. isControlCharacter c \<or> c = NUL) s
      then CHR 0x22 # c_str s @ [CHR 0x22]
      else CHR 0x22 # concat (List.map escape_char s) @ [CHR 0x22])"

section \<open>Strings\<close>

lemma valueToQuotedStringN_escape: "valueToQuotedStringN s = CHR 0x22 # concat (List.map escape_char s) @ [CHR 0x22]"
proof (cases "\<not> list_ex (\<lambda>c. c \<in> set special_chars) s \<and> \<not> list_ex (\<lambda>c. isControlCharacter c \<or> c = NUL) s")
  case True
  then have "concat (List.map escape_char s) = s" and "c_str s = s"
    by (induction s) (auto simp: escape_char_def special_chars_def c_str_def)
  with True show ?thesis by (simp add: valueToQuotedStringN_def)
next
  case False
  then show ?thesis by (auto simp: valueToQuotedStringN_def)
qed

lemma hex_char_plain: "n < 16 \<Longrightarrow> hex_char n \<noteq> CHR 0x22 \<and> hex_char n \<noteq> CHR 0x5C"
proof -
  assume "n < 16"
  then have "n \<in> {0..<16}" by simp
  moreover have "\<forall>n \<in> {0..<16}. hex_char n \<noteq> CHR 0x22 \<and> hex_char n \<noteq> CHR 0x5C" by code_simp
  ultimately show ?thesis by blast
qed

lemma hex_digit_char: "n < 16 \<Longrightarrow> hex_digit (hex_char n) = Some n"
  by (auto simp: hex_char_def Let_def)

lemma control_lt: "isControlCharacter c \<or> c = NUL \<Longrightarrow> (of_char c :: nat) < 32"
  by (auto simp: isControlCharacter_def NUL_def)

lemma readString_escape: "readString (escape_char c @ t) = readString t"
proof -
  have "(of_char c :: nat) div 16 < 16 \<and> (of_char c :: nat) mod 16 < 16"
    if "isControlCharacter c \<or> c = NUL" using control_lt [OF that] by simp
  then show ?thesis using hex_char_plain by (auto simp: escape_char_def)
qed

lemma readString_escapes: "readString (concat (List.map escape_char s) @ CHR 0x22 # t) = (True, t)"
  by (induction s) (simp_all add: readString_escape)

lemma codePoint_ascii: "(of_char c :: nat) < 32 \<Longrightarrow> codePointToUTF8 (of_char c) = [c]"
  by (simp add: codePointToUTF8_def)

lemma decode_escape: "decode_chars (escape_char c @ t) = map_option ((#) c) (decode_chars t)"
proof (cases "length (escape_char c) = 6")
  case True
  then have ctl: "isControlCharacter c \<or> c = NUL" and e: "escape_char c =
      [CHR 0x5C, CHR ''u'', CHR ''0'', CHR ''0'', hex_char (of_char c div 16), hex_char (of_char c mod 16)]"
    by (auto simp: escape_char_def split: if_splits)
  let ?n = "of_char c :: nat"
  have n: "?n < 32" by (rule control_lt [OF ctl])
  have seq: "decodeUnicodeEscapeSequence (CHR ''0'' # CHR ''0'' # hex_char (?n div 16) # hex_char (?n mod 16) # t)
      = Some (?n, t)"
    using n hex_digit_char [of "?n div 16"] hex_digit_char [of "?n mod 16"]
    by (simp del: hex_digit.simps add: hex_digit.simps [of "CHR ''0''"]) 
  then have "decodeUnicodeCodePoint (CHR ''0'' # CHR ''0'' # hex_char (?n div 16) # hex_char (?n mod 16) # t)
      = Some (?n, t)"
    using n by (simp add: decodeUnicodeCodePoint_def)
  then show ?thesis
    using codePoint_ascii [OF n] by (cases "decode_chars t") (simp_all add: e simple_escape_def)
next
  case False
  then show ?thesis
    by (auto simp: escape_char_def simple_escape_def split: if_splits)
qed

lemma decode_escapes: "decode_chars (concat (List.map escape_char s)) = Some s"
  by (induction s) (simp_all add: decode_escape)

lemma skipSpaces_simps [simp]:
  "\<not> json_space c \<Longrightarrow> skipSpaces (c # s) = c # s" "skipSpaces [] = []"
  by (simp_all add: skipSpaces_def)

lemma readToken_string:
  "readToken (valueToQuotedStringN s @ t) = (tokenString, valueToQuotedStringN s, t)"
  using readString_escapes [of s t]
  by (simp add: readToken_def valueToQuotedStringN_escape read_by_char_def json_space_def)

lemma decodeString_quoted: "decodeString (valueToQuotedStringN s) = Some s"
  by (simp add: decodeString_def valueToQuotedStringN_escape decode_escapes)

section \<open>Tokens\<close>

lemma skip_token: "readToken s = (ty, tk, r) \<Longrightarrow> ty \<noteq> tokenComment \<Longrightarrow> skipCommentTokens s = (ty, tk, r)"
  by (simp add: skipCommentTokens.simps)

lemma readToken_punctuation [simp]:
  "readToken (CHR ''{'' # s) = (tokenObjectBegin, ''{'', s)"
  "readToken (CHR ''}'' # s) = (tokenObjectEnd, ''}'', s)"
  "readToken (CHR ''['' # s) = (tokenArrayBegin, ''['', s)"
  "readToken (CHR '']'' # s) = (tokenArrayEnd, '']'', s)"
  "readToken (CHR '','' # s) = (tokenArraySeparator, '','', s)"
  "readToken (CHR '':'' # s) = (tokenMemberSeparator, '':'', s)"
  by (simp_all add: readToken_def read_by_char_def json_space_def is_digit_def)

lemma readToken_literals [simp]:
  "readToken (''true'' @ s) = (tokenTrue, ''true'', s)"
  "readToken (''false'' @ s) = (tokenFalse, ''false'', s)"
  "readToken (''null'' @ s) = (tokenNull, ''null'', s)"
  by (simp_all add: readToken_def read_by_char_def json_space_def is_digit_def match_chars_def)

definition tail_ok :: "string \<Rightarrow> bool" where
  "tail_ok t \<longleftrightarrow> t = [] \<or> hd t \<in> {CHR '','', CHR '']'', CHR ''}''} \<or> json_space (hd t)"

lemma tail_ok_Cons [simp]:
  "tail_ok []" "tail_ok (CHR '','' # t)" "tail_ok (CHR '']'' # t)" "tail_ok (CHR ''}'' # t)"
  "tail_ok (CHR 0x0A # t)"
  by (simp_all add: tail_ok_def json_space_def)

lemma readNumber_digits:
  assumes "list_all is_digit ds" "tail_ok t"
  shows "readNumber (ds @ t) = t"
proof -
  have "dropWhile is_digit (ds @ t) = dropWhile is_digit t"
    using assms(1) by (auto simp: list_all_iff intro: dropWhile_append2)
  also have t: "dropWhile is_digit t = t"
    using assms(2) by (cases t) (auto simp: tail_ok_def is_digit_def json_space_def)
  finally have d: "dropWhile is_digit (ds @ t) = t" .
  show ?thesis
    unfolding readNumber_def d using assms(2) by (cases t) (auto simp: tail_ok_def json_space_def)
qed

lemma digit_plain: "is_digit c \<Longrightarrow> \<not> json_space c \<and> c \<notin> {CHR ''{'', CHR ''}'', CHR ''['', CHR '']'', CHR 0x22, CHR ''/'', CHR ''-''}"
  by (auto simp: is_digit_def json_space_def)

lemma readToken_digits:
  assumes "list_all is_digit ds" "ds \<noteq> []" "tail_ok t"
  shows "readToken (ds @ t) = (tokenNumber, ds, t)"
proof -
  obtain c cs where ds: "ds = c # cs" using assms(2) by (cases ds) auto
  with assms(1) have c: "is_digit c" "list_all is_digit cs" by simp_all
  show ?thesis
    using digit_plain [OF c(1)] c(1) readNumber_digits [OF c(2) assms(3)]
    by (simp add: ds readToken_def read_by_char_def)
qed

lemma readToken_minus:
  assumes "list_all is_digit ds" "tail_ok t"
  shows "readToken (CHR ''-'' # ds @ t) = (tokenNumber, CHR ''-'' # ds, t)"
  using readNumber_digits [OF assms]
  by (simp add: readToken_def read_by_char_def json_space_def is_digit_def)

section \<open>Numbers\<close>

lemma foldl_digits_mono: "v \<le> foldl (\<lambda>v c. 10 * v + digit_val c) v ds"
proof (induction ds arbitrary: v)
  case (Cons d ds)
  from Cons.IH [of "10 * v + digit_val d"] show ?case by simp
qed simp

lemma decode_digits_run:
  "list_all is_digit ds \<Longrightarrow> 10 \<le> mx \<Longrightarrow> foldl (\<lambda>v c. 10 * v + digit_val c) v ds \<le> mx \<Longrightarrow>
   decode_digits mx v ds = Some (foldl (\<lambda>v c. 10 * v + digit_val c) v ds)"
proof (induction ds arbitrary: v)
  case Nil
  then show ?case by simp
next
  case (Cons c ds)
  let ?w = "10 * v + digit_val c"
  have w: "?w \<le> mx" using foldl_digits_mono [of ?w ds] Cons.prems(3) by simp
  have "\<not> (v \<ge> mx div 10 \<and> (v > mx div 10 \<or> ds \<noteq> [] \<or> digit_val c > mx mod 10))"
  proof
    assume a: "v \<ge> mx div 10 \<and> (v > mx div 10 \<or> ds \<noteq> [] \<or> digit_val c > mx mod 10)"
    then have v: "v = mx div 10" using w by linarith
    have "10 * (mx div 10) + mx mod 10 = mx" by simp
    with v w have "digit_val c \<le> mx mod 10" by linarith
    with a v obtain d ds' where ds: "ds = d # ds'" by (cases ds) auto
    have "10 * ?w + digit_val d \<le> mx"
      using foldl_digits_mono [of "10 * ?w + digit_val d" ds'] Cons.prems(3) ds by simp
    then have "100 * v \<le> mx" by (simp add: distrib_left)
    moreover have "mx < 10 * v + 10" using v by simp
    ultimately have "v = 0" by simp
    with v Cons.prems(2) show False by linarith
  qed
  with Cons show ?case by (simp add: algebra_simps)
qed

lemma decode_digits_text: "n \<le> mx \<Longrightarrow> 10 \<le> mx \<Longrightarrow> decode_digits mx 0 (dec_text n) = Some n"
  using decode_digits_run [of "dec_text n" mx 0] dec_val_text [of n] dec_text_digits [of n]
  by (simp add: dec_val_def)

lemma dec_text_head: "take 1 (dec_text n) \<noteq> ''-''"
proof -
  obtain c t where "dec_text n = c # t" by (cases "dec_text n") auto
  with dec_text_digits [of n] show ?thesis by (auto simp: is_digit_def)
qed

lemma decodeNumber_text:
  assumes "n \<le> maxLargestUInt"
  shows "decodeNumber cd (dec_text n) = Some (if n \<le> maxInt then intValue (int n) else uintValue n)"
  using decode_digits_text [OF assms] dec_text_head [of n]
  by (simp add: decodeNumber_def maxLargestUInt_def)

lemma decodeNumber_minus:
  assumes "0 < n" "n \<le> 2 ^ 63"
  shows "decodeNumber cd (CHR ''-'' # dec_text n) = Some (intValue (- int n))"
  using decode_digits_text [of n "2 ^ 63"] assms
  by (simp add: decodeNumber_def maxLargestInt_def)

fun intersperse :: "string list \<Rightarrow> string" where
  "intersperse [] = []"
| "intersperse [x] = x"
| "intersperse (x # y # xs) = x @ '','' @ intersperse (y # xs)"

section \<open>The grammar\<close>

text \<open>
  Integers must be in the range their constructor has after reading; doubles have no text, as theirs is
  the C library's; objects are sorted, as the library keeps them.
\<close>

abbreviation spaces :: "string \<Rightarrow> bool" where
  "spaces w \<equiv> list_all json_space w"

inductive json_text :: "json \<Rightarrow> string \<Rightarrow> bool" where
  text_null: "json_text nullValue ''null''"
| text_bool: "json_text (booleanValue b) (if b then ''true'' else ''false'')"
| text_int: "- (2 ^ 63) \<le> i \<Longrightarrow> i \<le> int maxInt \<Longrightarrow> json_text (intValue i) (valueToString_int i)"
| text_uint: "maxInt < n \<Longrightarrow> n \<le> maxLargestUInt \<Longrightarrow> json_text (uintValue n) (valueToString_uint n)"
| text_string: "json_text (stringValue s) (valueToQuotedStringN s)"
| text_empty_array: "spaces w \<Longrightarrow> json_text (arrayValue []) (''['' @ w @ '']'')"
| text_array: "vs \<noteq> [] \<Longrightarrow>
     list_all2 (\<lambda>v t. \<exists>w u w'. t = w @ u @ w' \<and> spaces w \<and> spaces w' \<and> json_text v u) vs ts \<Longrightarrow>
     json_text (arrayValue vs) (''['' @ intersperse ts @ '']'')"
| text_empty_object: "spaces w \<Longrightarrow> json_text (objectValue []) (''{'' @ w @ ''}'')"
| text_object: "ms \<noteq> [] \<Longrightarrow> obj_sorted ms \<Longrightarrow>
     list_all2 (\<lambda>m t. \<exists>w1 w2 w3 u w4. t = w1 @ valueToQuotedStringN (fst m) @ w2 @ '':'' @ w3 @ u @ w4
        \<and> spaces w1 \<and> spaces w2 \<and> spaces w3 \<and> spaces w4 \<and> json_text (snd m) u) ms ts \<Longrightarrow>
     json_text (objectValue ms) (''{'' @ intersperse ts @ ''}'')"

inductive_cases json_text_arrayE: "json_text (arrayValue vs) t"
inductive_cases json_text_objectE: "json_text (objectValue ms) t"
inductive_simps json_text_simps: "json_text nullValue t" "json_text (booleanValue b) t" "json_text (intValue i) t"
  "json_text (uintValue n) t" "json_text (realValue d) t" "json_text (stringValue s) t"

text \<open>The text of an element or member of a list, with the space around it.\<close>

definition element_text :: "json \<Rightarrow> string \<Rightarrow> bool" where
  "element_text v t \<longleftrightarrow> (\<exists>w u w'. t = w @ u @ w' \<and> spaces w \<and> spaces w' \<and> json_text v u)"

definition member_text :: "string \<times> json \<Rightarrow> string \<Rightarrow> bool" where
  "member_text m t \<longleftrightarrow> (\<exists>w1 w2 w3 u w4. t = w1 @ valueToQuotedStringN (fst m) @ w2 @ '':'' @ w3 @ u @ w4
     \<and> spaces w1 \<and> spaces w2 \<and> spaces w3 \<and> spaces w4 \<and> json_text (snd m) u)"

lemma element_textI: "spaces w \<Longrightarrow> spaces w' \<Longrightarrow> json_text v u \<Longrightarrow> element_text v (w @ u @ w')"
  by (auto simp: element_text_def)

lemma member_textI:
  "spaces w1 \<Longrightarrow> spaces w2 \<Longrightarrow> spaces w3 \<Longrightarrow> spaces w4 \<Longrightarrow> json_text v u \<Longrightarrow>
   member_text (k, v) (w1 @ valueToQuotedStringN k @ w2 @ '':'' @ w3 @ u @ w4)"
  by (fastforce simp: member_text_def)

lemma text_array': "vs \<noteq> [] \<Longrightarrow> list_all2 element_text vs ts \<Longrightarrow> json_text (arrayValue vs) (''['' @ intersperse ts @ '']'')"
  unfolding element_text_def by (rule text_array)

lemma text_object':
  "ms \<noteq> [] \<Longrightarrow> obj_sorted ms \<Longrightarrow> list_all2 member_text ms ts \<Longrightarrow> json_text (objectValue ms) (''{'' @ intersperse ts @ ''}'')"
  unfolding member_text_def by (rule text_object)

section \<open>The reader reads the texts\<close>

lemma skipSpaces_append [simp]: "spaces w \<Longrightarrow> skipSpaces (w @ s) = skipSpaces s"
  by (induction w) (simp_all add: skipSpaces_def)

lemma readToken_spaces [simp]: "spaces w \<Longrightarrow> readToken (w @ s) = readToken s"
  by (simp add: readToken_def)

lemma skipComment_spaces [simp]: "spaces w \<Longrightarrow> skipCommentTokens (w @ s) = skipCommentTokens s"
  by (simp add: skipCommentTokens.simps [of "w @ s"] skipCommentTokens.simps [of s])

lemma readValue_spaces [simp]: "spaces w \<Longrightarrow> readValue cd d (w @ s) = readValue cd d s"
  by (cases d) simp_all

lemma tail_spaces [simp]: "spaces w \<Longrightarrow> tail_ok s \<Longrightarrow> tail_ok (w @ s)"
  by (cases w) (auto simp: tail_ok_def)

text \<open>Reading back one value, whatever follows it.\<close>

definition reads_back :: "(string \<Rightarrow> json parsed) \<Rightarrow> json \<Rightarrow> bool" where
  "reads_back rv v \<longleftrightarrow> (\<forall>w u t. spaces w \<longrightarrow> json_text v u \<longrightarrow> tail_ok t \<longrightarrow> rv (w @ u @ t) = Parsed v t)"

lemma reads_backD: "reads_back rv v \<Longrightarrow> spaces w \<Longrightarrow> json_text v u \<Longrightarrow> tail_ok t \<Longrightarrow> rv (w @ u @ t) = Parsed v t"
  by (simp add: reads_back_def)

lemma dec_text_front: "\<exists>c s. dec_text n = c # s \<and> \<not> json_space c \<and> c \<noteq> CHR '']''"
proof -
  obtain c t where "dec_text n = c # t" by (cases "dec_text n") auto
  with dec_text_digits [of n] show ?thesis by (auto simp: is_digit_def json_space_def)
qed

lemma json_text_head: "json_text v t \<Longrightarrow> \<exists>c s. t = c # s \<and> \<not> json_space c \<and> c \<noteq> CHR '']''"
  by (cases v t rule: json_text.cases)
    (use dec_text_front in \<open>auto simp: valueToString_int_def valueToString_uint_def valueToQuotedStringN_escape json_space_def\<close>)

lemma intersperse_Cons: "xs \<noteq> [] \<Longrightarrow> intersperse (x # xs) = x @ '','' @ intersperse xs"
  by (cases xs) auto

lemma length_intersperse: "length xs \<le> length (intersperse xs) + 1"
  by (induction xs rule: intersperse.induct) auto

lemma read_elements_text:
  assumes "list_all (reads_back rv) vs" "vs \<noteq> []" "length vs \<le> n" "list_all2 element_text vs ts"
  shows "read_elements rv n acc (intersperse ts @ CHR '']'' # t) = Parsed (arrayValue (acc @ vs)) t"
  using assms
proof (induction vs arbitrary: acc n ts)
  case Nil
  then show ?case by simp
next
  case (Cons v vs)
  then obtain m where n: "n = Suc m" by (cases n) auto
  from Cons.prems(4) obtain x us where ts: "ts = x # us" "element_text v x" "list_all2 element_text vs us"
    by (cases ts) auto
  then obtain w u w' where x: "x = w @ u @ w'" "spaces w" "spaces w'" "json_text v u"
    by (auto simp: element_text_def)
  have rv: "rv (w @ u @ w' @ s) = Parsed v (w' @ s)" if "tail_ok s" for s
    using reads_backD [of rv v w u "w' @ s"] Cons.prems(1) x that by simp
  show ?case
  proof (cases "vs = []")
    case True
    with ts have "us = []" by simp
    with True x rv show ?thesis by (simp add: n ts skip_token)
  next
    case False
    with ts have "us \<noteq> []" by auto
    moreover have "length vs \<le> m" "list_all (reads_back rv) vs" using Cons.prems n by simp_all
    ultimately show ?thesis using x rv Cons.IH [OF _ False _ ts(3), of m "acc @ [v]"]
      by (simp add: n ts skip_token intersperse_Cons)
  qed
qed

lemma obj_sorted_append:
  "obj_sorted (xs @ (k, v) # ys) \<Longrightarrow> \<forall>k' \<in> fst ` set xs. key_less k' k"
  by (induction xs) force+

lemma read_members_text:
  assumes "list_all (\<lambda>(k, v). reads_back rv v) ms" "ms \<noteq> []" "length ms \<le> n" "obj_sorted (acc @ ms)"
    and "list_all2 member_text ms ts"
  shows "read_members rv n name acc (intersperse ts @ CHR ''}'' # t) = Parsed (objectValue (acc @ ms)) t"
  using assms
proof (induction ms arbitrary: acc n name ts)
  case Nil
  then show ?case by simp
next
  case (Cons m ms)
  obtain k v where kv: "m = (k, v)" by (cases m)
  obtain j where n: "n = Suc j" using Cons.prems(3) by (cases n) auto
  from Cons.prems(5) obtain x us where ts: "ts = x # us" "member_text m x" "list_all2 member_text ms us"
    by (cases ts) auto
  then obtain w1 w2 w3 u w4 where x: "x = w1 @ valueToQuotedStringN k @ w2 @ '':'' @ w3 @ u @ w4"
      "spaces w1" "spaces w2" "spaces w3" "spaces w4" "json_text v u"
    by (auto simp: member_text_def kv)
  have tok: "skipCommentTokens (valueToQuotedStringN k @ s) = (tokenString, valueToQuotedStringN k, s)" for s
    using skip_token [OF readToken_string] by simp
  have rv: "rv (w3 @ u @ w4 @ s) = Parsed v (w4 @ s)" if "tail_ok s" for s
    using reads_backD [of rv v w3 u "w4 @ s"] Cons.prems(1) x that by (simp add: kv)
  have ins: "obj_insert k v acc = acc @ [(k, v)]"
    using obj_insert_last obj_sorted_append Cons.prems(4) kv by blast
  show ?case
  proof (cases "ms = []")
    case True
    with ts have "us = []" by simp
    with True x kv tok ins rv show ?thesis by (simp add: n ts decodeString_quoted)
  next
    case False
    with ts have "us \<noteq> []" by auto
    moreover have "length ms \<le> j" "list_all (\<lambda>(k, v). reads_back rv v) ms" "obj_sorted ((acc @ [(k, v)]) @ ms)"
      using Cons.prems n kv by simp_all
    ultimately show ?thesis using x kv tok ins rv Cons.IH [OF _ False _ _ ts(3), of j "acc @ [(k, v)]" k]
      by (simp add: n ts decodeString_quoted intersperse_Cons)
  qed
qed

lemma texts_length: "list_all2 P vs ts \<Longrightarrow> length vs \<le> length (intersperse ts @ c # t) + 1"
  using length_intersperse [of ts] by (auto dest: list_all2_lengthD)

lemma readArray_text:
  assumes "list_all (reads_back rv) vs" "vs \<noteq> []" "list_all2 element_text vs ts"
  shows "readArray rv (intersperse ts @ CHR '']'' # t) = Parsed (arrayValue vs) t"
proof -
  from assms(2,3) obtain v ws x us where v: "vs = v # ws" "ts = x # us" "element_text v x" "list_all2 element_text ws us"
    by (cases vs; cases ts) auto
  then obtain w u w' where x: "x = w @ u @ w'" "spaces w" "spaces w'" "json_text v u"
    by (auto simp: element_text_def)
  with json_text_head obtain c s where c: "u = c # s" "\<not> json_space c" "c \<noteq> CHR '']''" by blast
  let ?ts = "(u @ w') # us"
  let ?r = "intersperse ?ts @ CHR '']'' # t"
  have eq: "intersperse ts @ CHR '']'' # t = w @ ?r" by (cases us) (simp_all add: v x)
  have "\<exists>q. ?r = c # q" using c by (cases us) auto
  then obtain q where q: "?r = c # q" by blast
  with c have skip: "skipSpaces (w @ ?r) = ?r" using x by simp
  have "list_all2 element_text vs ?ts" unfolding v(1) using x v(4) element_textI [of "[]" w' v u] by simp
  note el = this
  from read_elements_text [OF assms(1,2) texts_length [OF el, of "CHR '']''" t] el, where acc = "[]" and t = t]
  have "read_elements rv (length ?r + 1) [] ?r = Parsed (arrayValue vs) t" by simp
  moreover have "take 1 ?r \<noteq> '']''" unfolding q using c(3) by simp
  ultimately show ?thesis by (simp add: readArray_def Let_def eq skip del: read_elements.simps)
qed

lemma readObject_text:
  assumes "list_all (\<lambda>(k, v). reads_back rv v) ms" "ms \<noteq> []" "obj_sorted ms" "list_all2 member_text ms ts"
  shows "readObject rv (intersperse ts @ CHR ''}'' # t) = Parsed (objectValue ms) t"
  using read_members_text [OF assms(1,2) texts_length [OF assms(4), of "CHR ''}''" t] _ assms(4), where name = "[]" and acc = "[]" and t = t] assms(3)
  by (simp add: readObject_def del: read_members.simps)

text \<open>How many calls of \<open>readValue\<close> are nested at a value.\<close>

fun json_depth :: "json \<Rightarrow> nat" where
  "json_depth (arrayValue vs) = Suc (fold max (List.map json_depth vs) 0)"
| "json_depth (objectValue ms) = Suc (fold max (List.map (\<lambda>(k, v). json_depth v) ms) 0)"
| "json_depth _ = 1"

lemma fold_max_le: "(fold max xs (m::nat) \<le> d) = (m \<le> d \<and> (\<forall>x \<in> set xs. x \<le> d))"
  by (induction xs arbitrary: m) auto

lemma readValue_text: "json_depth v \<le> d \<Longrightarrow> reads_back (readValue cd d) v"
proof (induction d arbitrary: v)
  case 0
  then show ?case by (cases v) auto
next
  case (Suc d)
  have "readValue cd (Suc d) (u @ t) = Parsed v t" if u: "json_text v u" and t: "tail_ok t" for u t
    using u
  proof cases
    case (text_int i)
    show ?thesis
    proof (cases "i < 0")
      case True
      with text_int have "0 < nat (- i)" "nat (- i) \<le> 2 ^ 63" by auto
      with True show ?thesis
        by (simp add: text_int(1,2) valueToString_int_def decodeNumber_minus
            skip_token [OF readToken_minus [OF dec_text_digits t]])
    next
      case False
      with text_int have "nat i \<le> maxInt" by auto
      moreover from this have "nat i \<le> maxLargestUInt" by (simp add: maxInt_def maxLargestUInt_def)
      ultimately show ?thesis using False
        by (simp add: text_int(1,2) valueToString_int_def decodeNumber_text
            skip_token [OF readToken_digits [OF dec_text_digits dec_text_not_Nil t]])
    qed
  next
    case (text_uint n)
    then show ?thesis
      by (simp add: valueToString_uint_def decodeNumber_text
          skip_token [OF readToken_digits [OF dec_text_digits dec_text_not_Nil t]])
  next
    case (text_string s)
    then show ?thesis by (simp add: skip_token [OF readToken_string] decodeString_quoted)
  next
    case (text_empty_array w)
    then show ?thesis by (simp add: skip_token readArray_def json_space_def)
  next
    case (text_array vs ts)
    then have "list_all (reads_back (readValue cd d)) vs" using Suc by (auto simp: fold_max_le list_all_iff)
    with text_array show ?thesis using readArray_text by (simp add: skip_token element_text_def [abs_def])
  next
    case (text_empty_object w)
    then show ?thesis by (simp add: skip_token readObject_def)
  next
    case (text_object ms ts)
    then have "\<forall>(k, x) \<in> set ms. json_depth x \<le> d" using Suc.prems by (auto simp: fold_max_le)
    with Suc.IH have "list_all (\<lambda>(k, x). reads_back (readValue cd d) x) ms" unfolding list_all_iff by fast
    with text_object show ?thesis using readObject_text by (simp add: skip_token member_text_def [abs_def])
  qed (use skip_token [OF readToken_literals(1)] skip_token [OF readToken_literals(2)]
      skip_token [OF readToken_literals(3)] in auto)
  then show ?case by (simp add: reads_back_def del: readValue.simps)
qed

text \<open>A document: a text of a value, and white space around it.\<close>

lemma parse_text:
  assumes "json_text v u" "spaces w" "tail_ok t" "json_depth v \<le> stackLimit_g"
  shows "parse_document cd (w @ u @ t) = Parsed v t"
  using reads_backD [OF readValue_text [OF assms(4)] assms(2,1,3)] by (simp add: parse_document_def)

end
