(* ===== verification/Json_Writer.thy ===== *)
theory Json_Writer
  imports Json_Text
begin

text \<open>
  \<open>Json::FastWriter\<close> (external/json/jsoncpp.cpp) with its default settings, and the round trip: what
  the writer prints of a value is a text of it, so the reader reads it back as that value. It is the
  converse of the reader's side of the configuration: every configuration can be written as a file that
  loads to it.
\<close>

section \<open>The writer\<close>

fun writeValue :: "c_double \<Rightarrow> json \<Rightarrow> string" where
  "writeValue cd nullValue = ''null''"
| "writeValue cd (intValue i) = valueToString_int i"
| "writeValue cd (uintValue n) = valueToString_uint n"
| "writeValue cd (realValue d) = format_double cd d"
| "writeValue cd (stringValue s) = valueToQuotedStringN s"
| "writeValue cd (booleanValue b) = (if b then ''true'' else ''false'')"
| "writeValue cd (arrayValue vs) = ''['' @ intersperse (List.map (writeValue cd) vs) @ '']''"
| "writeValue cd (objectValue ms) =
     ''{'' @ intersperse (List.map (\<lambda>(k, v). valueToQuotedStringN k @ '':'' @ writeValue cd v) ms) @ ''}''"

definition FastWriter_write :: "c_double \<Rightarrow> json \<Rightarrow> string" where
  "FastWriter_write cd v = writeValue cd v @ [CHR 0x0A]"

section \<open>Values that survive the round trip\<close>

text \<open>
  Integers must be in the range their constructor has after reading; doubles are left out, as their
  text is the C library's; objects are sorted, as the library keeps them.
\<close>

fun wf_json :: "json \<Rightarrow> bool" where
  "wf_json (intValue i) = (- (2 ^ 63) \<le> i \<and> i \<le> int maxInt)"
| "wf_json (uintValue n) = (maxInt < n \<and> n \<le> maxLargestUInt)"
| "wf_json (realValue d) = False"
| "wf_json (arrayValue vs) = list_all wf_json vs"
| "wf_json (objectValue ms) = (obj_sorted ms \<and> list_all (\<lambda>(k, v). wf_json v) ms)"
| "wf_json _ = True"

abbreviation "write_member cd \<equiv> \<lambda>(k, v). valueToQuotedStringN k @ '':'' @ writeValue cd v"

text \<open>What is written is a text of the value, without any white space.\<close>

lemma element_text_plain: "json_text v u \<Longrightarrow> element_text v u"
  using element_textI [of "[]" "[]" v u] by simp

lemma member_text_plain: "json_text v u \<Longrightarrow> member_text (k, v) (valueToQuotedStringN k @ '':'' @ u)"
  using member_textI [of "[]" "[]" "[]" "[]" v u k] by simp

lemma writeValue_text: "wf_json v \<Longrightarrow> json_text v (writeValue cd v)"
proof (induction v)
  case (arrayValue vs)
  then have "list_all2 element_text vs (List.map (writeValue cd) vs)"
    by (auto simp: list_all2_map2 list_all2_same list_all_iff intro: element_text_plain)
  then show ?case using text_array' text_empty_array [of "[]"] by (cases "vs = []") auto
next
  case (objectValue ms)
  have "member_text m (write_member cd m)" if m: "m \<in> set ms" for m
  proof -
    obtain k v where kv: "m = (k, v)" by (cases m)
    with objectValue.prems m have "wf_json v" by (auto simp: list_all_iff)
    with objectValue.IH m kv have "json_text v (writeValue cd v)" by simp
    then show ?thesis using member_text_plain by (simp add: kv)
  qed
  then have "list_all2 member_text ms (List.map (write_member cd) ms)" by (simp add: list_all2_map2 list_all2_same)
  then show ?case using text_object' text_empty_object [of "[]"] objectValue.prems by (cases "ms = []") auto
qed (auto simp: json_text_simps)

lemma parse_written:
  assumes "wf_json v" "json_depth v \<le> stackLimit_g"
  shows "parse_document cd (FastWriter_write cd v) = Parsed v [CHR 0x0A]"
  using parse_text [OF writeValue_text [OF assms(1)], of "[]" "[CHR 0x0A]" cd cd] assms(2)
  by (simp add: FastWriter_write_def)

section \<open>Values without the byte that ends a stream\<close>

text \<open>The reader of a stream stops at the byte 0xFF; a value is clean when its strings do not hold it.\<close>

fun json_clean :: "json \<Rightarrow> bool" where
  "json_clean (stringValue s) = (CHR 0xFF \<notin> set s)"
| "json_clean (arrayValue vs) = list_all json_clean vs"
| "json_clean (objectValue ms) = list_all (\<lambda>(k, v). CHR 0xFF \<notin> set k \<and> json_clean v) ms"
| "json_clean (realValue d) = False"
| "json_clean _ = True"

lemma set_intersperse: "set (intersperse xs) \<subseteq> insert (CHR '','') (\<Union> (set ` set xs))"
  by (induction xs rule: intersperse.induct) auto

lemma clean_digits: "CHR 0xFF \<notin> set (dec_text n)"
  using dec_text_digits [of n] by (auto simp: list_all_iff is_digit_def)

lemma hex_char_clean:
  assumes "n < 16"
  shows "hex_char n \<noteq> CHR 0xFF"
proof
  assume "hex_char n = CHR 0xFF"
  then have "of_char (hex_char n) = (255::nat)" by simp
  with assms show False by (simp add: hex_char_def split: if_splits)
qed

lemma clean_escape:
  assumes "c \<noteq> CHR 0xFF"
  shows "CHR 0xFF \<notin> set (escape_char c)"
proof (cases "isControlCharacter c \<or> c = NUL")
  case True
  then have "(of_char c :: nat) < 32" by (rule control_lt)
  then have "(of_char c :: nat) div 16 < 16" by simp
  then have "hex_char (of_char c div 16) \<noteq> CHR 0xFF" "hex_char (of_char c mod 16) \<noteq> CHR 0xFF"
    by (rule hex_char_clean, intro hex_char_clean) simp
  then show ?thesis using assms by (auto simp: escape_char_def eq_commute [of "CHR 0xFF"])
next
  case False
  then show ?thesis using assms by (auto simp: escape_char_def)
qed

lemma clean_quoted:
  assumes "CHR 0xFF \<notin> set s"
  shows "CHR 0xFF \<notin> set (valueToQuotedStringN s)"
proof -
  have "CHR 0xFF \<notin> set (escape_char c)" if "c \<in> set s" for c
    using that assms by (intro clean_escape) auto
  then show ?thesis by (simp add: valueToQuotedStringN_escape)
qed

lemma json_clean_write: "json_clean v \<Longrightarrow> CHR 0xFF \<notin> set (writeValue cd v)"
proof (induction v rule: json_clean.induct)
  case (1 s)
  then show ?case by (simp add: clean_quoted)
next
  case (2 vs)
  then show ?case using set_intersperse [of "List.map (writeValue cd) vs"] by (auto simp: list_all_iff)
next
  case (3 ms)
  have "CHR 0xFF \<notin> set (write_member cd m)" if "m \<in> set ms" for m
  proof -
    obtain k v where m: "m = (k, v)" by (cases m)
    with that 3 have "CHR 0xFF \<notin> set k" "CHR 0xFF \<notin> set (writeValue cd v)" by (auto simp: list_all_iff)
    then show ?thesis by (simp add: m clean_quoted)
  qed
  then show ?case using set_intersperse [of "List.map (write_member cd) ms"] by auto
qed (simp_all add: clean_digits valueToString_int_def valueToString_uint_def)

lemma clean_takeWhile: "CHR 0xFF \<notin> set s \<Longrightarrow> takeWhile (\<lambda>c. c \<noteq> CHR 0xFF) s = s"
  unfolding takeWhile_eq_all_conv by metis

lemma parse_written_stream:
  assumes "wf_json v" "json_depth v \<le> stackLimit_g" "json_clean v"
  shows "parse_stream cd (FastWriter_write cd v) = Parsed v [CHR 0x0A]"
proof -
  have "CHR 0xFF \<notin> set (FastWriter_write cd v)"
    using json_clean_write [OF assms(3), of cd] by (auto simp: FastWriter_write_def)
  from clean_takeWhile [OF this] show ?thesis unfolding parse_stream_def by (simp only: parse_written [OF assms(1,2)])
qed

end
