(* ===== verification/Configuration.thy ===== *)
theory Configuration
  imports Json_Writer
begin

text \<open>
  \<open>Configuration\<close> (src/configuration.h, src/configuration.cpp) and \<open>FileSystem\<close> (src/filesystem.h):
  the settings read from the JSON file. Every member access that throws ends the load with false
  and leaves what was assigned before it, as the assignments go into the object one by one. The
  file system is a function from names to contents.
\<close>

datatype server_kinds = WEBSOCKET | INETDS | UNIXDS | HTTP | SERVER_KINDS_NUM

record server_info =
  si_header :: string
  si_bind :: string
  si_enable :: bool
  si_tcp :: bool
  si_max_client :: "32 word"
  si_protocols :: "string list"
  si_kinds :: server_kinds

definition newServerInfo :: "string \<Rightarrow> server_kinds \<Rightarrow> server_info" where
  "newServerInfo header kinds =
     \<lparr>si_header = header, si_bind = [], si_enable = False, si_tcp = True, si_max_client = 200,
      si_protocols = [], si_kinds = kinds\<rparr>"

record capabilities =
  enable_security :: bool
  ssl_cert :: string
  ssl_private_key :: string
  ssl_private_key_password :: string
  ssl_ca :: string

record log_settings =
  enable_debug :: bool
  enable_info :: bool
  enable_error :: bool
  enable_warn :: bool
  enable_filewrite :: bool
  directory :: string
  filesize :: "32 word"

record configuration =
  c_name :: string
  server_infos :: "server_info list"
  c_capabilities :: capabilities
  c_log :: log_settings
  enable_echo_test :: bool
  copyright :: string

definition newCapabilities :: capabilities where
  "newCapabilities = \<lparr>enable_security = False, ssl_cert = [], ssl_private_key = [],
     ssl_private_key_password = [], ssl_ca = []\<rparr>"

definition newLog :: log_settings where
  "newLog = \<lparr>enable_debug = False, enable_info = False, enable_error = False, enable_warn = False,
     enable_filewrite = False, directory = [], filesize = 0\<rparr>"

definition newJsonConfiguration :: configuration where
  "newJsonConfiguration = \<lparr>c_name = [], server_infos = [], c_capabilities = newCapabilities,
     c_log = newLog, enable_echo_test = False, copyright = []\<rparr>"

text \<open>\<open>m_server_kinds\<close>, as the constructor fills it.\<close>

definition m_server_kinds :: "(string \<times> server_kinds) list" where
  "m_server_kinds =
     [(''websocket'', WEBSOCKET), (''http'', HTTP), (''inet_domainsocket'', INETDS),
      (''unix_domainsocket'', UNIXDS)]"

definition isExistFile :: "(string \<Rightarrow> bytes option) \<Rightarrow> string \<Rightarrow> bool" where
  "isExistFile fs file = (file \<noteq> [] \<and> fs (c_str file) \<noteq> None)"

section \<open>Assignments that may throw\<close>

text \<open>
  A step works on the configuration and the root value, which a lookup may change; false is an
  exception. \<open>get\<close> finds a value, \<open>conv\<close> converts it, \<open>put\<close> stores it.
\<close>

type_synonym conf_state = "configuration \<times> json"

fun set_from ::
  "(json \<Rightarrow> json_error + json \<times> json) \<Rightarrow> (json \<Rightarrow> json_error + 'v) \<Rightarrow>
   ('v \<Rightarrow> configuration \<Rightarrow> configuration) \<Rightarrow> conf_state \<Rightarrow> bool \<times> conf_state" where
  "set_from get conv put (c, root) = (case get root of
      Inl e \<Rightarrow> (False, c, root)
    | Inr (v, root) \<Rightarrow> (case conv v of Inl e \<Rightarrow> (False, c, root) | Inr x \<Rightarrow> (True, put x c, root)))"

fun run_steps :: "(conf_state \<Rightarrow> bool \<times> conf_state) list \<Rightarrow> conf_state \<Rightarrow> bool \<times> conf_state" where
  "run_steps [] st = (True, st)"
| "run_steps (f # fs) st = (case f st of (ok, st) \<Rightarrow> if ok then run_steps fs st else (False, st))"

text \<open>A lookup on a constant value leaves the root as it is.\<close>

definition const_member :: "string \<Rightarrow> json \<Rightarrow> json \<Rightarrow> json_error + json \<times> json" where
  "const_member key v root = rbind (member key v) (\<lambda>x. Inr (x, root))"

section \<open>The parts of the file\<close>

definition subparse_common :: "c_double \<Rightarrow> conf_state \<Rightarrow> bool \<times> conf_state" where
  "subparse_common cd =
     set_from (resolveReference ''copyright'') (asString cd) (\<lambda>x c. c\<lparr>copyright := x\<rparr>)"

definition parse_protocols :: "c_double \<Rightarrow> json \<Rightarrow> json_error + string list" where
  "parse_protocols cd server = rbind (member ''protocols'' server) (\<lambda>p.
     if isNull p then Inr []
     else rfold (\<lambda>i acc. rbind (json_elem i p) (\<lambda>x. rbind (asString cd x) (\<lambda>s. Inr (acc @ [s]))))
            [0 ..< json_size p] [])"

text \<open>One entry of the server list; an entry of an unknown type is skipped.\<close>

definition parse_server :: "c_double \<Rightarrow> json \<Rightarrow> json_error + server_info option" where
  "parse_server cd server =
     rbind (member ''type'' server) (\<lambda>ty. rbind (asString cd ty) (\<lambda>header.
     case map_of m_server_kinds header of
       None \<Rightarrow> Inr None
     | Some kinds \<Rightarrow>
         rbind (member ''enable'' server) (\<lambda>v. rbind (asBool cd v) (\<lambda>enable.
         rbind (member ''bind'' server) (\<lambda>v. rbind (asString cd v) (\<lambda>bind.
         rbind (member ''tcp'' server) (\<lambda>v. rbind (asBool cd v) (\<lambda>tcp.
         rbind (member ''max_client'' server) (\<lambda>v. rbind (asUInt cd v) (\<lambda>max_client.
         rbind (parse_protocols cd server) (\<lambda>protocols.
         Inr (Some ((newServerInfo header kinds)
           \<lparr>si_enable := enable, si_bind := bind, si_tcp := tcp, si_max_client := max_client,
            si_protocols := protocols\<rparr>)))))))))))))"

fun parse_servers :: "c_double \<Rightarrow> json \<Rightarrow> nat list \<Rightarrow> configuration \<Rightarrow> bool \<times> configuration" where
  "parse_servers cd server_list [] c = (True, c)"
| "parse_servers cd server_list (i # is) c =
     (case rbind (json_elem i server_list) (parse_server cd) of
        Inl e \<Rightarrow> (False, c)
      | Inr None \<Rightarrow> parse_servers cd server_list is c
      | Inr (Some s) \<Rightarrow> parse_servers cd server_list is (c\<lparr>server_infos := server_infos c @ [s]\<rparr>))"

definition subparse_server_list :: "c_double \<Rightarrow> conf_state \<Rightarrow> bool \<times> conf_state" where
  "subparse_server_list cd = (\<lambda>(c, root). case resolveReference ''server_list'' root of
      Inl e \<Rightarrow> (False, c, root)
    | Inr (server_list, root) \<Rightarrow>
        (let (ok, c) = parse_servers cd server_list [0 ..< json_size server_list] c in (ok, c, root)))"

definition put_cap :: "('v \<Rightarrow> capabilities \<Rightarrow> capabilities) \<Rightarrow> 'v \<Rightarrow> configuration \<Rightarrow> configuration" where
  "put_cap f x c = c\<lparr>c_capabilities := f x (c_capabilities c)\<rparr>"

definition subparse_capabilities :: "c_double \<Rightarrow> conf_state \<Rightarrow> bool \<times> conf_state" where
  "subparse_capabilities cd = (\<lambda>(c, root). case resolveReference ''capabilities'' root of
      Inl e \<Rightarrow> (False, c, root)
    | Inr (capabilities, root) \<Rightarrow> run_steps
       [set_from (const_member ''security'' capabilities) (asBool cd)
          (put_cap (\<lambda>x s. s\<lparr>enable_security := x\<rparr>)),
        set_from (const_member ''ssl_cert_file'' capabilities) (asString cd)
          (put_cap (\<lambda>x s. s\<lparr>ssl_cert := x\<rparr>)),
        set_from (const_member ''ssl_private_key_file'' capabilities) (asString cd)
          (put_cap (\<lambda>x s. s\<lparr>ssl_private_key := x\<rparr>)),
        set_from (const_member ''ssl_private_key_password'' capabilities) (asString cd)
          (put_cap (\<lambda>x s. s\<lparr>ssl_private_key_password := x\<rparr>)),
        set_from (const_member ''ssl_ca_file'' capabilities) (asString cd)
          (put_cap (\<lambda>x s. s\<lparr>ssl_ca := x\<rparr>))] (c, root))"

definition put_log :: "('v \<Rightarrow> log_settings \<Rightarrow> log_settings) \<Rightarrow> 'v \<Rightarrow> configuration \<Rightarrow> configuration" where
  "put_log f x c = c\<lparr>c_log := f x (c_log c)\<rparr>"

definition subparse_log :: "c_double \<Rightarrow> conf_state \<Rightarrow> bool \<times> conf_state" where
  "subparse_log cd = run_steps
     [set_from (resolve2 ''log'' ''enable_debug'') (asBool cd) (put_log (\<lambda>x s. s\<lparr>enable_debug := x\<rparr>)),
      set_from (resolve2 ''log'' ''enable_info'') (asBool cd) (put_log (\<lambda>x s. s\<lparr>enable_info := x\<rparr>)),
      set_from (resolve2 ''log'' ''enable_error'') (asBool cd) (put_log (\<lambda>x s. s\<lparr>enable_error := x\<rparr>)),
      set_from (resolve2 ''log'' ''enable_warn'') (asBool cd) (put_log (\<lambda>x s. s\<lparr>enable_warn := x\<rparr>)),
      set_from (resolve2 ''log'' ''enable_filewrite'') (asBool cd)
        (put_log (\<lambda>x s. s\<lparr>enable_filewrite := x\<rparr>)),
      set_from (resolve2 ''log'' ''directory'') (asString cd) (put_log (\<lambda>x s. s\<lparr>directory := x\<rparr>)),
      set_from (resolve2 ''log'' ''filesize'') (asUInt cd) (put_log (\<lambda>x s. s\<lparr>filesize := x\<rparr>))]"

definition subparse_test :: "c_double \<Rightarrow> conf_state \<Rightarrow> bool \<times> conf_state" where
  "subparse_test cd =
     set_from (resolve2 ''test'' ''echo'') (asBool cd) (\<lambda>x c. c\<lparr>enable_echo_test := x\<rparr>)"

definition subparse_name :: "c_double \<Rightarrow> conf_state \<Rightarrow> bool \<times> conf_state" where
  "subparse_name cd =
     set_from (\<lambda>root. rbind (json_get ''name'' (stringValue ''anyserver'') root) (\<lambda>v. Inr (v, root)))
       (asString cd) (\<lambda>x c. c\<lparr>c_name := x\<rparr>)"

text \<open>The \<open>try\<close> block after a successful parse, \<open>__parse__\<close> and \<open>init\<close>.\<close>

definition apply_root :: "c_double \<Rightarrow> json \<Rightarrow> configuration \<Rightarrow> bool \<times> configuration" where
  "apply_root cd root c =
     (case run_steps [subparse_name cd, subparse_common cd, subparse_server_list cd,
              subparse_capabilities cd, subparse_log cd, subparse_test cd] (c, root) of
        (ok, c, root) \<Rightarrow> (ok, c))"

definition parse_configuration :: "c_double \<Rightarrow> bytes \<Rightarrow> configuration \<Rightarrow> bool \<times> configuration" where
  "parse_configuration cd content c = (case parse_stream cd content of
      Parsed root rest \<Rightarrow> apply_root cd root c
    | Failed \<Rightarrow> (False, c)
    | Thrown e \<Rightarrow> (False, c)
    | Out_Of_Fuel \<Rightarrow> (False, c))"

definition init_configuration ::
  "c_double \<Rightarrow> (string \<Rightarrow> bytes option) \<Rightarrow> string \<Rightarrow> configuration \<Rightarrow> bool \<times> configuration" where
  "init_configuration cd fs config_file c =
     (if \<not> isExistFile fs config_file then (False, c)
      else case fs (c_str config_file) of
             None \<Rightarrow> (False, c) | Some content \<Rightarrow> parse_configuration cd content c)"

section \<open>A configuration as a file\<close>

definition mk_obj :: "(string \<times> json) list \<Rightarrow> json" where
  "mk_obj kvs = objectValue (fold (\<lambda>(k, v). obj_insert k v) kvs [])"

definition uint_json :: "32 word \<Rightarrow> json" where
  "uint_json u = (if unat u \<le> maxInt then intValue (int (unat u)) else uintValue (unat u))"

definition server_json :: "server_info \<Rightarrow> json" where
  "server_json s = mk_obj
     [(''type'', stringValue (si_header s)), (''enable'', booleanValue (si_enable s)),
      (''bind'', stringValue (si_bind s)), (''tcp'', booleanValue (si_tcp s)),
      (''max_client'', uint_json (si_max_client s)),
      (''protocols'', arrayValue (List.map stringValue (si_protocols s)))]"

definition capabilities_json :: "capabilities \<Rightarrow> json" where
  "capabilities_json s = mk_obj
     [(''security'', booleanValue (enable_security s)), (''ssl_cert_file'', stringValue (ssl_cert s)),
      (''ssl_private_key_file'', stringValue (ssl_private_key s)),
      (''ssl_private_key_password'', stringValue (ssl_private_key_password s)),
      (''ssl_ca_file'', stringValue (ssl_ca s))]"

definition log_json :: "log_settings \<Rightarrow> json" where
  "log_json s = mk_obj
     [(''enable_debug'', booleanValue (enable_debug s)), (''enable_info'', booleanValue (enable_info s)),
      (''enable_error'', booleanValue (enable_error s)), (''enable_warn'', booleanValue (enable_warn s)),
      (''enable_filewrite'', booleanValue (enable_filewrite s)),
      (''directory'', stringValue (directory s)), (''filesize'', uint_json (filesize s))]"

definition config_json :: "configuration \<Rightarrow> json" where
  "config_json c = mk_obj
     [(''name'', stringValue (c_name c)), (''copyright'', stringValue (copyright c)),
      (''server_list'', arrayValue (List.map server_json (server_infos c))),
      (''capabilities'', capabilities_json (c_capabilities c)), (''log'', log_json (c_log c)),
      (''test'', mk_obj [(''echo'', booleanValue (enable_echo_test c))])]"

text \<open>Every server has a supported type, under the name of its type.\<close>

definition config_ok :: "configuration \<Rightarrow> bool" where
  "config_ok c \<longleftrightarrow> list_all (\<lambda>s. map_of m_server_kinds (si_header s) = Some (si_kinds s)) (server_infos c)"

text \<open>The object builder.\<close>

lemma fold_insert_map_of:
  "map_of (fold (\<lambda>(k, v). obj_insert k v) kvs ms) = map_of ms ++ map_of (rev kvs)"
  by (induction kvs arbitrary: ms) (auto simp: map_add_def fun_eq_iff split: option.splits)

lemma fold_insert_sorted: "obj_sorted ms \<Longrightarrow> obj_sorted (fold (\<lambda>(k, v). obj_insert k v) kvs ms)"
  by (induction kvs arbitrary: ms) (auto simp: obj_sorted_insert)

lemma set_fold_insert: "set (fold (\<lambda>(k, v). obj_insert k v) kvs ms) \<subseteq> set kvs \<union> set ms"
proof (induction kvs arbitrary: ms)
  case (Cons kv kvs)
  from Cons.IH [of "obj_insert (fst kv) (snd kv) ms"] set_obj_insert [of "fst kv" "snd kv" ms]
  show ?case by (cases kv) auto
qed simp

lemma mk_obj_wf: "\<forall>(k, v) \<in> set kvs. wf_json v \<Longrightarrow> wf_json (mk_obj kvs)"
  using set_fold_insert [of kvs "[]"] fold_insert_sorted [of "[]" kvs]
  by (auto simp: mk_obj_def list_all_iff)

lemma mk_obj_depth: "\<forall>(k, v) \<in> set kvs. json_depth v \<le> d \<Longrightarrow> json_depth (mk_obj kvs) \<le> Suc d"
  using set_fold_insert [of kvs "[]"] by (auto simp: mk_obj_def fold_max_le)

lemma obj_insert_same: "obj_sorted ms \<Longrightarrow> map_of ms k = Some v \<Longrightarrow> obj_insert k v ms = ms"
proof (induction ms)
  case (Cons m ms)
  obtain k' v' where m: "m = (k', v')" by (cases m)
  have "k \<noteq> k' \<Longrightarrow> key_less k' k"
    using Cons.prems m by (auto dest!: map_of_SomeD)
  then have "k \<noteq> k' \<Longrightarrow> \<not> key_less k k'" using key_less_trans key_less_irrefl by blast
  with Cons m show ?case by auto
qed simp

lemma mk_obj_lookup:
  assumes "map_of (rev kvs) key = Some v"
  shows "member key (mk_obj kvs) = Inr v" and "json_get key d (mk_obj kvs) = Inr v"
    and "resolveReference key (mk_obj kvs) = Inr (v, mk_obj kvs)"
  using assms by (simp_all add: mk_obj_def member_def json_get_def json_find_def resolveReference_def fold_insert_map_of)

lemma mk_obj_lookup2:
  assumes "map_of (rev kvs) k1 = Some (mk_obj ms)" "map_of (rev ms) k2 = Some v"
  shows "resolve2 k1 k2 (mk_obj kvs) = Inr (v, mk_obj kvs)"
proof -
  have "obj_insert k1 (mk_obj ms) (fold (\<lambda>(k, v). obj_insert k v) kvs [])
      = fold (\<lambda>(k, v). obj_insert k v) kvs []"
    by (rule obj_insert_same) (use assms(1) in \<open>simp_all add: fold_insert_sorted fold_insert_map_of\<close>)
  then show ?thesis
    using mk_obj_lookup(3) [OF assms(1)] mk_obj_lookup(3) [OF assms(2)]
    by (simp add: resolve2_def mk_obj_def)
qed

lemma asUInt_uint_json: "asUInt cd (uint_json u) = Inr u"
proof -
  have "unat u < 2 ^ 32" using unsigned_less [of u, where ?'a = nat] by simp
  moreover from this have "int (unat u) < 2 ^ 32" by (simp del: of_nat_unat)
  ultimately show ?thesis by (simp add: uint_json_def asUInt_def)
qed

lemma parse_protocols_array:
  "rfold (\<lambda>i acc. rbind (json_elem i (arrayValue (List.map stringValue ps)))
       (\<lambda>x. rbind (asString cd x) (\<lambda>s. Inr (acc @ [s])))) [j ..< length ps] acc
     = Inr (acc @ drop j ps)"
proof (induction "length ps - j" arbitrary: j acc)
  case 0
  then show ?case by simp
next
  case (Suc n)
  then have j: "j < length ps" by simp
  then have "[j ..< length ps] = j # [Suc j ..< length ps]" by (simp add: upt_rec)
  with Suc.hyps(1) [of "Suc j" "acc @ [ps ! j]"] Suc.hyps(2) j show ?case
    by (simp add: json_elem_def asString_def Cons_nth_drop_Suc)
qed

lemma parse_server_json:
  assumes "map_of m_server_kinds (si_header s) = Some (si_kinds s)"
  shows "parse_server cd (server_json s) = Inr (Some s)"
proof -
  have "parse_protocols cd (server_json s) = Inr (si_protocols s)"
    using parse_protocols_array [of "si_protocols s" cd 0 "[]"]
    by (simp add: parse_protocols_def server_json_def mk_obj_lookup isNull_def json_size_def)
  then show ?thesis
    using assms
    by (simp add: parse_server_def server_json_def mk_obj_lookup asString_def asBool_def asUInt_uint_json
        newServerInfo_def)
qed

lemma parse_servers_json:
  assumes "list_all (\<lambda>s. map_of m_server_kinds (si_header s) = Some (si_kinds s)) ss"
  shows "parse_servers cd (arrayValue (List.map server_json ss)) [j ..< length ss] c
       = (True, c\<lparr>server_infos := server_infos c @ drop j ss\<rparr>)"
proof (induction "length ss - j" arbitrary: j c)
  case 0
  then show ?case by simp
next
  case (Suc n)
  then have j: "j < length ss" by simp
  with assms have "parse_server cd (server_json (ss ! j)) = Inr (Some (ss ! j))"
    by (intro parse_server_json) (simp add: list_all_length)
  moreover from j have "[j ..< length ss] = j # [Suc j ..< length ss]" by (simp add: upt_rec)
  ultimately show ?case
    using Suc.hyps(1) [of "Suc j" "c\<lparr>server_infos := server_infos c @ [ss ! j]\<rparr>"] Suc.hyps(2) j
    by (simp add: json_elem_def Cons_nth_drop_Suc)
qed

lemma wf_uint_json [simp]: "wf_json (uint_json u)" "json_depth (uint_json u) = 1"
proof -
  have "unat u < 2 ^ 32" using unsigned_less [of u, where ?'a = nat] by simp
  then show "wf_json (uint_json u)" "json_depth (uint_json u) = 1"
    by (simp_all add: uint_json_def maxInt_def maxLargestUInt_def del: of_nat_unat)
qed

lemma mk_obj_depth3: "\<forall>(k, v) \<in> set kvs. json_depth v = 1 \<Longrightarrow> json_depth (mk_obj kvs) \<le> 4"
  by (rule order_trans [OF mk_obj_depth [where d = 1]]) auto

lemma wf_server_json: "wf_json (server_json s)" "json_depth (server_json s) \<le> 3"
  unfolding server_json_def
   apply (rule mk_obj_wf; simp add: list_all_iff)
  by (rule order_trans [OF mk_obj_depth [where d = 2]]; simp add: fold_max_le)

lemma wf_config_json: "wf_json (config_json c)" "json_depth (config_json c) \<le> 5"
  unfolding config_json_def
   apply (rule mk_obj_wf; simp add: list_all_iff wf_server_json capabilities_json_def log_json_def mk_obj_wf)
  apply (rule order_trans [OF mk_obj_depth [where d = 4]])
   apply (simp add: fold_max_le wf_server_json capabilities_json_def log_json_def mk_obj_depth3)
  by simp

lemma apply_config_json:
  assumes "config_ok c"
  shows "apply_root cd (config_json c) newJsonConfiguration = (True, c)"
proof -
  let ?root = "config_json c"
  have ms: "map_of (rev kvs) k = Some v \<Longrightarrow> resolveReference k (mk_obj kvs) = Inr (v, mk_obj kvs)" for kvs k v
    by (rule mk_obj_lookup(3))
  have servers: "subparse_server_list cd (d, ?root)
      = (True, d\<lparr>server_infos := server_infos d @ server_infos c\<rparr>, ?root)" for d
    using parse_servers_json [of "server_infos c" cd 0 d] assms
    by (simp add: subparse_server_list_def config_json_def mk_obj_lookup json_size_def config_ok_def)
  have caps: "subparse_capabilities cd (d, ?root) = (True, d\<lparr>c_capabilities := c_capabilities c\<rparr>, ?root)" for d
    by (simp add: subparse_capabilities_def config_json_def mk_obj_lookup capabilities_json_def
        const_member_def asBool_def asString_def put_cap_def)
  have log: "subparse_log cd (d, ?root) = (True, d\<lparr>c_log := c_log c\<rparr>, ?root)" for d
    by (simp add: subparse_log_def config_json_def log_json_def mk_obj_lookup2 asBool_def asString_def
        asUInt_uint_json put_log_def)
  have name: "subparse_name cd (d, ?root) = (True, d\<lparr>c_name := c_name c\<rparr>, ?root)"
    and common: "subparse_common cd (d, ?root) = (True, d\<lparr>copyright := copyright c\<rparr>, ?root)"
    and test: "subparse_test cd (d, ?root) = (True, d\<lparr>enable_echo_test := enable_echo_test c\<rparr>, ?root)" for d
    by (simp_all add: subparse_name_def subparse_common_def subparse_test_def config_json_def
        mk_obj_lookup mk_obj_lookup2 asString_def asBool_def)
  show ?thesis
    by (simp add: apply_root_def name common servers caps log test newJsonConfiguration_def)
qed

text \<open>No text of the configuration holds the byte 0xFF.\<close>

definition server_clean :: "server_info \<Rightarrow> bool" where
  "server_clean s \<longleftrightarrow> list_all (\<lambda>t. CHR 0xFF \<notin> set t) ([si_header s, si_bind s] @ si_protocols s)"

definition config_clean :: "configuration \<Rightarrow> bool" where
  "config_clean c \<longleftrightarrow> list_all server_clean (server_infos c)
     \<and> list_all (\<lambda>t. CHR 0xFF \<notin> set t) [c_name c, copyright c, directory (c_log c),
          ssl_cert (c_capabilities c), ssl_private_key (c_capabilities c),
          ssl_private_key_password (c_capabilities c), ssl_ca (c_capabilities c)]"

lemma mk_obj_clean: "\<forall>(k, v) \<in> set kvs. CHR 0xFF \<notin> set k \<and> json_clean v \<Longrightarrow> json_clean (mk_obj kvs)"
  using set_fold_insert [of kvs "[]"] by (auto simp: mk_obj_def list_all_iff)

lemma clean_uint_json [simp]: "json_clean (uint_json u)"
  by (simp add: uint_json_def)

lemma clean_server_json: "server_clean s \<Longrightarrow> json_clean (server_json s)"
  unfolding server_json_def by (rule mk_obj_clean) (simp add: server_clean_def list_all_iff)

lemma clean_config_json: "config_clean c \<Longrightarrow> json_clean (config_json c)"
  unfolding config_json_def
  by (rule mk_obj_clean) (simp add: config_clean_def list_all_iff clean_server_json capabilities_json_def
      log_json_def mk_obj_clean)

lemma parse_written_config:
  assumes "config_clean c"
  shows "parse_stream cd (FastWriter_write cd (config_json c)) = Parsed (config_json c) [CHR 0x0A]"
  using parse_written_stream [OF wf_config_json(1) _ clean_config_json [OF assms]] wf_config_json(2) [of c]
  by (simp add: stackLimit_g_def)

end
