(* ===== verification/Logger.thy ===== *)
theory Logger
  imports Std_Conv
begin

text \<open>
  \<open>Logger\<close> (src/logger.h, src/logger.cpp): the four levels, the formatting of a line into two
  buffers of fixed size, and the log file, which is created on demand and closed when it has grown
  past the configured size. The file system is explicit state: the bytes of each file. The clock
  and the answer of \<open>fopen\<close> are arguments; the text \<open>vsnprintf\<close> makes of format and arguments is
  the C library's and an argument too.
\<close>

datatype log_type = DEBUG | INFO | ERROR | WARNING

definition MAX_PREFIX_LEN :: nat where "MAX_PREFIX_LEN = 256"
definition MAX_MSG_LEN :: nat where "MAX_MSG_LEN = 4 * 1024"
definition SUFFIX_LEN :: nat where "SUFFIX_LEN = 64"

text \<open>\<open>struct tm\<close>.\<close>

record tm =
  tm_year :: nat
  tm_mon :: nat
  tm_mday :: nat
  tm_hour :: nat
  tm_min :: nat
  tm_sec :: nat

record logger =
  m_info :: bool
  m_debug :: bool
  m_warning :: bool
  m_error :: bool
  m_filewrite :: bool
  m_filesize :: "32 word"
  m_log_fp :: "string option"
  m_log_filename :: string
  m_log_filename_prefix :: string
  m_log_rootpath :: string
  m_use_date :: bool
  files :: "string \<Rightarrow> bytes option"
  stdout :: bytes

text \<open>The static initialisers.\<close>

definition initial_logger :: "(string \<Rightarrow> bytes option) \<Rightarrow> logger" where
  "initial_logger fs =
     \<lparr>m_info = True, m_debug = True, m_warning = True, m_error = True, m_filewrite = False,
      m_filesize = 0, m_log_fp = None, m_log_filename = [], m_log_filename_prefix = [],
      m_log_rootpath = [], m_use_date = True, files = fs, stdout = []\<rparr>"

definition setLogLevel ::
  "bool \<Rightarrow> bool \<Rightarrow> bool \<Rightarrow> bool \<Rightarrow> bool \<Rightarrow> 32 word \<Rightarrow> string \<Rightarrow> string \<Rightarrow> logger \<Rightarrow> logger" where
  "setLogLevel info debug warn error filewrite filesize rootpath log_filename_prefix g =
     g\<lparr>m_info := info, m_debug := debug, m_warning := warn, m_error := error,
       m_filewrite := filewrite, m_filesize := filesize, m_log_rootpath := rootpath,
       m_log_filename_prefix := log_filename_prefix\<rparr>"

section \<open>Formatting\<close>

text \<open>\<open>%0nd\<close>, and \<open>snprintf\<close> into a buffer of \<open>n\<close> bytes: the text is cut to leave room for the zero.\<close>

definition pad :: "nat \<Rightarrow> nat \<Rightarrow> string" where
  "pad n v = replicate (n - length (dec_text v)) (CHR ''0'') @ dec_text v"

definition snprintf :: "nat \<Rightarrow> string \<Rightarrow> string" where
  "snprintf n text = take (n - 1) text"

definition getDate :: "tm \<Rightarrow> string" where
  "getDate t = snprintf 16 (pad 2 (tm_hour t) @ '':'' @ pad 2 (tm_min t) @ '':'' @ pad 2 (tm_sec t))"

fun getLogTypeString :: "log_type \<Rightarrow> string" where
  "getLogTypeString DEBUG = ''DEBUG''"
| "getLogTypeString INFO = ''INFO''"
| "getLogTypeString ERROR = ''ERROR''"
| "getLogTypeString WARNING = ''WARN''"

definition ESC :: char where "ESC = CHR 0x1B"

fun begin_of_ansi :: "log_type \<Rightarrow> string" where
  "begin_of_ansi DEBUG = ESC # ''[1;32;40m ''"
| "begin_of_ansi INFO = ESC # ''[1;32;40m ''"
| "begin_of_ansi ERROR = ESC # ''[1;31;40m ''"
| "begin_of_ansi WARNING = ESC # ''[1;35;40m ''"

definition end_of_ansi :: string where "end_of_ansi = ESC # ''[0m''"

definition msg_prefix :: "bool \<Rightarrow> log_type \<Rightarrow> tm \<Rightarrow> string \<Rightarrow> string \<Rightarrow> nat \<Rightarrow> string" where
  "msg_prefix use_date ty t filename funcname linenumber =
     c_str (snprintf MAX_PREFIX_LEN
       (''['' @ c_str (getLogTypeString ty) @ ''] ['' @ (if use_date then getDate t @ '']['' else [])
        @ c_str filename @ '':'' @ c_str funcname @ '':'' @ dec_text linenumber @ ''] ''))"

section \<open>The log file\<close>

definition log_suffix :: "string \<Rightarrow> tm \<Rightarrow> string" where
  "log_suffix prefix t =
     snprintf SUFFIX_LEN (''/'' @ c_str prefix @ ''_''
       @ pad 4 (tm_year t + 1900) @ pad 2 (tm_mon t + 1) @ pad 2 (tm_mday t) @ ''_''
       @ pad 2 (tm_hour t) @ pad 2 (tm_min t) @ pad 2 (tm_sec t) @ ''.log'')"

definition logfile_name :: "logger \<Rightarrow> tm \<Rightarrow> string" where
  "logfile_name g t = m_log_rootpath g @ log_suffix (m_log_filename_prefix g) t"

text \<open>
  \<open>__save_logfile__\<close>: an open file gets the message and is closed when it is larger than the limit
  after it; with no open file one is created (mode \<open>w+\<close> empties a file of that name) and the
  message is not written. \<open>fopen_ok\<close> tells whether \<open>fopen\<close> succeeds.
\<close>

definition save_logfile :: "bool \<Rightarrow> tm \<Rightarrow> string \<Rightarrow> string \<Rightarrow> logger \<Rightarrow> logger" where
  "save_logfile fopen_ok t prefix msg g = (case m_log_fp g of
      Some f \<Rightarrow>
        (let content = (case files g f of None \<Rightarrow> [] | Some c \<Rightarrow> c) @ prefix @ msg;
             g = g\<lparr>files := (files g)(f := Some content)\<rparr>
          in case files g (c_str (m_log_filename g)) of
               None \<Rightarrow> g
             | Some c \<Rightarrow> if unat (m_filesize g) < length c then g\<lparr>m_log_fp := None\<rparr> else g)
    | None \<Rightarrow>
        (let name = logfile_name g t;
             g = g\<lparr>m_log_filename := name\<rparr>;
             g = (if fopen_ok then g\<lparr>m_log_fp := Some (c_str name), files := (files g)(c_str name := Some [])\<rparr> else g)
          in g\<lparr>stdout := stdout g @ ''Created a log file ['' @ c_str name @ ''] '' @ [CHR 0x0A]\<rparr>))"

definition log_line :: "bool \<Rightarrow> tm \<Rightarrow> log_type \<Rightarrow> string \<Rightarrow> string \<Rightarrow> logger \<Rightarrow> logger" where
  "log_line fopen_ok t ty prefix msg g =
     (let g = g\<lparr>stdout := stdout g @ begin_of_ansi ty @ c_str prefix @ '' '' @ c_str msg @ end_of_ansi\<rparr>
      in if m_filewrite g then save_logfile fopen_ok t prefix msg g else g)"

text \<open>The macro \<open>LOGGING\<close> and the four methods; \<open>text\<close> is the formatted message.\<close>

definition logging ::
  "bool \<Rightarrow> bool \<Rightarrow> tm \<Rightarrow> log_type \<Rightarrow> string \<Rightarrow> nat \<Rightarrow> string \<Rightarrow> string \<Rightarrow> logger \<Rightarrow> logger" where
  "logging enable fopen_ok t ty filename linenumber funcname text g =
     (if enable
      then log_line fopen_ok t ty (msg_prefix (m_use_date g) ty t filename funcname linenumber)
             (c_str (snprintf MAX_MSG_LEN text)) g
      else g)"

definition log_info :: "bool \<Rightarrow> tm \<Rightarrow> string \<Rightarrow> nat \<Rightarrow> string \<Rightarrow> string \<Rightarrow> logger \<Rightarrow> logger" where
  "log_info ok t file line func text g = logging (m_info g) ok t INFO file line func text g"

definition log_debug :: "bool \<Rightarrow> tm \<Rightarrow> string \<Rightarrow> nat \<Rightarrow> string \<Rightarrow> string \<Rightarrow> logger \<Rightarrow> logger" where
  "log_debug ok t file line func text g = logging (m_debug g) ok t DEBUG file line func text g"

definition log_warning :: "bool \<Rightarrow> tm \<Rightarrow> string \<Rightarrow> nat \<Rightarrow> string \<Rightarrow> string \<Rightarrow> logger \<Rightarrow> logger" where
  "log_warning ok t file line func text g = logging (m_warning g) ok t WARNING file line func text g"

definition log_error :: "bool \<Rightarrow> tm \<Rightarrow> string \<Rightarrow> nat \<Rightarrow> string \<Rightarrow> string \<Rightarrow> logger \<Rightarrow> logger" where
  "log_error ok t file line func text g = logging (m_error g) ok t ERROR file line func text g"

text \<open>
  The two \<open>__log__\<close> callbacks of the libwebsockets servers: the library's level, one bit each, is
  mapped to a method; unknown levels are dropped.
\<close>

definition lws_log ::
  "bool \<Rightarrow> tm \<Rightarrow> string \<Rightarrow> nat \<Rightarrow> nat \<Rightarrow> string \<Rightarrow> logger \<Rightarrow> logger" where
  "lws_log ok t file line level text g =
     (if level = 1 then log_error ok t file line ''__log__'' text g
      else if level = 2 then log_warning ok t file line ''__log__'' text g
      else if level \<in> {4, 8} then log_info ok t file line ''__log__'' text g
      else if level \<in> {16, 32, 64, 128, 256, 512} then log_debug ok t file line ''__log__'' text g
      else g)"

section \<open>Bounds\<close>

lemma snprintf_length: "0 < n \<Longrightarrow> length (snprintf n s) < n"
  by (auto simp: snprintf_def)

lemma c_str_length: "length (c_str s) \<le> length s"
  by (simp add: c_str_def length_takeWhile_le)

lemma msg_prefix_length: "length (msg_prefix d ty t file func line) < MAX_PREFIX_LEN"
  unfolding msg_prefix_def
  by (rule le_less_trans [OF c_str_length snprintf_length]) (simp add: MAX_PREFIX_LEN_def)

lemma msg_length: "length (c_str (snprintf MAX_MSG_LEN text)) < MAX_MSG_LEN"
  by (rule le_less_trans [OF c_str_length snprintf_length]) (simp add: MAX_MSG_LEN_def)

text \<open>
  The invariant of the log file: the open file is the one the name says, and it is not larger than
  the limit; no file in \<open>F\<close>, the files the logger has written to, exceeds the limit by more than
  one line.
\<close>

definition log_inv :: "logger \<Rightarrow> bool" where
  "log_inv g \<longleftrightarrow> (case m_log_fp g of None \<Rightarrow> True
     | Some f \<Rightarrow> f = c_str (m_log_filename g)
         \<and> (\<exists>c. files g f = Some c \<and> length c \<le> unat (m_filesize g)))"

definition file_bound :: "nat \<Rightarrow> logger \<Rightarrow> string \<Rightarrow> bool" where
  "file_bound n g f \<longleftrightarrow> (case files g f of None \<Rightarrow> True | Some c \<Rightarrow> length c \<le> n)"

definition LINE_MAX :: nat where "LINE_MAX = (MAX_PREFIX_LEN - 1) + (MAX_MSG_LEN - 1)"

lemma save_logfile_inv: "log_inv g \<Longrightarrow> log_inv (save_logfile ok t p m g)"
  by (auto simp: log_inv_def save_logfile_def Let_def split: option.splits)

lemma save_logfile_bound:
  assumes "log_inv g" "length p < MAX_PREFIX_LEN" "length m < MAX_MSG_LEN"
    and "file_bound (unat (m_filesize g) + LINE_MAX) g f"
  shows "file_bound (unat (m_filesize g) + LINE_MAX) (save_logfile ok t p m g) f"
  using assms
  by (auto simp: log_inv_def save_logfile_def file_bound_def LINE_MAX_def Let_def split: option.splits)

lemma save_logfile_frame [simp]:
  "m_filesize (save_logfile ok t p m g) = m_filesize g" "m_filewrite (save_logfile ok t p m g) = m_filewrite g"
  "m_info (save_logfile ok t p m g) = m_info g" "m_debug (save_logfile ok t p m g) = m_debug g"
  "m_warning (save_logfile ok t p m g) = m_warning g" "m_error (save_logfile ok t p m g) = m_error g"
  by (auto simp: save_logfile_def Let_def split: option.splits)

lemma log_inv_stdout [simp]: "log_inv (g\<lparr>stdout := x\<rparr>) = log_inv g"
  "file_bound n (g\<lparr>stdout := x\<rparr>) f = file_bound n g f"
  by (simp_all add: log_inv_def file_bound_def split: option.split)

lemma logging_inv:
  assumes "log_inv g"
  shows "log_inv (logging enable ok t ty file line func text g)"
    and "m_filesize (logging enable ok t ty file line func text g) = m_filesize g"
  using assms by (simp_all add: logging_def log_line_def Let_def save_logfile_inv)

lemma logging_bound:
  assumes "log_inv g" "file_bound (unat (m_filesize g) + LINE_MAX) g f"
  shows "file_bound (unat (m_filesize g) + LINE_MAX) (logging enable ok t ty file line func text g) f"
  using assms save_logfile_bound [of "g\<lparr>stdout := _\<rparr>", OF _ msg_prefix_length msg_length]
  by (simp add: logging_def log_line_def Let_def)

text \<open>An open file gets the whole line; with none, the line is in no file.\<close>

lemma save_logfile_open:
  assumes "log_inv g" "m_log_fp g = Some f" "files g f = Some c"
  shows "files (save_logfile ok t p m g) = (files g)(f := Some (c @ p @ m))"
    and "m_log_fp (save_logfile ok t p m g)
       = (if unat (m_filesize g) < length (c @ p @ m) then None else Some f)"
  using assms by (auto simp: save_logfile_def log_inv_def Let_def)

lemma save_logfile_create:
  assumes "m_log_fp g = None"
  shows "files (save_logfile True t p m g) = (files g)(c_str (logfile_name g t) := Some [])"
    and "m_log_fp (save_logfile True t p m g) = Some (c_str (logfile_name g t))"
  using assms by (auto simp: save_logfile_def Let_def)

end
