(* ===== verification/Server_Factory.thy ===== *)
theory Server_Factory
  imports Udp_Server Http_Server WebSocket_Server Configuration Logger
begin

text \<open>
  \<open>ServerFactory\<close> (src/server_factory.h, src/server_factory.cpp): the virtual calls to the six server
  classes, the creation of the servers from the configuration, start and stop, the senders, and the
  way of an event from a server through the factory. The factory's servers are the world's
  servers, its members extend the world.
\<close>

record fworld = world +
  f_exists :: bool
  m_configuration :: configuration
  m_server_listeners :: "nat list"
  the_logger :: logger

text \<open>What lies outside the program: kernel, string hash, C library, files, indeterminate memory.\<close>

record env =
  e_kernel :: kernel
  e_hash :: "string \<Rightarrow> size_t"
  e_double :: c_double
  e_files :: "string \<Rightarrow> bytes option"
  e_junk :: "nat \<Rightarrow> uint"

section \<open>The virtual methods of the servers\<close>

definition pure_run :: "('s \<Rightarrow> bool \<times> 's) \<Rightarrow> 's \<Rightarrow> fault + bool \<times> 's" where
  "pure_run f w = Inr (f w)"

definition server_init :: "kernel \<Rightarrow> nat \<Rightarrow> 'a world_scheme \<Rightarrow> fault + bool \<times> 'a world_scheme" where
  "server_init k i w = (case s_kind (the_server i w) of
      WebSocketTcpServer \<Rightarrow> ws_init k i w
    | HttpTcpServer \<Rightarrow> http_init k i w
    | InetDomainSocketTcpServer \<Rightarrow> inet_tcp_init k i w
    | InetDomainSocketUdpServer \<Rightarrow> inet_udp_init k i w
    | UnixDomainSocketTcpServer \<Rightarrow> unix_tcp_init k i w
    | UnixDomainSocketUdpServer \<Rightarrow> unix_udp_init k i w)"

definition server_start :: "kernel \<Rightarrow> nat \<Rightarrow> 'a world_scheme \<Rightarrow> bool \<times> 'a world_scheme" where
  "server_start k i w = (case s_kind (the_server i w) of
      WebSocketTcpServer \<Rightarrow> ws_start k i w
    | HttpTcpServer \<Rightarrow> http_start k i w
    | InetDomainSocketTcpServer \<Rightarrow> inet_tcp_start k i w
    | InetDomainSocketUdpServer \<Rightarrow> inet_udp_start k i w
    | UnixDomainSocketTcpServer \<Rightarrow> unix_tcp_start k i w
    | UnixDomainSocketUdpServer \<Rightarrow> unix_udp_start k i w)"

definition server_stop :: "kernel \<Rightarrow> nat \<Rightarrow> 'a world_scheme \<Rightarrow> fault + 'a world_scheme" where
  "server_stop k i w = (case s_kind (the_server i w) of
      WebSocketTcpServer \<Rightarrow> ws_stop k i w
    | HttpTcpServer \<Rightarrow> Inr (http_stop i w)
    | InetDomainSocketTcpServer \<Rightarrow> Inr (inet_tcp_stop i w)
    | InetDomainSocketUdpServer \<Rightarrow> Inr (inet_udp_stop i w)
    | UnixDomainSocketTcpServer \<Rightarrow> Inr (unix_tcp_stop i w)
    | UnixDomainSocketUdpServer \<Rightarrow> Inr (unix_udp_stop i w))"

definition server_sendToClient ::
  "kernel \<Rightarrow> nat \<Rightarrow> size_t \<Rightarrow> bytes \<Rightarrow> uint \<Rightarrow> 'a world_scheme \<Rightarrow> fault + bool \<times> 'a world_scheme" where
  "server_sendToClient k i cid msg len w = (case s_kind (the_server i w) of
      WebSocketTcpServer \<Rightarrow> ws_sendToClient k i cid msg len w
    | HttpTcpServer \<Rightarrow> http_sendToClient k i cid msg len w
    | InetDomainSocketTcpServer \<Rightarrow> inet_tcp_sendToClient k i cid msg len w
    | InetDomainSocketUdpServer \<Rightarrow> inet_udp_sendToClient k i cid msg len w
    | UnixDomainSocketTcpServer \<Rightarrow> unix_tcp_sendToClient k i cid msg len w
    | UnixDomainSocketUdpServer \<Rightarrow> unix_udp_sendToClient k i cid msg len w)"

text \<open>With a protocol: only the websocket server overrides the method that does nothing.\<close>

definition server_sendToClient_protocol ::
  "kernel \<Rightarrow> nat \<Rightarrow> size_t \<Rightarrow> bytes \<Rightarrow> bytes \<Rightarrow> uint \<Rightarrow> 'a world_scheme \<Rightarrow> fault + bool \<times> 'a world_scheme" where
  "server_sendToClient_protocol k i cid protocol msg len w =
     (if s_kind (the_server i w) = WebSocketTcpServer
      then ws_sendToClient_protocol k i cid protocol msg len w else Inr (False, w))"

section \<open>The senders of the factory\<close>

text \<open>
  \<open>sendToServer\<close>: to every client in a copy of the list of every server with the id; the results
  are ignored. \<open>sendToClient\<close>: the first server with the id.
\<close>

definition send_each ::
  "(size_t \<Rightarrow> 'a world_scheme \<Rightarrow> fault + bool \<times> 'a world_scheme) \<Rightarrow> client_info list \<Rightarrow> 'a world_scheme
     \<Rightarrow> fault + 'a world_scheme" where
  "send_each send cs w = rfold (\<lambda>c w. rbind (send (ci_id c) w) (\<lambda>(_, w). Inr w)) cs w"

definition factory_sendToServer_protocol ::
  "kernel \<Rightarrow> size_t \<Rightarrow> bytes \<Rightarrow> bytes \<Rightarrow> uint \<Rightarrow> 'a world_scheme \<Rightarrow> fault + 'a world_scheme" where
  "factory_sendToServer_protocol k sid protocol msg len w =
     rfold (\<lambda>i w. if sid = s_server_id (the_server i w)
                  then send_each (\<lambda>cid. server_sendToClient_protocol k i cid protocol msg len)
                         (s_clients (the_server i w)) w
                  else Inr w) [0 ..< length (servers w)] w"

definition factory_sendToServer ::
  "kernel \<Rightarrow> size_t \<Rightarrow> bytes \<Rightarrow> uint \<Rightarrow> 'a world_scheme \<Rightarrow> fault + 'a world_scheme" where
  "factory_sendToServer k sid msg len w =
     rfold (\<lambda>i w. if sid = s_server_id (the_server i w)
                  then send_each (\<lambda>cid. server_sendToClient k i cid msg len)
                         (s_clients (the_server i w)) w
                  else Inr w) [0 ..< length (servers w)] w"

fun find_server :: "size_t \<Rightarrow> nat list \<Rightarrow> 'a world_scheme \<Rightarrow> nat option" where
  "find_server sid [] w = None"
| "find_server sid (i # is) w = (if sid = s_server_id (the_server i w) then Some i else find_server sid is w)"

definition factory_sendToClient ::
  "kernel \<Rightarrow> size_t \<Rightarrow> size_t \<Rightarrow> bytes \<Rightarrow> uint \<Rightarrow> 'a world_scheme \<Rightarrow> fault + bool \<times> 'a world_scheme" where
  "factory_sendToClient k sid cid msg len w =
     (case find_server sid [0 ..< length (servers w)] w of
        None \<Rightarrow> Inr (False, w)
      | Some i \<Rightarrow> server_sendToClient k i cid msg len w)"

section \<open>start and stop\<close>

fun start_all :: "kernel \<Rightarrow> nat list \<Rightarrow> 'a world_scheme \<Rightarrow> bool \<times> 'a world_scheme" where
  "start_all k [] w = (True, w)"
| "start_all k (i # is) w = (case server_start k i w of (ok, w) \<Rightarrow> if ok then start_all k is w else (False, w))"

definition factory_start :: "kernel \<Rightarrow> 'a world_scheme \<Rightarrow> bool \<times> 'a world_scheme" where
  "factory_start k w = start_all k [0 ..< length (servers w)] w"

definition factory_stop :: "kernel \<Rightarrow> 'a world_scheme \<Rightarrow> fault + 'a world_scheme" where
  "factory_stop k w = rfold (server_stop k) [0 ..< length (servers w)] w"

section \<open>init\<close>

definition FACTORY :: nat where "FACTORY = 0"

text \<open>At most one server may be enabled when security is.\<close>

definition check_restrict_configuration :: "configuration \<Rightarrow> bool" where
  "check_restrict_configuration c =
     (\<not> (enable_security (c_capabilities c) \<and> 1 < length (filter si_enable (server_infos c))))"

text \<open>The macro \<open>ADD_SERVER\<close>: a new server, with the factory as its listener, at the end of the list.\<close>

definition add_server ::
  "(string \<Rightarrow> size_t) \<Rightarrow> server_kind \<Rightarrow> server_info \<Rightarrow> 'a world_scheme \<Rightarrow> nat \<times> 'a world_scheme" where
  "add_server hash kind si w =
     (let s = newBaseServer hash kind (si_header si) (si_bind si) (si_tcp si) (si_max_client si)
      in (length (servers w), w\<lparr>servers := servers w @ [addEventListener FACTORY s]\<rparr>))"

definition certify :: "capabilities \<Rightarrow> nat \<Rightarrow> 'a world_scheme \<Rightarrow> 'a world_scheme" where
  "certify cap i w = upd_server i (setCertification (enable_security cap) (ssl_cert cap)
      (ssl_private_key cap) (ssl_private_key_password cap) (ssl_ca cap)) w"

definition create_server ::
  "env \<Rightarrow> capabilities \<Rightarrow> server_info \<Rightarrow> 'a world_scheme \<Rightarrow> fault + bool \<times> 'a world_scheme" where
  "create_server env cap si w = (case si_kinds si of
      WEBSOCKET \<Rightarrow>
        if si_tcp si then
          (let (i, w) = add_server (e_hash env) WebSocketTcpServer si w
           in rbind (ws_addProtocols (e_kernel env) (si_protocols si) i w) (\<lambda>w.
                Inr (True, certify cap i w)))
        else Inr (False, w)
    | HTTP \<Rightarrow>
        if si_tcp si then
          (let (i, w) = add_server (e_hash env) HttpTcpServer si w;
               w = upd_server i (\<lambda>s. s\<lparr>s_protocols := http_protocols i (e_junk env)\<rparr>) w
           in Inr (True, certify cap i w))
        else Inr (False, w)
    | INETDS \<Rightarrow> Inr (True, snd (add_server (e_hash env)
        (if si_tcp si then InetDomainSocketTcpServer else InetDomainSocketUdpServer) si w))
    | UNIXDS \<Rightarrow> Inr (True, snd (add_server (e_hash env)
        (if si_tcp si then UnixDomainSocketTcpServer else UnixDomainSocketUdpServer) si w))
    | SERVER_KINDS_NUM \<Rightarrow> Inr (True, w))"

fun create_servers ::
  "env \<Rightarrow> capabilities \<Rightarrow> server_info list \<Rightarrow> 'a world_scheme \<Rightarrow> fault + bool \<times> 'a world_scheme" where
  "create_servers env cap [] w = Inr (True, w)"
| "create_servers env cap (si # sis) w =
     (if si_enable si
      then rbind (create_server env cap si w) (\<lambda>(ok, w).
             if ok then create_servers env cap sis w else Inr (False, w))
      else create_servers env cap sis w)"

fun init_all :: "kernel \<Rightarrow> nat list \<Rightarrow> 'a world_scheme \<Rightarrow> fault + bool \<times> 'a world_scheme" where
  "init_all k [] w = Inr (True, w)"
| "init_all k (i # is) w =
     rbind (server_init k i w) (\<lambda>(ok, w). if ok then init_all k is w else Inr (False, w))"

definition configure_logger :: "configuration \<Rightarrow> logger \<Rightarrow> logger" where
  "configure_logger c = (let l = c_log c in
     setLogLevel (enable_info l) (enable_debug l) (enable_warn l) (enable_error l)
       (enable_filewrite l) (filesize l) (directory l) (c_name c))"

definition factory_init ::
  "env \<Rightarrow> string \<Rightarrow> 'a fworld_scheme \<Rightarrow> fault + bool \<times> 'a fworld_scheme" where
  "factory_init env config_file w =
     (let (ok, c) = init_configuration (e_double env) (e_files env) config_file (m_configuration w);
          w = w\<lparr>m_configuration := c\<rparr>
      in if \<not> ok then Inr (False, w) else
     let w = w\<lparr>the_logger := configure_logger c (the_logger w)\<rparr>
      in if \<not> check_restrict_configuration c then Inr (False, w) else
     rbind (create_servers env (c_capabilities c) (server_infos c) w) (\<lambda>(ok, w).
       if \<not> ok then Inr (False, w)
       else init_all (e_kernel env) [0 ..< length (servers w)] w))"

section \<open>The instance, the listeners, the events\<close>

definition newServerFactory :: "'a fworld_scheme \<Rightarrow> 'a fworld_scheme" where
  "newServerFactory w = w\<lparr>f_exists := True, servers := [], m_configuration := newJsonConfiguration,
     m_server_listeners := []\<rparr>"

definition factory_getInstance :: "'a fworld_scheme \<Rightarrow> 'a fworld_scheme" where
  "factory_getInstance w = (if f_exists w then w else newServerFactory w)"

definition factory_addEventListener :: "nat \<Rightarrow> 'a fworld_scheme \<Rightarrow> 'a fworld_scheme" where
  "factory_addEventListener l w = w\<lparr>m_server_listeners := m_server_listeners w @ [l]\<rparr>"

definition factory_removeEventListener :: "nat \<Rightarrow> 'a fworld_scheme \<Rightarrow> 'a fworld_scheme" where
  "factory_removeEventListener l w = w\<lparr>m_server_listeners := erase_first l (m_server_listeners w)\<rparr>"

text \<open>
  The four listener methods of the factory: the event goes to the factory's own listeners, whose
  methods are \<open>up\<close>; a message without protocol is echoed afterwards when the configuration asks
  for it, and the result of the echo is ignored.
\<close>

definition factory_forward :: "'a listener \<Rightarrow> nat list \<Rightarrow> event \<Rightarrow> 'a world_scheme \<Rightarrow> fault + 'a world_scheme" where
  "factory_forward up ls e w = rfold (\<lambda>l w. up l e (observe (Notified Factory_Listener l e) w)) ls w"

definition factory_echo :: "kernel \<Rightarrow> bool \<Rightarrow> event \<Rightarrow> 'a world_scheme \<Rightarrow> fault + 'a world_scheme" where
  "factory_echo k enabled e w = (case e of
      Received sid cid msg len \<Rightarrow>
        if enabled then rbind (factory_sendToClient k sid cid msg len w) (\<lambda>(_, w). Inr w) else Inr w
    | _ \<Rightarrow> Inr w)"

definition factory_event ::
  "kernel \<Rightarrow> (nat \<Rightarrow> event \<Rightarrow> 'a fworld_scheme \<Rightarrow> fault + 'a fworld_scheme) \<Rightarrow> nat \<Rightarrow> event
     \<Rightarrow> 'a fworld_scheme \<Rightarrow> fault + 'a fworld_scheme" where
  "factory_event k up l e w =
     (if l \<noteq> FACTORY then Inl Wild_Deref else
      rbind (factory_forward up (m_server_listeners w) e w) (\<lambda>w.
        factory_echo k (enable_echo_test (m_configuration w)) e w))"

text \<open>\<open>__deinit__\<close> of the factory: it stops listening to its servers.\<close>

definition factory_deinit :: "'a world_scheme \<Rightarrow> 'a world_scheme" where
  "factory_deinit w = w\<lparr>servers := List.map (removeEventListener FACTORY) (servers w)\<rparr>"

end
