(* ===== verification/Signal_Interceptor.thy ===== *)
theory Signal_Interceptor
  imports Prelude
begin

text \<open>
  \<open>PosixSignalInterceptor\<close> (src/posix_signal_interceptor.h and .cpp): handlers per signal in a
  multimap, the dispositions found when a signal was first taken over in a map, the global pointer
  to the one instance. The process's dispositions are explicit state. The lemmas show that a raised
  signal reaches its handlers in the order of registration, and that the destructor puts every
  disposition back.
\<close>

text \<open>A disposition: the two standard ones, the interceptor's trampoline, a foreign function.\<close>

datatype disposition = SIG_DFL | SIG_IGN | SIG_ERR | InterceptorSignalHandler | Foreign nat

record 'h interceptor =
  signal_handlers :: "(int \<times> 'h) list"
  previous_handlers :: "(int \<times> disposition) list"

record signal_state =
  g_Current :: "nat option"
  dispositions :: "int \<Rightarrow> disposition"

text \<open>
  \<open>std::signal\<close>: sets the disposition and returns the old one; \<open>SIG_ERR\<close>, and nothing changed, for
  a signal that cannot be caught or a handler that is none. \<open>catchable\<close> is the system's.
\<close>

definition std_signal ::
  "(int \<Rightarrow> bool) \<Rightarrow> int \<Rightarrow> disposition \<Rightarrow> signal_state \<Rightarrow> disposition \<times> signal_state" where
  "std_signal catchable sig h s =
     (if catchable sig \<and> h \<noteq> SIG_ERR
      then (dispositions s sig, s\<lparr>dispositions := (dispositions s)(sig := h)\<rparr>) else (SIG_ERR, s))"

text \<open>The containers: a multimap keeps equal keys in the order of insertion.\<close>

fun mm_insert :: "int \<Rightarrow> 'v \<Rightarrow> (int \<times> 'v) list \<Rightarrow> (int \<times> 'v) list" where
  "mm_insert k v [] = [(k, v)]"
| "mm_insert k v ((k', v') # xs) = (if k' \<le> k then (k', v') # mm_insert k v xs else (k, v) # (k', v') # xs)"

definition equal_range :: "int \<Rightarrow> (int \<times> 'v) list \<Rightarrow> (int \<times> 'v) list" where
  "equal_range k xs = takeWhile (\<lambda>(k', v). k' = k) (dropWhile (\<lambda>(k', v). k' < k) xs)"

section \<open>The operations\<close>

definition new_interceptor :: "nat \<Rightarrow> signal_state \<Rightarrow> fault + 'h interceptor \<times> signal_state" where
  "new_interceptor this s =
     (if g_Current s \<noteq> None then Inl Aborted
      else Inr (\<lparr>signal_handlers = [], previous_handlers = []\<rparr>, s\<lparr>g_Current := Some this\<rparr>))"

definition HandleSignal ::
  "(int \<Rightarrow> bool) \<Rightarrow> int \<Rightarrow> 'h \<Rightarrow> 'h interceptor \<times> signal_state \<Rightarrow> 'h interceptor \<times> signal_state" where
  "HandleSignal catchable sig h = (\<lambda>(p, s).
     let (p, s) = (if map_of (previous_handlers p) sig = None
           then (let (old, s) = std_signal catchable sig InterceptorSignalHandler s
                  in (p\<lparr>previous_handlers := mm_insert sig old (previous_handlers p)\<rparr>, s))
           else (p, s))
      in (p\<lparr>signal_handlers := mm_insert sig h (signal_handlers p)\<rparr>, s))"

definition HandleSignals ::
  "(int \<Rightarrow> bool) \<Rightarrow> int list \<Rightarrow> 'h \<Rightarrow> 'h interceptor \<times> signal_state \<Rightarrow> 'h interceptor \<times> signal_state" where
  "HandleSignals catchable sigs h ps = fold (\<lambda>sig. HandleSignal catchable sig h) sigs ps"

text \<open>\<open>run\<close> calls one handler.\<close>

definition RaiseSignal ::
  "('h \<Rightarrow> int \<Rightarrow> 's \<Rightarrow> fault + 's) \<Rightarrow> 'h interceptor \<Rightarrow> int \<Rightarrow> 's \<Rightarrow> fault + 's" where
  "RaiseSignal run p sig w = rfold (\<lambda>(k, h). run h sig) (equal_range sig (signal_handlers p)) w"

text \<open>
  The delivery of a signal to the process: only a disposition that is the trampoline reaches the
  interceptor, and it must be alive.
\<close>

definition deliver ::
  "('h \<Rightarrow> int \<Rightarrow> 's \<Rightarrow> fault + 's) \<Rightarrow> 'h interceptor \<Rightarrow> signal_state \<Rightarrow> int \<Rightarrow> 's \<Rightarrow> fault + 's" where
  "deliver run p s sig w =
     (if dispositions s sig \<noteq> InterceptorSignalHandler then Inr w
      else if g_Current s = None then Inl Aborted
      else RaiseSignal run p sig w)"

definition delete_interceptor ::
  "(int \<Rightarrow> bool) \<Rightarrow> nat \<Rightarrow> 'h interceptor \<times> signal_state \<Rightarrow> fault + signal_state" where
  "delete_interceptor catchable this = (\<lambda>(p, s).
     let s = fold (\<lambda>(sig, old) s. snd (std_signal catchable sig old s)) (previous_handlers p) s
      in if g_Current s \<noteq> Some this then Inl Aborted else Inr (s\<lparr>g_Current := None\<rparr>))"

section \<open>The multimap\<close>

lemma set_mm_insert [simp]: "set (mm_insert k v xs) = insert (k, v) (set xs)"
  by (induction xs) (auto split: if_splits)

lemma sorted_mm_insert: "sorted (List.map fst xs) \<Longrightarrow> sorted (List.map fst (mm_insert k v xs))"
  by (induction xs) (fastforce simp: less_imp_le split: if_splits)+

lemma equal_range_filter: "sorted (List.map fst xs) \<Longrightarrow> equal_range k xs = filter (\<lambda>(k', v). k' = k) xs"
proof (induction xs)
  case Nil
  then show ?case by (simp add: equal_range_def)
next
  case (Cons x xs)
  have eq: "takeWhile (\<lambda>(k', v). k' = k) ys = filter (\<lambda>(k', v). k' = k) ys"
    if "sorted (List.map fst ys)" "\<forall>y \<in> set ys. k \<le> fst y" for ys :: "(int \<times> 'a) list"
    using that
  proof (induction ys)
    case (Cons y ys)
    show ?case
    proof (cases "fst y = k")
      case True
      with Cons show ?thesis by (auto split: prod.splits)
    next
      case False
      with Cons.prems have "\<forall>z \<in> set (y # ys). fst z \<noteq> k" by fastforce
      then have "filter (\<lambda>(k', v). k' = k) (y # ys) = []" by (auto simp: filter_empty_conv)
      with False show ?thesis by (cases y) simp
    qed
  qed simp
  show ?case
  proof (cases "fst x < k")
    case True
    with Cons show ?thesis by (auto simp: equal_range_def split: prod.splits)
  next
    case False
    with Cons.prems have "\<forall>y \<in> set (x # xs). k \<le> fst y" by fastforce
    with eq [of "x # xs"] Cons.prems False show ?thesis
      by (auto simp: equal_range_def split: prod.splits)
  qed
qed

lemma filter_mm_insert:
  "sorted (List.map fst xs) \<Longrightarrow> filter (\<lambda>(k', v). k' = k) (mm_insert j v xs)
     = filter (\<lambda>(k', v). k' = k) xs @ (if j = k then [(j, v)] else [])"
proof (induction xs)
  case Nil
  then show ?case by simp
next
  case (Cons x xs)
  obtain k' v' where x: "x = (k', v')" by (cases x)
  show ?case
  proof (cases "k' \<le> j")
    case True
    with Cons x show ?thesis by auto
  next
    case False
    have "filter (\<lambda>(k', v). k' = k) (x # xs) = []" if "j = k"
      using Cons.prems False x that by (fastforce simp: filter_empty_conv)
    with False x show ?thesis by auto
  qed
qed

definition registered :: "'h interceptor \<Rightarrow> int \<Rightarrow> 'h list" where
  "registered p sig = List.map snd (equal_range sig (signal_handlers p))"

section \<open>Registration and delivery\<close>

text \<open>
  The invariant of the object: the multimap is sorted, the trampoline was installed exactly for the
  signals in the map that can be caught, and the map holds the dispositions found before
  (\<open>before\<close>), which are still in force for every other signal.
\<close>

definition sig_inv ::
  "(int \<Rightarrow> bool) \<Rightarrow> (int \<Rightarrow> disposition) \<Rightarrow> 'h interceptor \<times> signal_state \<Rightarrow> bool" where
  "sig_inv catchable before = (\<lambda>(p, s).
     sorted (List.map fst (signal_handlers p)) \<and> distinct (List.map fst (previous_handlers p))
   \<and> fst ` set (signal_handlers p) = fst ` set (previous_handlers p)
   \<and> (\<forall>(sig, old) \<in> set (previous_handlers p). old = (if catchable sig then before sig else SIG_ERR))
   \<and> (\<forall>sig. dispositions s sig = (if catchable sig \<and> sig \<in> fst ` set (previous_handlers p)
        then InterceptorSignalHandler else before sig)))"

lemma distinct_mm_insert:
  "distinct (List.map fst xs) \<Longrightarrow> k \<notin> fst ` set xs \<Longrightarrow> distinct (List.map fst (mm_insert k v xs))"
  by (induction xs) auto

lemma HandleSignal_inv:
  assumes "sig_inv catchable before ps"
  shows "sig_inv catchable before (HandleSignal catchable sig h ps)"
proof -
  obtain p s where ps: "ps = (p, s)" by (cases ps)
  show ?thesis
  proof (cases "map_of (previous_handlers p) sig")
    case None
    then have new: "sig \<notin> fst ` set (previous_handlers p)" by (simp add: map_of_eq_None_iff)
    with None assms show ?thesis
      by (auto simp: ps HandleSignal_def sig_inv_def std_signal_def Let_def sorted_mm_insert
          distinct_mm_insert split: if_splits)
  next
    case (Some old)
    then have "sig \<in> fst ` set (previous_handlers p)" by (metis domI dom_map_of_conv_image_fst)
    with Some assms show ?thesis
      by (auto simp: ps HandleSignal_def sig_inv_def Let_def sorted_mm_insert insert_absorb)
  qed
qed

lemma HandleSignal_registered:
  assumes "sig_inv catchable before ps"
  shows "registered (fst (HandleSignal catchable sig h ps)) k
       = registered (fst ps) k @ (if sig = k then [h] else [])"
proof -
  obtain p s where ps: "ps = (p, s)" by (cases ps)
  with assms have sd: "sorted (List.map fst (signal_handlers p))" by (simp add: sig_inv_def)
  have "signal_handlers (fst (HandleSignal catchable sig h ps)) = mm_insert sig h (signal_handlers p)"
    by (simp add: ps HandleSignal_def Let_def split: prod.splits)
  with sd show ?thesis
    by (simp add: ps registered_def equal_range_filter sorted_mm_insert filter_mm_insert)
qed

lemma HandleSignal_current: "g_Current (snd (HandleSignal catchable sig h ps)) = g_Current (snd ps)"
  by (cases ps) (simp add: HandleSignal_def std_signal_def Let_def)

lemma HandleSignals_run:
  "sig_inv catchable before ps \<Longrightarrow> sig_inv catchable before (HandleSignals catchable sigs h ps)
     \<and> registered (fst (HandleSignals catchable sigs h ps)) k = registered (fst ps) k @ replicate (count_list sigs k) h
     \<and> g_Current (snd (HandleSignals catchable sigs h ps)) = g_Current (snd ps)"
proof (induction sigs arbitrary: ps)
  case Nil
  then show ?case by (simp add: HandleSignals_def)
next
  case (Cons sig sigs)
  from Cons.IH [OF HandleSignal_inv [OF Cons.prems]] show ?case
    by (simp add: HandleSignals_def HandleSignal_registered [OF Cons.prems] HandleSignal_current)
qed

lemma new_interceptor_inv:
  "new_interceptor this s = Inr ps \<Longrightarrow>
   sig_inv catchable (dispositions s) ps \<and> g_Current (snd ps) = Some this \<and> registered (fst ps) k = []"
  by (auto simp: new_interceptor_def sig_inv_def registered_def equal_range_def split: if_splits)

lemma rfold_snd: "rfold (\<lambda>(k, h). f h) xs w = rfold f (List.map snd xs) w"
  by (induction xs arbitrary: w) (auto simp: fun_eq_iff intro!: arg_cong [where f = "rbind _"])

lemma RaiseSignal_registered: "RaiseSignal run p sig w = rfold (\<lambda>h. run h sig) (registered p sig) w"
  by (simp add: RaiseSignal_def registered_def rfold_snd)

lemma registered_iff:
  assumes "sig_inv catchable before (p, s)"
  shows "registered p sig \<noteq> [] \<longleftrightarrow> sig \<in> fst ` set (previous_handlers p)"
proof -
  have "registered p sig \<noteq> [] \<longleftrightarrow> sig \<in> fst ` set (signal_handlers p)"
  proof -
    have "sorted (List.map fst (signal_handlers p))" using assms by (simp add: sig_inv_def)
    then have "registered p sig = List.map snd (filter (\<lambda>(k, v). k = sig) (signal_handlers p))"
      by (simp add: registered_def equal_range_filter)
    then show ?thesis by (force simp: filter_empty_conv)
  qed
  with assms show ?thesis by (simp add: sig_inv_def)
qed

section \<open>The destructor\<close>

lemma restore_dispositions:
  assumes "distinct (List.map fst xs)"
    and "\<And>sig old. (sig, old) \<in> set xs \<Longrightarrow> old = (if catchable sig then before sig else SIG_ERR)"
    and "\<And>sig. catchable sig \<Longrightarrow> before sig \<noteq> SIG_ERR"
  shows "dispositions (fold (\<lambda>(sig, old) s. snd (std_signal catchable sig old s)) xs s)
       = (\<lambda>sig. if catchable sig \<and> sig \<in> fst ` set xs then before sig else dispositions s sig)
     \<and> g_Current (fold (\<lambda>(sig, old) s. snd (std_signal catchable sig old s)) xs s) = g_Current s"
  using assms(1,2)
proof (induction xs arbitrary: s)
  case Nil
  then show ?case by simp
next
  case (Cons x xs)
  obtain sig old where x: "x = (sig, old)" by (cases x)
  with Cons.prems have old: "old = (if catchable sig then before sig else SIG_ERR)"
    and "sig \<notin> fst ` set xs" by auto
  moreover from Cons have "dispositions (fold (\<lambda>(sig, old) s. snd (std_signal catchable sig old s)) xs t)
       = (\<lambda>sig. if catchable sig \<and> sig \<in> fst ` set xs then before sig else dispositions t sig)
     \<and> g_Current (fold (\<lambda>(sig, old) s. snd (std_signal catchable sig old s)) xs t) = g_Current t" for t
    by auto
  ultimately show ?case using assms(3) [of sig]
    by (auto simp: x std_signal_def fun_eq_iff)
qed

lemma delete_interceptor_run:
  assumes inv: "sig_inv catchable before (p, s)" and cur: "g_Current s = Some this"
    and err: "\<And>sig. catchable sig \<Longrightarrow> before sig \<noteq> SIG_ERR"
  shows "\<exists>s'. delete_interceptor catchable this (p, s) = Inr s' \<and> dispositions s' = before \<and> g_Current s' = None"
proof -
  have d: "distinct (List.map fst (previous_handlers p))" using inv by (simp add: sig_inv_def)
  have "\<And>sig old. (sig, old) \<in> set (previous_handlers p) \<Longrightarrow>
      old = (if catchable sig then before sig else SIG_ERR)"
    using inv by (auto simp: sig_inv_def)
  from restore_dispositions [OF d this err] inv cur show ?thesis
    by (auto simp: delete_interceptor_def sig_inv_def Let_def fun_eq_iff)
qed

end
