(* ===== verification/AnyServer.thy ===== *)
theory AnyServer
  imports Server_Factory Signal_Interceptor
begin

text \<open>
  \<open>AnyServer\<close> and \<open>AnyServerImpl\<close> (include/anyserver.h, src/anyserver.cpp, src/anyserver_impl.h and
  .cpp): the public interface over the factory and the signal interceptor, the forwarding of events
  to the application's listeners, and what application code may do in a notification. The
  application is a parameter: for each listener, the calls of the public interface it makes when it
  receives an event, given the trace so far. The theory links the layers: the dispatcher of the
  program is the listener the servers were verified against.
\<close>

record aworld = fworld +
  a_instance :: bool
  m_run :: bool
  m_config_file :: string
  m_listeners :: "nat list"
  m_server_factory :: size_t
  m_interceptor :: "nat interceptor"
  signals :: signal_state

definition ANYSERVER :: nat where "ANYSERVER = 0"

text \<open>The address of the factory; any other value but 0 is an indeterminate pointer.\<close>

definition FACTORY_PTR :: size_t where "FACTORY_PTR = 1"

definition on_factory :: "('b aworld_scheme \<Rightarrow> fault + 'r) \<Rightarrow> 'b aworld_scheme \<Rightarrow> fault + 'r" where
  "on_factory f w =
     (if m_server_factory w = 0 then Inl Null_Deref
      else if m_server_factory w \<noteq> FACTORY_PTR then Inl Wild_Deref
      else f w)"

section \<open>The public interface\<close>

text \<open>
  The constructor does not initialise \<open>m_server_factory\<close>: \<open>junk\<close> is what the memory holds.
\<close>

definition newAnyServerImpl :: "size_t \<Rightarrow> string \<Rightarrow> 'b aworld_scheme \<Rightarrow> fault + 'b aworld_scheme" where
  "newAnyServerImpl junk config_file w =
     rbind (new_interceptor ANYSERVER (signals w)) (\<lambda>(p, s).
       Inr (w\<lparr>a_instance := True, m_run := False, m_config_file := config_file, m_listeners := [],
              m_server_factory := junk, m_interceptor := p, signals := s\<rparr>))"

definition getInstance :: "size_t \<Rightarrow> string \<Rightarrow> 'b aworld_scheme \<Rightarrow> fault + 'b aworld_scheme" where
  "getInstance junk config_file w =
     (if a_instance w then Inr w else newAnyServerImpl junk config_file w)"

text \<open>From the command line: a missing argument is a null pointer, from which no string is made.\<close>

definition getInstance_args :: "size_t \<Rightarrow> string list \<Rightarrow> 'b aworld_scheme \<Rightarrow> fault + 'b aworld_scheme" where
  "getInstance_args junk argv w =
     (if a_instance w then Inr w
      else case argv of
             [] \<Rightarrow> Inl Over_Read
           | [_] \<Rightarrow> Inl (Uncaught ''logic_error'')
           | _ # config_file # _ \<Rightarrow> newAnyServerImpl junk config_file w)"

definition any_addEventListener :: "nat \<Rightarrow> 'b aworld_scheme \<Rightarrow> 'b aworld_scheme" where
  "any_addEventListener l w = w\<lparr>m_listeners := m_listeners w @ [l]\<rparr>"

definition any_removeEventListener :: "nat \<Rightarrow> 'b aworld_scheme \<Rightarrow> 'b aworld_scheme" where
  "any_removeEventListener l w = w\<lparr>m_listeners := erase_first l (m_listeners w)\<rparr>"

definition SIGHUP :: int where "SIGHUP = 1"
definition SIGINT :: int where "SIGINT = 2"
definition SIGQUIT :: int where "SIGQUIT = 3"
definition SIGTERM :: int where "SIGTERM = 15"

definition signal_ids :: "int list" where
  "signal_ids = [SIGINT, SIGQUIT, SIGTERM, SIGHUP]"

text \<open>Nothing is done when the pointer is not null. \<open>catchable\<close> is the system's.\<close>

definition any_init ::
  "env \<Rightarrow> (int \<Rightarrow> bool) \<Rightarrow> 'b aworld_scheme \<Rightarrow> fault + bool \<times> 'b aworld_scheme" where
  "any_init env catchable w =
     (if m_server_factory w \<noteq> 0 then Inr (True, w) else
      let w = factory_getInstance w;
          w = w\<lparr>m_server_factory := FACTORY_PTR\<rparr>;
          w = factory_addEventListener ANYSERVER w
      in rbind (factory_init env (m_config_file w) w) (\<lambda>(ok, w).
           if \<not> ok then Inr (False, w)
           else let (p, s) = HandleSignals catchable signal_ids ANYSERVER (m_interceptor w, signals w)
                in Inr (True, w\<lparr>m_interceptor := p, signals := s\<rparr>)))"

definition any_start :: "kernel \<Rightarrow> 'b aworld_scheme \<Rightarrow> fault + bool \<times> 'b aworld_scheme" where
  "any_start k = on_factory (\<lambda>w.
     let (ok, w) = factory_start k w in Inr (if ok then (True, w\<lparr>m_run := True\<rparr>) else (False, w)))"

definition any_stop :: "kernel \<Rightarrow> 'b aworld_scheme \<Rightarrow> fault + 'b aworld_scheme" where
  "any_stop k = on_factory (\<lambda>w. rbind (factory_stop k w) (\<lambda>w. Inr (w\<lparr>m_run := False\<rparr>)))"

definition isRun :: "'b aworld_scheme \<Rightarrow> bool" where
  "isRun w = m_run w"

text \<open>
  \<open>getServerList\<close>: pointers to the same server objects, under new owners of their own.
\<close>

definition getServerList :: "'b aworld_scheme \<Rightarrow> fault + nat list" where
  "getServerList = on_factory (\<lambda>w. Inr [0 ..< length (servers w)])"

definition any_sendToServer_protocol ::
  "kernel \<Rightarrow> size_t \<Rightarrow> bytes \<Rightarrow> bytes \<Rightarrow> uint \<Rightarrow> 'b aworld_scheme \<Rightarrow> fault + 'b aworld_scheme" where
  "any_sendToServer_protocol k sid protocol msg len =
     on_factory (factory_sendToServer_protocol k sid protocol msg len)"

definition any_sendToServer ::
  "kernel \<Rightarrow> size_t \<Rightarrow> bytes \<Rightarrow> uint \<Rightarrow> 'b aworld_scheme \<Rightarrow> fault + 'b aworld_scheme" where
  "any_sendToServer k sid msg len = on_factory (factory_sendToServer k sid msg len)"

definition any_sendToClient ::
  "kernel \<Rightarrow> size_t \<Rightarrow> size_t \<Rightarrow> bytes \<Rightarrow> uint \<Rightarrow> 'b aworld_scheme \<Rightarrow> fault + bool \<times> 'b aworld_scheme" where
  "any_sendToClient k sid cid msg len = on_factory (factory_sendToClient k sid cid msg len)"

section \<open>The application\<close>

datatype api_call =
    SendToServer size_t bytes uint
  | SendToServerProtocol size_t bytes bytes uint
  | SendToClient size_t size_t bytes uint
  | Stop

type_synonym app = "nat \<Rightarrow> obs list \<Rightarrow> event \<Rightarrow> api_call list"

fun run_api :: "kernel \<Rightarrow> api_call \<Rightarrow> 'b aworld_scheme \<Rightarrow> fault + 'b aworld_scheme" where
  "run_api k (SendToServer sid msg len) w = any_sendToServer k sid msg len w"
| "run_api k (SendToServerProtocol sid protocol msg len) w = any_sendToServer_protocol k sid protocol msg len w"
| "run_api k (SendToClient sid cid msg len) w =
     rbind (any_sendToClient k sid cid msg len w) (\<lambda>(_, w). Inr w)"
| "run_api k Stop w = any_stop k w"

definition user_event :: "kernel \<Rightarrow> app \<Rightarrow> nat \<Rightarrow> event \<Rightarrow> 'b aworld_scheme \<Rightarrow> fault + 'b aworld_scheme" where
  "user_event k app u e w = rfold (run_api k) (app u (trace w) e) w"

text \<open>The five listener methods of \<open>AnyServerImpl\<close> run the same loop over the listeners.\<close>

definition notify_users ::
  "kernel \<Rightarrow> app \<Rightarrow> event \<Rightarrow> 'b aworld_scheme \<Rightarrow> fault + 'b aworld_scheme" where
  "notify_users k app e w =
     rfold (\<lambda>u w. user_event k app u e (observe (Notified User_Listener u e) w)) (m_listeners w) w"

definition any_event ::
  "kernel \<Rightarrow> app \<Rightarrow> nat \<Rightarrow> event \<Rightarrow> 'b aworld_scheme \<Rightarrow> fault + 'b aworld_scheme" where
  "any_event k app l e w = (if l \<noteq> ANYSERVER then Inl Wild_Deref else notify_users k app e w)"

definition dispatch ::
  "kernel \<Rightarrow> app \<Rightarrow> nat \<Rightarrow> event \<Rightarrow> 'b aworld_scheme \<Rightarrow> fault + 'b aworld_scheme" where
  "dispatch k app = factory_event k (any_event k app)"

definition onReceivedPosixSignal ::
  "kernel \<Rightarrow> app \<Rightarrow> nat \<Rightarrow> int \<Rightarrow> 'b aworld_scheme \<Rightarrow> fault + 'b aworld_scheme" where
  "onReceivedPosixSignal k app h sig w = notify_users k app (System_Signal sig) w"

text \<open>A signal of the process.\<close>

definition process_signal ::
  "kernel \<Rightarrow> app \<Rightarrow> int \<Rightarrow> 'b aworld_scheme \<Rightarrow> fault + 'b aworld_scheme" where
  "process_signal k app sig w =
     deliver (onReceivedPosixSignal k app) (m_interceptor w) (signals w) sig w"

section \<open>Destruction\<close>

definition server_destroy :: "kernel \<Rightarrow> nat \<Rightarrow> 'a world_scheme \<Rightarrow> fault + 'a world_scheme" where
  "server_destroy k i w = (case s_kind (the_server i w) of
      WebSocketTcpServer \<Rightarrow> ws_destroy k i w
    | HttpTcpServer \<Rightarrow> Inr (http_destroy k i w)
    | InetDomainSocketTcpServer \<Rightarrow> Inr (inet_tcp_stop i w)
    | InetDomainSocketUdpServer \<Rightarrow> Inr (inet_udp_stop i w)
    | UnixDomainSocketTcpServer \<Rightarrow> Inr (unix_tcp_stop i w)
    | UnixDomainSocketUdpServer \<Rightarrow> Inr (unix_udp_stop i w))"

definition factory_destroyInstance :: "kernel \<Rightarrow> 'a fworld_scheme \<Rightarrow> fault + 'a fworld_scheme" where
  "factory_destroyInstance k w =
     (if \<not> f_exists w then Inr w else
      rbind (rfold (server_destroy k) [0 ..< length (servers w)] (factory_deinit w)) (\<lambda>w.
        Inr (w\<lparr>f_exists := False, servers := []\<rparr>)))"

definition deleteAnyServerImpl ::
  "kernel \<Rightarrow> (int \<Rightarrow> bool) \<Rightarrow> 'b aworld_scheme \<Rightarrow> fault + 'b aworld_scheme" where
  "deleteAnyServerImpl k catchable w =
     rbind (delete_interceptor catchable ANYSERVER (m_interceptor w, signals w)) (\<lambda>s.
       factory_destroyInstance k (w\<lparr>signals := s\<rparr>))"

section \<open>What a notification leaves alone\<close>

text \<open>
  The calls of the public interface that application code makes add quiet observations and change
  run flags and thread states of servers, and nothing else.
\<close>

named_theorems calm_intros \<open>operations that leave clients, contexts and descriptors alone\<close>

lemma calm_sys: "quiet (Call c (k (trace w) c)) \<Longrightarrow> calm w (snd (sys k c w))"
  by simp

lemma calm_upd_server:
  assumes "stable_server (the_server i w) (f (the_server i w))"
  shows "calm w (upd_server i f w)"
proof -
  have "list_all2 stable_server (servers w) ((servers w)[i := f (servers w ! i)])"
  proof (rule list_all2_all_nthI)
    fix j assume "j < length (servers w)"
    with assms show "stable_server (servers w ! j) ((servers w)[i := f (servers w ! i)] ! j)"
      by (cases "j = i") (simp_all add: the_server_def)
  qed simp
  then show ?thesis by (simp add: calm_def upd_server_def)
qed

lemma calm_then: "calm u v \<Longrightarrow> quiet ob \<Longrightarrow> calm u (observe ob v)"
  by (rule calm_trans [OF _ calm_observe])

lemma calm_clear_run [calm_intros]: "calm w (clear_run i w)"
  unfolding clear_run_def by (rule calm_upd_server) (simp add: stable_server_def)

lemma calm_rfold:
  assumes "rfold f xs w = Inr w'" "\<And>x u v. f x u = Inr v \<Longrightarrow> calm u v"
  shows "calm w w'"
  using assms(1)
proof (induction xs arbitrary: w)
  case (Cons x xs)
  then show ?case using assms(2) calm_trans by fastforce
qed simp

lemma calm_tcp_send [calm_intros]: "tcp_sendToClient k i cid msg len w = Inr (b, w') \<Longrightarrow> calm w w'"
  by (auto simp: tcp_sendToClient_def sys_def Let_def split: option.splits)

lemma calm_udp_send [calm_intros]: "udp_sendToClient k i cid msg len w = Inr (b, w') \<Longrightarrow> calm w w'"
  by (auto simp: udp_sendToClient_def sys_def Let_def split: option.splits)

lemma calm_http_headers: "http_add_headers k wsi hs h w = (x, w') \<Longrightarrow> calm w w'"
proof (induction k wsi hs h w rule: http_add_headers.induct)
  case (1 k wsi h w)
  then show ?case by (auto simp: sys_def Let_def)
next
  case (2 k wsi name v hs h w)
  let ?c = "Lws_Add_Header wsi name v" let ?w = "observe (Call ?c (k (trace w) ?c)) w"
  have w: "calm w ?w" by simp
  show ?case
  proof (cases "r_ret (k (trace w) ?c) = 0")
    case True
    with "2.prems" have "http_add_headers k wsi hs (h @ r_data (k (trace w) ?c)) ?w = (x, w')"
      by (simp add: sys_def Let_def)
    with "2.IH" [OF _ _ _ this] True have "calm ?w w'" by (auto simp: sys_def Let_def)
    with w show ?thesis by (rule calm_trans)
  next
    case False
    with "2.prems" w show ?thesis by (auto simp: sys_def Let_def)
  qed
qed

lemma calm_http_send [calm_intros]:
  assumes "http_sendToClient k i cid msg len w = Inr (b, w')"
  shows "calm w w'"
proof -
  from assms obtain c wsi where wsi: "findClientInfo cid (s_clients (the_server i w)) = Some c"
      "http_wsi_of c = Inr wsi"
    by (auto simp: http_sendToClient_def split: option.splits)
  obtain h ok w1 where h: "http_add_headers k wsi (http_headers len) [] w = ((h, ok), w1)"
    by (metis prod.exhaust)
  have "calm w1 w'"
    using assms wsi h
    by (auto simp: http_sendToClient_def sys_def Let_def split: if_splits intro!: calm_then)
  with calm_http_headers [OF h] show ?thesis by (rule calm_trans)
qed

lemma calm_ws_send [calm_intros]: "ws_sendToClient k i cid msg len w = Inr (b, w') \<Longrightarrow> calm w w'"
  by (auto simp: ws_sendToClient_def sys_def Let_def split: option.splits)

lemma calm_ws_send_protocol [calm_intros]:
  "ws_sendToClient_protocol k i cid p msg len w = Inr (b, w') \<Longrightarrow> calm w w'"
  by (auto simp: ws_sendToClient_protocol_def sys_def Let_def split: option.splits if_splits)

lemma calm_server_send:
  "server_sendToClient k i cid msg len w = Inr (b, w') \<Longrightarrow> calm w w'"
  "server_sendToClient_protocol k i cid p msg len w = Inr (b, w') \<Longrightarrow> calm w w'"
  by (auto simp: server_sendToClient_def server_sendToClient_protocol_def inet_tcp_sendToClient_def
      unix_tcp_sendToClient_def inet_udp_sendToClient_def unix_udp_sendToClient_def
      intro: calm_intros split: server_kind.splits if_splits)

lemma calm_ws_stop:
  assumes "ws_stop k i w = Inr w'" "s_kind (the_server i w) = WebSocketTcpServer"
  shows "calm w w'"
proof -
  let ?w1 = "clear_run i w" let ?r = "k (trace ?w1) (Pthread_Join i)"
  let ?w2 = "observe (Call (Pthread_Join i) ?r) ?w1"
  have "calm w ?w2" using calm_clear_run [of w i] by (rule calm_trans) simp
  moreover have "calm ?w2 (upd_server i (\<lambda>s. s\<lparr>s_thread := Thread_Joined\<rparr>) ?w2)"
    using assms(2) by (intro calm_upd_server)
      (cases "i < length (servers w)", simp_all add: stable_server_def clear_run_def the_server_def upd_server_def
          not_less list_update_beyond)
  ultimately show ?thesis
    using assms by (auto simp: ws_stop_def sys_def Let_def split: if_splits intro: calm_trans)
qed

lemma calm_server_stop: "server_stop k i w = Inr w' \<Longrightarrow> calm w w'"
  by (auto simp: server_stop_def http_stop_def inet_tcp_stop_def unix_tcp_stop_def inet_udp_stop_def
      unix_udp_stop_def intro: calm_clear_run calm_ws_stop split: server_kind.splits)

lemma calm_send_each:
  assumes "\<And>cid u b v. send cid u = Inr (b, v) \<Longrightarrow> calm u v" "send_each send cs w = Inr w'"
  shows "calm w w'"
  using assms(2) unfolding send_each_def by (rule calm_rfold) (use assms(1) in auto)

lemma calm_factory_send:
  "factory_sendToServer k sid msg len w = Inr w' \<Longrightarrow> calm w w'"
  "factory_sendToServer_protocol k sid p msg len w = Inr w' \<Longrightarrow> calm w w'"
  "factory_sendToClient k sid cid msg len w = Inr (b, w') \<Longrightarrow> calm w w'"
proof -
  show "calm w w'" if "factory_sendToServer k sid msg len w = Inr w'"
    using that unfolding factory_sendToServer_def
    by (rule calm_rfold) (auto split: if_splits intro: calm_send_each [rotated] calm_server_send(1))
  show "calm w w'" if "factory_sendToServer_protocol k sid p msg len w = Inr w'"
    using that unfolding factory_sendToServer_protocol_def
    by (rule calm_rfold) (auto split: if_splits intro: calm_send_each [rotated] calm_server_send(2))
  show "calm w w'" if "factory_sendToClient k sid cid msg len w = Inr (b, w')"
    using that by (auto simp: factory_sendToClient_def intro: calm_server_send(1) split: option.splits)
qed

lemma calm_factory_stop: "factory_stop k w = Inr w' \<Longrightarrow> calm w w'"
  unfolding factory_stop_def by (erule calm_rfold) (rule calm_server_stop)

lemma calm_run: "calm w (w\<lparr>m_run := b\<rparr>)"
  by (simp add: calm_def list_all2_refl)

lemma calm_run_api: "run_api k c w = Inr w' \<Longrightarrow> calm w w'"
  by (cases c) (auto simp: any_sendToServer_def any_sendToServer_protocol_def any_sendToClient_def
      any_stop_def on_factory_def split: if_splits
      intro: calm_factory_send calm_trans [OF calm_factory_stop calm_run])

lemma calm_user_event: "user_event k app u e w = Inr w' \<Longrightarrow> calm w w'"
  unfolding user_event_def by (erule calm_rfold) (rule calm_run_api)

lemma calm_notified_rfold:
  assumes "rfold (\<lambda>l w. up l e (observe (Notified ly l e) w)) ls w = Inr w'" "ly \<noteq> Base_Listener"
    and "\<And>l u v. up l e u = Inr v \<Longrightarrow> calm u v"
  shows "calm w w'"
  using assms(1)
proof (rule calm_rfold)
  fix x u v
  assume "up x e (observe (Notified ly x e) u) = Inr v"
  with assms(3) have "calm (observe (Notified ly x e) u) v" by blast
  moreover have "calm u (observe (Notified ly x e) u)" using assms(2) by simp
  ultimately show "calm u v" by (rule calm_trans [rotated])
qed

lemma calm_notify_users: "notify_users k app e w = Inr w' \<Longrightarrow> calm w w'"
  unfolding notify_users_def by (erule calm_notified_rfold [where ly = User_Listener]) (auto intro: calm_user_event)

lemma calm_dispatch:
  assumes "dispatch k app l e w = Inr w'"
  shows "calm w w'"
proof -
  from assms obtain v where v: "factory_forward (any_event k app) (m_server_listeners w) e w = Inr v"
    and echo: "factory_echo k (enable_echo_test (m_configuration v)) e v = Inr w'"
    by (auto simp: dispatch_def factory_event_def split: if_splits)
  have "calm w v"
    using v unfolding factory_forward_def
    by (rule calm_notified_rfold) (auto simp: any_event_def intro: calm_notify_users split: if_splits)
  moreover have "calm v w'"
    using echo by (auto simp: factory_echo_def intro: calm_factory_send(3) split: event.splits if_splits)
  ultimately show ?thesis by (rule calm_trans)
qed

text \<open>The dispatcher of the program satisfies the contract the servers rely on.\<close>

interpretation dispatcher: base_listener "dispatch k app" for k app
  by unfold_locales (rule calm_dispatch)

end
