(* ===== verification/Delivery.thy ===== *)
theory Delivery
  imports AnyServer
begin

text \<open>
  The two directions through the layers: an event a server notifies reaches every listener of the
  application once, and a message the application sends reaches exactly the clients it is for. Also
  the effect of start and stop on all servers, and what the servers created from a configuration
  are.
\<close>

section \<open>Calls of the public interface only add system calls\<close>

text \<open>
  \<open>quiet_run w w'\<close>: from \<open>w\<close> to \<open>w'\<close> the trace grew by system calls only, and the listeners and the
  configuration stayed.
\<close>

definition quiet_run :: "'b aworld_scheme \<Rightarrow> 'b aworld_scheme \<Rightarrow> bool" where
  "quiet_run w w' \<longleftrightarrow> (\<exists>tr. trace w' = trace w @ tr \<and> (\<forall>ob \<in> set tr. \<exists>c r. ob = Call c r))
     \<and> m_listeners w' = m_listeners w \<and> m_server_listeners w' = m_server_listeners w
     \<and> m_configuration w' = m_configuration w \<and> m_server_factory w' = m_server_factory w"

lemma quiet_run_refl [simp]: "quiet_run w w"
  by (simp add: quiet_run_def)

lemma quiet_run_trans: "quiet_run u v \<Longrightarrow> quiet_run v w \<Longrightarrow> quiet_run u w"
  unfolding quiet_run_def by fastforce

lemma quiet_run_Call: "quiet_run u v \<Longrightarrow> quiet_run u (observe (Call c r) v)"
  unfolding quiet_run_def by (fastforce simp: observe_def)

lemma quiet_run_upd: "quiet_run u v \<Longrightarrow> quiet_run u (upd_server i f v)"
  by (simp add: quiet_run_def upd_server_def)

lemma quiet_run_m_run: "quiet_run u v \<Longrightarrow> quiet_run u (v\<lparr>m_run := b\<rparr>)"
  by (simp add: quiet_run_def)

lemma quiet_run_notified: "quiet_run w w' \<Longrightarrow> notified ly l (trace w') = notified ly l (trace w)"
proof -
  have "\<forall>ob \<in> set tr. \<exists>c r. ob = Call c r \<Longrightarrow> notified ly l tr = []" for tr
    by (induction tr) auto
  then show "quiet_run w w' \<Longrightarrow> ?thesis" by (auto simp: quiet_run_def)
qed

lemma quiet_run_rfold:
  assumes "rfold f xs w = Inr w'" "\<And>x u v. f x u = Inr v \<Longrightarrow> quiet_run u v"
  shows "quiet_run w w'"
  using assms(1)
proof (induction xs arbitrary: w)
  case (Cons x xs)
  then obtain v where "f x w = Inr v" "rfold f xs v = Inr w'" by auto
  with Cons.IH assms(2) quiet_run_trans show ?case by blast
qed simp

lemma quiet_run_http_headers: "http_add_headers k wsi hs h w = (x, w') \<Longrightarrow> quiet_run w w'"
proof (induction k wsi hs h w rule: http_add_headers.induct)
  case (1 k wsi h w)
  then show ?case by (auto simp: sys_def Let_def intro: quiet_run_Call)
next
  case (2 k wsi name v hs h w)
  let ?c = "Lws_Add_Header wsi name v" let ?w = "observe (Call ?c (k (trace w) ?c)) w"
  have w: "quiet_run w ?w" by (simp add: quiet_run_Call)
  show ?case
  proof (cases "r_ret (k (trace w) ?c) = 0")
    case True
    with "2.prems" have "http_add_headers k wsi hs (h @ r_data (k (trace w) ?c)) ?w = (x, w')"
      by (simp add: sys_def Let_def)
    with "2.IH" [OF _ _ _ this] True have "quiet_run ?w w'" by (auto simp: sys_def Let_def)
    with w show ?thesis by (rule quiet_run_trans)
  next
    case False
    with "2.prems" w show ?thesis by (auto simp: sys_def Let_def)
  qed
qed

lemma quiet_run_http_send:
  assumes "http_sendToClient k i cid msg len w = Inr (b, w')"
  shows "quiet_run w w'"
proof -
  from assms obtain c wsi where wsi: "findClientInfo cid (s_clients (the_server i w)) = Some c"
      "http_wsi_of c = Inr wsi"
    by (auto simp: http_sendToClient_def split: option.splits)
  obtain h ok w1 where h: "http_add_headers k wsi (http_headers len) [] w = ((h, ok), w1)"
    by (metis prod.exhaust)
  have "quiet_run w1 w'"
    using assms wsi h
    by (auto simp: http_sendToClient_def sys_def Let_def split: if_splits intro!: quiet_run_Call)
  with quiet_run_http_headers [OF h] show ?thesis by (rule quiet_run_trans)
qed

lemma quiet_run_server_send:
  "server_sendToClient k i cid msg len w = Inr (b, w') \<Longrightarrow> quiet_run w w'"
  "server_sendToClient_protocol k i cid p msg len w = Inr (b, w') \<Longrightarrow> quiet_run w w'"
proof -
  have tcp: "quiet_run w w'" if "tcp_sendToClient k i cid msg len w = Inr (b, w')"
    using that by (auto simp: tcp_sendToClient_def sys_def Let_def quiet_run_Call split: option.splits)
  have udp: "quiet_run w w'" if "udp_sendToClient k i cid msg len w = Inr (b, w')"
    using that by (auto simp: udp_sendToClient_def sys_def Let_def quiet_run_Call split: option.splits)
  have ws: "quiet_run w w'" if "ws_sendToClient k i cid msg len w = Inr (b, w')"
    using that by (auto simp: ws_sendToClient_def sys_def Let_def quiet_run_Call split: option.splits)
  show "quiet_run w w'" if "server_sendToClient k i cid msg len w = Inr (b, w')"
    using that tcp udp ws by (auto simp: server_sendToClient_def inet_tcp_sendToClient_def
        unix_tcp_sendToClient_def inet_udp_sendToClient_def unix_udp_sendToClient_def
        intro: quiet_run_http_send split: server_kind.splits)
  show "quiet_run w w'" if "server_sendToClient_protocol k i cid p msg len w = Inr (b, w')"
    using that by (auto simp: server_sendToClient_protocol_def ws_sendToClient_protocol_def sys_def Let_def
        quiet_run_Call split: option.splits if_splits)
qed

lemma quiet_run_send_each:
  assumes "\<And>cid u b v. send cid u = Inr (b, v) \<Longrightarrow> quiet_run u v" "send_each send cs w = Inr w'"
  shows "quiet_run w w'"
  using assms(2) unfolding send_each_def by (rule quiet_run_rfold) (use assms(1) in auto)

lemma quiet_run_factory_send:
  "factory_sendToServer k sid msg len w = Inr w' \<Longrightarrow> quiet_run w w'"
  "factory_sendToServer_protocol k sid p msg len w = Inr w' \<Longrightarrow> quiet_run w w'"
  "factory_sendToClient k sid cid msg len w = Inr (b, w') \<Longrightarrow> quiet_run w w'"
proof -
  show "quiet_run w w'" if "factory_sendToServer k sid msg len w = Inr w'"
    using that unfolding factory_sendToServer_def
    by (rule quiet_run_rfold) (auto split: if_splits intro: quiet_run_send_each [rotated] quiet_run_server_send(1))
  show "quiet_run w w'" if "factory_sendToServer_protocol k sid p msg len w = Inr w'"
    using that unfolding factory_sendToServer_protocol_def
    by (rule quiet_run_rfold) (auto split: if_splits intro: quiet_run_send_each [rotated] quiet_run_server_send(2))
  show "quiet_run w w'" if "factory_sendToClient k sid cid msg len w = Inr (b, w')"
    using that by (auto simp: factory_sendToClient_def intro: quiet_run_server_send(1) split: option.splits)
qed

lemma quiet_run_server_stop: "server_stop k i w = Inr w' \<Longrightarrow> quiet_run w w'"
  by (auto simp: server_stop_def http_stop_def inet_tcp_stop_def unix_tcp_stop_def inet_udp_stop_def
      unix_udp_stop_def ws_stop_def clear_run_def sys_def Let_def
      intro!: quiet_run_upd quiet_run_Call split: server_kind.splits if_splits)

lemma quiet_run_api: "run_api k c w = Inr w' \<Longrightarrow> quiet_run w w'"
proof -
  have stop: "quiet_run u v" if "factory_stop k u = Inr v" for u v
    using that unfolding factory_stop_def by (rule quiet_run_rfold) (rule quiet_run_server_stop)
  show "run_api k c w = Inr w' \<Longrightarrow> ?thesis"
    by (cases c) (auto simp: any_sendToServer_def any_sendToServer_protocol_def any_sendToClient_def
      any_stop_def on_factory_def split: if_splits intro: quiet_run_factory_send quiet_run_m_run stop)
qed

lemma quiet_run_user_event: "user_event k app u e w = Inr w' \<Longrightarrow> quiet_run w w'"
  unfolding user_event_def by (erule quiet_run_rfold) (rule quiet_run_api)

section \<open>An event reaches every listener of the application once\<close>

lemma notify_users_exact:
  assumes "notify_users k app e w = Inr w'"
  shows "notified User_Listener u (trace w')
       = notified User_Listener u (trace w) @ replicate (count_list (m_listeners w) u) e
     \<and> m_server_listeners w' = m_server_listeners w \<and> m_configuration w' = m_configuration w"
proof -
  have "rfold (\<lambda>u w. user_event k app u e (observe (Notified User_Listener u e) w)) ls w = Inr w' \<Longrightarrow>
      notified User_Listener u (trace w') = notified User_Listener u (trace w) @ replicate (count_list ls u) e
      \<and> m_server_listeners w' = m_server_listeners w \<and> m_configuration w' = m_configuration w" for ls
  proof (induction ls arbitrary: w)
    case (Cons x ls)
    let ?w = "observe (Notified User_Listener x e) w"
    from Cons.prems obtain v where v: "user_event k app x e ?w = Inr v"
      and rest: "rfold (\<lambda>u w. user_event k app u e (observe (Notified User_Listener u e) w)) ls v = Inr w'"
      by auto
    note q = quiet_run_user_event [OF v]
    from Cons.IH [OF rest] quiet_run_notified [OF q, of User_Listener u] q show ?case
      by (auto simp: quiet_run_def observe_def)
  qed simp
  with assms show ?thesis by (simp add: notify_users_def)
qed

lemma dispatch_exact:
  assumes run: "dispatch k app l e w = Inr w'" and ls: "m_server_listeners w = [ANYSERVER]"
  shows "notified User_Listener u (trace w')
       = notified User_Listener u (trace w) @ replicate (count_list (m_listeners w) u) e"
proof -
  from run ls obtain v where v: "notify_users k app e (observe (Notified Factory_Listener ANYSERVER e) w) = Inr v"
    and echo: "factory_echo k (enable_echo_test (m_configuration v)) e v = Inr w'"
    by (auto simp: dispatch_def factory_event_def factory_forward_def any_event_def split: if_splits)
  have "quiet_run v w'"
    using echo by (auto simp: factory_echo_def intro: quiet_run_factory_send(3) split: event.splits if_splits)
  with quiet_run_notified [of v w' User_Listener u] notify_users_exact [OF v, of u] show ?thesis
    by (simp add: observe_def)
qed

section \<open>A message with a protocol reaches exactly the clients of the protocol\<close>

text \<open>What was written to websocket connections, in order.\<close>

definition ws_written :: "obs list \<Rightarrow> (nat \<times> bytes) list" where
  "ws_written tr = concat (List.map (\<lambda>ob. case ob of
      Call (Lws_Write wsi b LWS_WRITE_TEXT) r \<Rightarrow> [(wsi, b)] | _ \<Rightarrow> []) tr)"

lemma ws_written_append [simp]: "ws_written (tr @ tr') = ws_written tr @ ws_written tr'"
  by (simp add: ws_written_def)

lemma ws_written_write [simp]:
  "ws_written [Call (Lws_Write wsi b LWS_WRITE_TEXT) r] = [(wsi, b)]"
  by (simp add: ws_written_def)

fun client_wsi :: "client_info \<Rightarrow> nat" where
  "client_wsi c = (case ws_wsi_of c of Inr (wsi, p) \<Rightarrow> wsi | Inl e \<Rightarrow> 0)"

fun speaks :: "bytes \<Rightarrow> client_info \<Rightarrow> bool" where
  "speaks protocol c = (case ws_wsi_of c of Inr (wsi, p) \<Rightarrow> strcmp_eq protocol p | Inl e \<Rightarrow> False)"

lemma findClientInfo_in: "distinct (List.map ci_id cs) \<Longrightarrow> c \<in> set cs \<Longrightarrow> findClientInfo (ci_id c) cs = Some c"
  by (induction cs) (auto simp: image_iff)

lemma ws_broadcast:
  assumes "s_kind (the_server i w) = WebSocketTcpServer" "id_table (s_clients (the_server i w))"
    and "ws_clients_ok i w" "unat len \<le> length msg" "set cs \<subseteq> set (s_clients (the_server i w))"
  shows "\<exists>w'. send_each (\<lambda>cid. server_sendToClient_protocol k i cid protocol msg len) cs w = Inr w'
     \<and> servers w' = servers w
     \<and> ws_written (trace w') = ws_written (trace w)
         @ List.map (\<lambda>c. (client_wsi c, take (unat len) msg)) (filter (speaks protocol) cs)"
  using assms
proof (induction cs arbitrary: w)
  case Nil
  then show ?case by (simp add: send_each_def)
next
  case (Cons c cs)
  have find: "findClientInfo (ci_id c) (s_clients (the_server i w)) = Some c"
    using Cons.prems by (intro findClientInfo_in) (auto simp: id_table_def)
  from Cons.prems obtain wsi p where p: "ws_wsi_of c = Inr (wsi, p)" by (auto simp: ws_clients_ok_def)
  show ?case
  proof (cases "strcmp_eq protocol p")
    case True
    let ?c = "Lws_Write wsi (take (unat len) msg) LWS_WRITE_TEXT"
    let ?w = "observe (Call ?c (k (trace w) ?c)) w"
    from Cons.prems have "s_kind (the_server i ?w) = WebSocketTcpServer"
      "id_table (s_clients (the_server i ?w))" "ws_clients_ok i ?w" "unat len \<le> length msg"
      "set cs \<subseteq> set (s_clients (the_server i ?w))" by (simp_all add: ws_clients_ok_def)
    from Cons.IH [OF this] Cons.prems True p find show ?thesis
      by (auto simp: send_each_def server_sendToClient_protocol_def ws_sendToClient_protocol_def sys_def
          Let_def msg_bytes_ok)
  next
    case False
    from Cons.IH [of w] Cons.prems False p find show ?thesis
      by (auto simp: send_each_def server_sendToClient_protocol_def ws_sendToClient_protocol_def)
  qed
qed

text \<open>The clients of a server with an id that speak a protocol, in the order they are written to.\<close>

definition server_recipients :: "size_t \<Rightarrow> bytes \<Rightarrow> server \<Rightarrow> client_info list" where
  "server_recipients sid protocol s =
     (if sid = s_server_id s \<and> s_kind s = WebSocketTcpServer then filter (speaks protocol) (s_clients s) else [])"

definition recipients :: "size_t \<Rightarrow> bytes \<Rightarrow> server list \<Rightarrow> client_info list" where
  "recipients sid protocol ss = concat (List.map (server_recipients sid protocol) ss)"

definition ws_tables_ok :: "'a world_scheme \<Rightarrow> bool" where
  "ws_tables_ok w \<longleftrightarrow> (\<forall>i < length (servers w). s_kind (the_server i w) = WebSocketTcpServer \<longrightarrow>
     id_table (s_clients (the_server i w)) \<and> ws_clients_ok i w)"

abbreviation written_to :: "bytes \<Rightarrow> client_info list \<Rightarrow> (nat \<times> bytes) list" where
  "written_to m cs \<equiv> List.map (\<lambda>c. (client_wsi c, m)) cs"

lemma ws_tables_same: "servers v = servers w \<Longrightarrow> ws_tables_ok v = ws_tables_ok w"
  by (simp add: ws_tables_ok_def ws_clients_ok_def the_server_def)

lemma send_each_other:
  "s_kind (the_server i w) \<noteq> WebSocketTcpServer \<Longrightarrow>
   send_each (\<lambda>cid. server_sendToClient_protocol k i cid p msg len) cs w = Inr w"
  by (induction cs) (auto simp: send_each_def server_sendToClient_protocol_def)

lemma broadcast_step:
  assumes "ws_tables_ok w" "unat len \<le> length msg" "i < length (servers w)"
  shows "\<exists>v. (if sid = s_server_id (the_server i w)
              then send_each (\<lambda>cid. server_sendToClient_protocol k i cid p msg len) (s_clients (the_server i w)) w
              else Inr w) = Inr v
     \<and> servers v = servers w
     \<and> ws_written (trace v) = ws_written (trace w)
         @ written_to (take (unat len) msg) (server_recipients sid p (servers w ! i))"
proof (cases "s_kind (the_server i w) = WebSocketTcpServer \<and> sid = s_server_id (the_server i w)")
  case True
  with assms ws_broadcast [of i w len msg "s_clients (the_server i w)" k p] show ?thesis
    by (simp add: ws_tables_ok_def server_recipients_def the_server_def)
next
  case False
  with send_each_other [of i w k p msg len] show ?thesis
    by (auto simp: server_recipients_def the_server_def)
qed

lemma factory_broadcast:
  assumes "ws_tables_ok w" "unat len \<le> length msg"
  shows "\<exists>w'. factory_sendToServer_protocol k sid p msg len w = Inr w' \<and> servers w' = servers w
     \<and> ws_written (trace w') = ws_written (trace w)
         @ written_to (take (unat len) msg) (recipients sid p (servers w))"
proof -
  have "set js \<subseteq> {..< length (servers w)} \<Longrightarrow> ws_tables_ok w \<Longrightarrow>
    \<exists>w'. rfold (\<lambda>i w. if sid = s_server_id (the_server i w)
                  then send_each (\<lambda>cid. server_sendToClient_protocol k i cid p msg len)
                         (s_clients (the_server i w)) w
                  else Inr w) js w = Inr w' \<and> servers w' = servers w
     \<and> ws_written (trace w') = ws_written (trace w)
         @ written_to (take (unat len) msg) (recipients sid p (List.map ((!) (servers w)) js))" for js
  proof (induction js arbitrary: w)
    case Nil
    then show ?case by (simp add: recipients_def)
  next
    case (Cons i js)
    from Cons.prems broadcast_step [OF _ assms(2), of w i sid k p] obtain v where v:
      "(if sid = s_server_id (the_server i w)
         then send_each (\<lambda>cid. server_sendToClient_protocol k i cid p msg len) (s_clients (the_server i w)) w
         else Inr w) = Inr v" "servers v = servers w"
      "ws_written (trace v) = ws_written (trace w)
         @ written_to (take (unat len) msg) (server_recipients sid p (servers w ! i))" by auto
    from Cons.IH [of v] Cons.prems v ws_tables_same [OF v(2)] show ?case
      by (auto simp: recipients_def)
  qed
  from this [of "[0 ..< length (servers w)]"] assms(1) show ?thesis
    by (simp add: factory_sendToServer_protocol_def map_nth lessThan_atLeast0)
qed

section \<open>start and stop\<close>

lemma server_start_frame:
  assumes "server_start k i w = (ok, w')" "i < length (servers w)"
  shows "length (servers w') = length (servers w)" "j \<noteq> i \<Longrightarrow> the_server j w' = the_server j w"
    "s_kind (the_server i w') = s_kind (the_server i w)"
    "ok \<Longrightarrow> s_thread (the_server i w') = Thread_Created"
    "\<not> ok \<Longrightarrow> the_server i w' = the_server i w"
proof -
  have "server_start k i w = start_thread k i w"
    by (auto simp: server_start_def ws_start_def http_start_def inet_tcp_start_def inet_udp_start_def
        unix_tcp_start_def unix_udp_start_def split: server_kind.splits)
  with assms show "length (servers w') = length (servers w)" "j \<noteq> i \<Longrightarrow> the_server j w' = the_server j w"
    "s_kind (the_server i w') = s_kind (the_server i w)"
    "ok \<Longrightarrow> s_thread (the_server i w') = Thread_Created" "\<not> ok \<Longrightarrow> the_server i w' = the_server i w"
    by (auto simp: start_thread_def sys_def Let_def split: if_splits)
qed

lemma start_all_run:
  assumes "start_all k is w = (ok, w')" "distinct is" "set is \<subseteq> {..< length (servers w)}"
  shows "\<exists>done rest. is = done @ rest \<and> (ok \<longleftrightarrow> rest = [])
     \<and> (\<forall>i \<in> set done. s_thread (the_server i w') = Thread_Created)
     \<and> (\<forall>j. j \<notin> set done \<longrightarrow> the_server j w' = the_server j w)"
  using assms
proof (induction "is" arbitrary: w)
  case Nil
  then show ?case by simp
next
  case (Cons i js)
  obtain b v where v: "server_start k i w = (b, v)" by (cases "server_start k i w")
  from Cons.prems have i: "i < length (servers w)" by simp
  note fr = server_start_frame [OF v i]
  show ?case
  proof (cases b)
    case False
    with v Cons.prems fr have "\<not> ok" "w' = v" by auto
    moreover have "the_server j v = the_server j w" for j using fr(2,5) False by (cases "j = i") auto
    ultimately show ?thesis by (intro exI [of _ "[]"] exI [of _ "i # js"]) simp
  next
    case True
    with v Cons.prems fr(1) have "start_all k js v = (ok, w')" "distinct js"
      "set js \<subseteq> {..< length (servers v)}" by auto
    from Cons.IH [OF this] obtain dn rest where d: "js = dn @ rest" "ok \<longleftrightarrow> rest = []"
      "\<forall>i \<in> set dn. s_thread (the_server i w') = Thread_Created"
      "\<forall>j. j \<notin> set dn \<longrightarrow> the_server j w' = the_server j v" by blast
    from d(1) Cons.prems(2) have "i \<notin> set dn" by auto
    with d fr True show ?thesis by (intro exI [of _ "i # dn"] exI [of _ rest]) auto
  qed
qed

lemma start_all_m_run: "start_all k is w = (ok, w') \<Longrightarrow> m_run w' = m_run w"
proof (induction "is" arbitrary: w)
  case (Cons i js)
  have "m_run v = m_run w" if "server_start k i w = (b, v)" for b v
    using that
    by (auto simp: server_start_def ws_start_def http_start_def inet_tcp_start_def inet_udp_start_def
        unix_tcp_start_def unix_udp_start_def start_thread_def sys_def observe_def upd_server_def Let_def
        split: server_kind.splits if_splits)
  with Cons show ?case by (auto split: prod.splits if_splits)
qed simp

lemma server_stop_frame:
  assumes "server_stop k i w = Inr w'" "i < length (servers w)"
  shows "\<not> s_run_thread (the_server i w')" "length (servers w') = length (servers w)"
    "j \<noteq> i \<Longrightarrow> the_server j w' = the_server j w"
  using assms
  by (auto simp: server_stop_def http_stop_def inet_tcp_stop_def unix_tcp_stop_def inet_udp_stop_def
      unix_udp_stop_def ws_stop_def clear_run_def sys_def Let_def split: server_kind.splits if_splits)

lemma stop_all_run:
  assumes "rfold (server_stop k) is w = Inr w'" "set is \<subseteq> {..< length (servers w)}"
  shows "length (servers w') = length (servers w) \<and> (\<forall>i \<in> set is. \<not> s_run_thread (the_server i w'))
     \<and> (\<forall>j. \<not> s_run_thread (the_server j w) \<and> j < length (servers w) \<longrightarrow> \<not> s_run_thread (the_server j w'))"
  using assms
proof (induction "is" arbitrary: w)
  case Nil
  then show ?case by simp
next
  case (Cons i js)
  then obtain v where v: "server_stop k i w = Inr v" and rest: "rfold (server_stop k) js v = Inr w'" by auto
  from Cons.prems have i: "i < length (servers w)" by simp
  note fr = server_stop_frame [OF v i]
  from Cons.prems fr(2) have "set js \<subseteq> {..< length (servers v)}" by simp
  from Cons.IH [OF rest this] fr i show ?case by (metis set_ConsD)
qed

section \<open>The servers created from a configuration\<close>

fun kind_for :: "server_info \<Rightarrow> server_kind" where
  "kind_for si = (case si_kinds si of
      WEBSOCKET \<Rightarrow> WebSocketTcpServer
    | HTTP \<Rightarrow> HttpTcpServer
    | INETDS \<Rightarrow> if si_tcp si then InetDomainSocketTcpServer else InetDomainSocketUdpServer
    | UNIXDS \<Rightarrow> if si_tcp si then UnixDomainSocketTcpServer else UnixDomainSocketUdpServer
    | SERVER_KINDS_NUM \<Rightarrow> WebSocketTcpServer)"

text \<open>A server as its entry of the configuration asks for it, not yet started, without clients.\<close>

definition made_from :: "(string \<Rightarrow> size_t) \<Rightarrow> capabilities \<Rightarrow> server_info \<Rightarrow> server \<Rightarrow> bool" where
  "made_from hash cap si s \<longleftrightarrow>
     s_kind s = kind_for si \<and> s_name s = si_header si \<and> s_bind s = si_bind si \<and> s_tcp s = si_tcp si
   \<and> s_max_client s = si_max_client si
   \<and> s_server_id s = hash (server_key (si_header si) (si_bind si) (si_tcp si))
   \<and> s_clients s = [] \<and> s_listeners s = [FACTORY] \<and> s_thread s = Thread_None
   \<and> (si_kinds si = WEBSOCKET \<longrightarrow> s_protocols s = List.map Some (ws_table (si_protocols si)))
   \<and> s_security s = (si_kinds si \<in> {WEBSOCKET, HTTP} \<and> enable_security cap)"

definition creates :: "server_info \<Rightarrow> bool" where
  "creates si \<longleftrightarrow> si_enable si \<and> si_kinds si \<noteq> SERVER_KINDS_NUM"

definition needs_tcp :: "server_info \<Rightarrow> bool" where
  "needs_tcp si \<longleftrightarrow> si_enable si \<and> si_kinds si \<in> {WEBSOCKET, HTTP} \<and> \<not> si_tcp si"

lemma upd_server_last:
  "upd_server (length ss) f (w\<lparr>servers := ss @ [s]\<rparr>) = w\<lparr>servers := ss @ [f s]\<rparr>"
  by (simp add: upd_server_def)

lemma create_server_run:
  assumes "create_server env cap si w = Inr (ok, w')" "si_enable si"
  shows "ok \<longleftrightarrow> \<not> needs_tcp si"
    and "ok \<Longrightarrow> \<exists>new. servers w' = servers w @ new
           \<and> list_all2 (made_from (e_hash env) cap) (filter creates [si]) new"
proof -
  show "ok \<longleftrightarrow> \<not> needs_tcp si"
    using assms by (auto simp: create_server_def needs_tcp_def Let_def split: server_kinds.splits if_splits prod.splits)
  assume ok
  show "\<exists>new. servers w' = servers w @ new
           \<and> list_all2 (made_from (e_hash env) cap) (filter creates [si]) new"
  proof (cases "si_kinds si")
    case SERVER_KINDS_NUM
    with assms show ?thesis by (simp add: create_server_def creates_def)
  qed (use assms \<open>ok\<close> in \<open>auto simp: create_server_def creates_def made_from_def add_server_def certify_def
      upd_server_def ws_addProtocols_def ws_fill_protocols_run sys_def observe_def Let_def newBaseServer_def
      addEventListener_def setCertification_def split: if_splits\<close>)
qed

lemma create_servers_run:
  assumes "create_servers env cap sis w = Inr (ok, w')"
  shows "(ok \<longleftrightarrow> \<not> list_ex needs_tcp sis)
     \<and> (ok \<longrightarrow> (\<exists>new. servers w' = servers w @ new
           \<and> list_all2 (made_from (e_hash env) cap) (filter creates sis) new))"
  using assms
proof (induction sis arbitrary: w)
  case Nil
  then show ?case by simp
next
  case (Cons si sis)
  show ?case
  proof (cases "si_enable si")
    case False
    with Cons show ?thesis by (simp add: needs_tcp_def creates_def)
  next
    case True
    with Cons.prems obtain b v where v: "create_server env cap si w = Inr (b, v)"
      and rest: "(if b then create_servers env cap sis v else Inr (False, v)) = Inr (ok, w')" by auto
    note one = create_server_run [OF v True]
    show ?thesis
    proof (cases b)
      case False
      with rest one(1) show ?thesis by simp
    next
      case True
      with rest have "create_servers env cap sis v = Inr (ok, w')" by simp
      note IH = Cons.IH [OF this]
      from one(2) [OF True] obtain n1 where n1: "servers v = servers w @ n1"
        "list_all2 (made_from (e_hash env) cap) (filter creates [si]) n1" by blast
      have app: "filter creates (si # sis) = filter creates [si] @ filter creates sis" by simp
      show ?thesis
      proof (intro conjI impI)
        show "ok \<longleftrightarrow> \<not> list_ex needs_tcp (si # sis)" using IH one(1) True by simp
        assume ok
        with IH obtain n2 where "servers w' = servers v @ n2"
          "list_all2 (made_from (e_hash env) cap) (filter creates sis) n2" by blast
        with n1 show "\<exists>new. servers w' = servers w @ new
            \<and> list_all2 (made_from (e_hash env) cap) (filter creates (si # sis)) new"
          unfolding app by (intro exI [of _ "n1 @ n2"] conjI list_all2_appendI) simp_all
      qed
    qed
  qed
qed

end
