(* ===== verification/Examples.thy ===== *)
theory Examples
  imports Delivery
begin

text \<open>
  The two example applications (example/echoserver/main.cpp, example/relayserver/main.cpp): what
  their listener asks of the public interface for each event, the client map of the echo server and
  \<open>main\<close> up to its waiting loop. \<open>ids\<close> are the ids of the servers in the global list. The lines
  printed on the console are not modelled.
\<close>

section \<open>The listeners\<close>

definition target_protocol :: "bytes \<Rightarrow> bytes" where
  "target_protocol protocol =
     (if strcmp_eq protocol ''sender'' then ''receiver''
      else if strcmp_eq protocol ''receiver'' then ''sender'' else [])"

definition relay_to_all :: "size_t list \<Rightarrow> bytes \<Rightarrow> bytes \<Rightarrow> uint \<Rightarrow> api_call list" where
  "relay_to_all ids protocol msg len = List.map (\<lambda>sid. SendToServerProtocol sid protocol msg len) ids"

definition echo_app :: "size_t list \<Rightarrow> app" where
  "echo_app ids u tr e = (case e of
      System_Signal n \<Rightarrow> [Stop]
    | Client_Connected sid cid \<Rightarrow> []
    | Client_Disconnected sid cid \<Rightarrow> []
    | Received sid cid msg len \<Rightarrow> [SendToClient sid cid msg len]
    | Received_Protocol sid cid msg len protocol \<Rightarrow> relay_to_all ids (target_protocol protocol) msg len)"

definition relay_app :: "size_t list \<Rightarrow> app" where
  "relay_app ids u tr e = (case e of
      System_Signal n \<Rightarrow> [Stop]
    | Client_Connected sid cid \<Rightarrow> []
    | Client_Disconnected sid cid \<Rightarrow> []
    | Received sid cid msg len \<Rightarrow> relay_to_all ids ''test_b'' msg len
    | Received_Protocol sid cid msg len protocol \<Rightarrow> relay_to_all ids (target_protocol protocol) msg len)"

text \<open>The map \<open>clients\<close> of the echo server: \<open>insert\<close> does not replace an entry.\<close>

fun echo_clients_step :: "event \<Rightarrow> (size_t \<rightharpoonup> size_t) \<Rightarrow> (size_t \<rightharpoonup> size_t)" where
  "echo_clients_step (Client_Connected sid cid) m = (if m cid = None then m(cid \<mapsto> sid) else m)"
| "echo_clients_step (Client_Disconnected sid cid) m = m(cid := None)"
| "echo_clients_step _ m = m"

definition echo_clients :: "event list \<Rightarrow> (size_t \<rightharpoonup> size_t)" where
  "echo_clients es = fold echo_clients_step es Map.empty"

section \<open>main\<close>

text \<open>
  \<open>main\<close> of the echo server up to the loop that waits for the run flag to be cleared: the ids of the
  servers when both \<open>init\<close> and \<open>start\<close> succeeded. The relay server's is the same text.
\<close>

definition LISTENER :: nat where "LISTENER = 0"

definition echo_main ::
  "env \<Rightarrow> (int \<Rightarrow> bool) \<Rightarrow> size_t \<Rightarrow> string list \<Rightarrow> 'b aworld_scheme
     \<Rightarrow> fault + size_t list option \<times> 'b aworld_scheme" where
  "echo_main env catchable junk argv w =
     rbind (getInstance_args junk argv w) (\<lambda>w.
     rbind (any_init env catchable (any_addEventListener LISTENER w)) (\<lambda>(ok, w).
       if \<not> ok then Inr (None, w) else
     rbind (any_start (e_kernel env) w) (\<lambda>(ok, w).
       if \<not> ok then Inr (None, w) else
     rbind (getServerList w) (\<lambda>is. Inr (Some (List.map (\<lambda>i. s_server_id (the_server i w)) is), w)))))"

definition relay_main ::
  "env \<Rightarrow> (int \<Rightarrow> bool) \<Rightarrow> size_t \<Rightarrow> string list \<Rightarrow> 'b aworld_scheme
     \<Rightarrow> fault + size_t list option \<times> 'b aworld_scheme" where
  "relay_main env catchable junk argv w = echo_main env catchable junk argv w"

section \<open>Relaying\<close>

lemma relay_to_all_run:
  assumes "m_server_factory w = FACTORY_PTR" "ws_tables_ok w" "unat len \<le> length msg"
  shows "\<exists>w'. rfold (run_api k) (relay_to_all ids p msg len) w = Inr w' \<and> servers w' = servers w
     \<and> ws_written (trace w') = ws_written (trace w)
         @ concat (List.map (\<lambda>sid. written_to (take (unat len) msg) (recipients sid p (servers w))) ids)"
  using assms(1,2)
proof (induction ids arbitrary: w)
  case Nil
  then show ?case by (simp add: relay_to_all_def)
next
  case (Cons sid ids)
  from factory_broadcast [OF Cons.prems(2) assms(3), of k sid p] obtain v where
    v: "factory_sendToServer_protocol k sid p msg len w = Inr v" "servers v = servers w"
    "ws_written (trace v) = ws_written (trace w) @ written_to (take (unat len) msg) (recipients sid p (servers w))"
    by blast
  have "m_server_factory v = m_server_factory w"
    using quiet_run_factory_send(2) [OF v(1)] by (simp add: quiet_run_def)
  with Cons.IH [of v] Cons.prems v ws_tables_same [OF v(2)] show ?case
    by (simp add: relay_to_all_def any_sendToServer_protocol_def on_factory_def FACTORY_PTR_def)
qed

section \<open>The client map\<close>

text \<open>The events of one server.\<close>

fun from_server :: "size_t \<Rightarrow> event \<Rightarrow> bool" where
  "from_server sid (Client_Connected s c) = (s = sid)"
| "from_server sid (Client_Disconnected s c) = (s = sid)"
| "from_server sid (Received s c b n) = (s = sid)"
| "from_server sid (Received_Protocol s c b n p) = (s = sid)"
| "from_server sid (System_Signal n) = True"

lemma echo_clients_session:
  "session_run sid es L = Some L' \<Longrightarrow> list_all (from_server sid) es \<Longrightarrow> dom m = L \<Longrightarrow>
   dom (fold echo_clients_step es m) = L'"
proof (induction es arbitrary: L m)
  case (Cons e es)
  then obtain K where K: "session_step sid e L = Some K" "session_run sid es K = Some L'"
    by (cases "session_step sid e L") auto
  have "dom (echo_clients_step e m) = K"
    using K(1) Cons.prems by (cases e) (auto split: if_splits)
  with Cons.IH [OF K(2)] Cons.prems show ?case by simp
qed simp

end
