(* ===== verification/Application.thy ===== *)
theory Application
  imports Examples
begin

text \<open>
  The servers and the layers above them together: what the application's listener sees of a run of
  a server thread is exactly what the server notified, in order; and the echo example, from the
  bytes read on a connection to the bytes written back on it.
\<close>

section \<open>The application sees what the servers notify\<close>

text \<open>
  The program is wired: every server has the factory as its one listener, the factory has the
  public object, the public object has the application's listener \<open>u\<close>.
\<close>

definition wired :: "nat \<Rightarrow> 'b aworld_scheme \<Rightarrow> bool" where
  "wired u w \<longleftrightarrow> list_all (\<lambda>s. s_listeners s = [FACTORY]) (servers w)
     \<and> m_server_listeners w = [ANYSERVER] \<and> m_listeners w = [u]"

definition mirrored :: "nat \<Rightarrow> 'b aworld_scheme \<Rightarrow> 'b aworld_scheme \<Rightarrow> bool" where
  "mirrored u w w' \<longleftrightarrow> wired u w' \<and> length (servers w') = length (servers w)
     \<and> (\<exists>tr. trace w' = trace w @ tr
          \<and> notified User_Listener u tr = notified Base_Listener FACTORY tr)"

lemma mirrored_refl [simp]: "mirrored u w w = wired u w"
  by (simp add: mirrored_def)

lemma mirrored_trans: "mirrored u w v \<Longrightarrow> mirrored u v x \<Longrightarrow> mirrored u w x"
  unfolding mirrored_def by fastforce

lemma mirrored_wired: "mirrored u w v \<Longrightarrow> wired u v"
  by (simp add: mirrored_def)

lemma mirrored_length: "mirrored u w v \<Longrightarrow> length (servers v) = length (servers w)"
  by (simp add: mirrored_def)

lemma wired_simps [simp]:
  "wired u (observe ob w) = wired u w"
  by (simp_all add: wired_def observe_def)

lemma wired_upd:
  assumes "wired u w" "\<And>s. s_listeners (f s) = s_listeners s"
  shows "wired u (upd_server i f w)"
proof -
  have "s_listeners s = [FACTORY]" if "s \<in> set ((servers w)[i := f (servers w ! i)])" for s
    using that assms set_update_subset_insert [of "servers w" i "f (servers w ! i)"]
    by (cases "i < length (servers w)") (auto simp: wired_def list_all_iff list_update_beyond)
  with assms(1) show ?thesis by (simp add: wired_def upd_server_def list_all_iff)
qed

lemma mirrored_Call: "mirrored u w v \<Longrightarrow> mirrored u w (observe (Call c r) v)"
  unfolding mirrored_def by (fastforce simp: observe_def wired_def)

lemma mirrored_Released: "mirrored u w v \<Longrightarrow> mirrored u w (observe (Released p) v)"
  unfolding mirrored_def by (fastforce simp: observe_def wired_def)

lemma mirrored_clients: "mirrored u w v \<Longrightarrow> mirrored u w (upd_server i (s_clients_update f) v)"
  unfolding mirrored_def by (auto intro: wired_upd)

lemma mirrored_body: "mirrored u w v \<Longrightarrow> mirrored u w (v\<lparr>http_req_body := b\<rparr>)"
  by (simp add: mirrored_def wired_def)

lemmas mirrored_intros = mirrored_Call mirrored_Released mirrored_clients mirrored_body

lemma wired_listeners: "wired u w \<Longrightarrow> i < length (servers w) \<Longrightarrow> s_listeners (the_server i w) = [FACTORY]"
  by (simp add: wired_def list_all_length the_server_def)

lemma quiet_run_wired:
  assumes "quiet_run w w'" "list_all2 stable_server (servers w) (servers w')" "wired u w"
  shows "wired u w'"
proof -
  have "s_listeners t = [FACTORY]" if "t \<in> set (servers w')" for t
  proof -
    from that obtain j where j: "j < length (servers w')" "t = servers w' ! j"
      by (metis in_set_conv_nth)
    with assms(2) have "stable_server (servers w ! j) t" "j < length (servers w)"
      by (auto simp: list_all2_conv_all_nth)
    with assms(3) stable_server_fields(2) show ?thesis by (fastforce simp: wired_def list_all_length)
  qed
  with assms show ?thesis by (simp add: wired_def quiet_run_def list_all_iff)
qed

lemma calm_quiet_mirrored:
  assumes "quiet_run w w'" "calm w w'" "wired u w"
  shows "mirrored u w w'"
proof -
  have "list_all2 stable_server (servers w) (servers w')" using assms(2) by (simp add: calm_def)
  with assms have "wired u w'" "length (servers w') = length (servers w)"
    by (auto intro: quiet_run_wired dest: list_all2_lengthD)
  with assms(1) quiet_run_notified [OF assms(1), of User_Listener u]
    quiet_run_notified [OF assms(1), of Base_Listener FACTORY]
  show ?thesis by (auto simp: mirrored_def quiet_run_def)
qed

lemma mirrored_notify:
  assumes "notify (dispatch k app) i e w = Inr w'" "wired u w" "i < length (servers w)"
  shows "mirrored u w w'"
proof -
  let ?w1 = "observe (Notified Base_Listener FACTORY e) w"
  let ?w2 = "observe (Notified Factory_Listener ANYSERVER e) ?w1"
  let ?w3 = "observe (Notified User_Listener u e) ?w2"
  from assms have d: "dispatch k app FACTORY e ?w1 = Inr w'"
    by (simp add: notify_def wired_listeners)
  with assms(2) obtain v where v: "user_event k app u e ?w3 = Inr v"
    and echo: "factory_echo k (enable_echo_test (m_configuration v)) e v = Inr w'"
    by (auto simp: dispatch_def factory_event_def factory_forward_def any_event_def notify_users_def
        wired_def observe_def split: if_splits)
  have w3: "wired u ?w3" using assms(2) by simp
  have 1: "mirrored u ?w3 v"
    using quiet_run_user_event [OF v] calm_user_event [OF v] w3 by (rule calm_quiet_mirrored)
  have "quiet_run v w'" "calm v w'"
    using echo by (auto simp: factory_echo_def intro: quiet_run_factory_send(3) calm_factory_send(3)
        split: event.splits if_splits)
  with mirrored_wired [OF 1] have "mirrored u v w'" by (intro calm_quiet_mirrored)
  with 1 have 2: "mirrored u ?w3 w'" by (rule mirrored_trans)
  moreover have "mirrored u w ?w3"
    using assms(2) by (simp add: mirrored_def observe_def wired_def)
  ultimately show ?thesis by (rule mirrored_trans [rotated])
qed

lemma mirrored_then_notify:
  assumes "mirrored u w v" "notify (dispatch k app) i e v = Inr w'" "i < length (servers w)"
  shows "mirrored u w w'"
  using mirrored_trans [OF assms(1) mirrored_notify [OF assms(2)]] assms mirrored_wired [OF assms(1)]
  by (simp add: mirrored_def)

lemmas mirrored_by_notify = mirrored_then_notify [rotated -1]

lemma mirrored_epoll_accept:
  "epoll_accept k (dispatch k app) i w = Inr w' \<Longrightarrow> wired u w \<Longrightarrow> i < length (servers w) \<Longrightarrow> mirrored u w w'"
  by (auto simp: epoll_accept_def sys_def add_client_def addClientInfo_def Let_def split: if_splits
      elim!: mirrored_then_notify [rotated] intro!: mirrored_intros)

lemma mirrored_remove_fd:
  "remove_client_fd i fd v = Inr (cid, v') \<Longrightarrow> mirrored u w v \<Longrightarrow> mirrored u w v'"
  by (auto simp: remove_client_fd_def store_removed_def Let_def intro!: mirrored_intros split: if_splits)

lemma mirrored_notify_received:
  "notify_received (dispatch k app) i client mk v = Inr w' \<Longrightarrow> mirrored u w v \<Longrightarrow> i < length (servers w) \<Longrightarrow>
   mirrored u w w'"
  by (auto simp: notify_received_def split: if_splits option.splits intro: mirrored_then_notify)

lemma mirrored_epoll_read:
  assumes "epoll_read k (dispatch k app) i fd w = Inr w'" "wired u w" "i < length (servers w)"
  shows "mirrored u w w'"
  using assms
  by (auto simp: epoll_read_def sys_def Let_def split: if_splits
      elim!: mirrored_then_notify [rotated] mirrored_notify_received mirrored_remove_fd
      intro!: mirrored_intros)

lemma mirrored_epoll_iteration:
  assumes "epoll_iteration k (dispatch k app) i w = Inr w'" "wired u w" "i < length (servers w)"
  shows "mirrored u w w'"
proof -
  let ?c = "Epoll_Wait (s_epoll_fd (the_server i w)) EPOLL_SIZE"
  let ?w1 = "observe (Call ?c (k (trace w) ?c)) w"
  have "rfold (epoll_event k (dispatch k app) i) fds v = Inr w' \<Longrightarrow> mirrored u w v \<Longrightarrow> mirrored u w w'" for fds v
  proof (induction fds arbitrary: v)
    case (Cons fd fds)
    then obtain x where x: "epoll_event k (dispatch k app) i fd v = Inr x"
      and rest: "rfold (epoll_event k (dispatch k app) i) fds x = Inr w'" by auto
    from Cons.prems(2) assms(3) have "wired u v" "i < length (servers v)"
      by (simp_all add: mirrored_def)
    with x have "mirrored u v x"
      by (auto simp: epoll_event_def intro: mirrored_epoll_accept mirrored_epoll_read split: if_splits)
    with Cons.prems(2) have "mirrored u w x" by (rule mirrored_trans)
    with Cons.IH rest show ?case by blast
  qed simp
  from this [of _ ?w1] assms(1,2) mirrored_Call [of u w w] show ?thesis
    by (simp add: epoll_iteration_def sys_def Let_def)
qed

text \<open>A loop whose body mirrors, mirrors.\<close>

lemma mirrored_upd: "mirrored u w v \<Longrightarrow> (\<And>s. s_listeners (f s) = s_listeners s) \<Longrightarrow> mirrored u w (upd_server i f v)"
  unfolding mirrored_def by (auto intro: wired_upd)

lemma mirrored_loop:
  assumes body: "\<And>v x. body i v = Inr x \<Longrightarrow> wired u v \<Longrightarrow> i < length (servers v) \<Longrightarrow> mirrored u v x"
    and fin: "\<And>v. mirrored u w v \<Longrightarrow> mirrored u w (fin i v)"
  shows "run_loop body fin i n v = Inr (ret, w') \<Longrightarrow> mirrored u w v \<Longrightarrow> i < length (servers w) \<Longrightarrow>
    mirrored u w w'"
proof (induction n arbitrary: v)
  case 0
  then show ?case
    by (auto simp: run_loop.simps [of _ _ _ 0] thread_exit_def intro!: mirrored_upd fin split: if_splits)
next
  case (Suc n)
  show ?case
  proof (cases "s_run_thread (the_server i v)")
    case True
    with Suc.prems obtain x where x: "body i v = Inr x" "run_loop body fin i n x = Inr (ret, w')"
      by (auto simp: run_loop.simps [of _ _ _ "Suc n"])
    from Suc.prems have "wired u v" "i < length (servers v)" by (simp_all add: mirrored_def)
    with body [OF x(1)] have "mirrored u v x" by blast
    with Suc.prems(2) have "mirrored u w x" by (rule mirrored_trans)
    with Suc.IH [OF x(2)] Suc.prems(3) show ?thesis by blast
  next
    case False
    with Suc.prems show ?thesis
      by (auto simp: run_loop.simps [of _ _ _ "Suc n"] thread_exit_def intro!: mirrored_upd fin)
  qed
qed

lemma mirrored_entry: "wired u w \<Longrightarrow> mirrored u w (thread_entry i w)"
  unfolding thread_entry_def by (rule mirrored_upd) simp_all

lemma mirrored_tcp_threads:
  "inet_tcp_thread k (dispatch k app) i n w = Inr (ret, w') \<Longrightarrow> wired u w \<Longrightarrow> i < length (servers w) \<Longrightarrow>
   mirrored u w w'"
  "unix_tcp_thread k (dispatch k app) i n w = Inr (ret, w') \<Longrightarrow> wired u w \<Longrightarrow> i < length (servers w) \<Longrightarrow>
   mirrored u w w'"
  unfolding inet_tcp_thread_def unix_tcp_thread_def
  by (erule mirrored_loop [rotated 2], rule mirrored_entry;
      simp add: mirrored_epoll_iteration mirrored_Call)+

lemma mirrored_remove: "remove_client i cid v = (x, v') \<Longrightarrow> mirrored u w v \<Longrightarrow> mirrored u w v'"
  by (auto simp: remove_client_def store_removed_def Let_def intro!: mirrored_intros split: if_splits)

lemma mirrored_udp_session:
  assumes "udp_session k (dispatch k app) i log buffer sa readn v = Inr w'" "mirrored u w v"
    and i: "i < length (servers w)"
  shows "mirrored u w w'"
proof -
  let ?p = "k (trace v) New_Client"
  let ?c = "newUdpClientInfo (r_ptr ?p) sa"
  obtain cid w1 where a: "add_client i ?c (observe (Call New_Client ?p) v) = (cid, w1)" by fastforce
  with assms obtain w2 w3 where
    n1: "notify (dispatch k app) i (Client_Connected (s_server_id (the_server i w1)) cid) w1 = Inr w2" and
    n2: "notify (dispatch k app) i (Received (s_server_id (the_server i w1)) cid buffer (word_of_int readn)) w2 = Inr w3" and
    n3: "(case remove_client i cid w3 of (cid', x) \<Rightarrow>
           notify (dispatch k app) i (Client_Disconnected (s_server_id (the_server i w1)) cid') x) = Inr w'"
    by (auto simp: udp_session_def sys_def Let_def split: if_splits option.splits)
  from a assms(2) have "mirrored u w w1"
    by (auto simp: add_client_def addClientInfo_def Let_def intro!: mirrored_intros)
  from mirrored_then_notify [OF this n1 i] have "mirrored u w w2" .
  from mirrored_then_notify [OF this n2 i] have "mirrored u w w3" .
  moreover obtain cid' x where x: "remove_client i cid w3 = (cid', x)" by (cases "remove_client i cid w3")
  ultimately have "mirrored u w x" using mirrored_remove by blast
  from mirrored_then_notify [OF this _ i] n3 x show ?thesis by auto
qed

lemma mirrored_udp_iterations:
  "inet_udp_iteration debug k (dispatch k app) i w = Inr w' \<Longrightarrow> wired u w \<Longrightarrow> i < length (servers w) \<Longrightarrow> mirrored u w w'"
  "unix_udp_iteration k (dispatch k app) i w = Inr w' \<Longrightarrow> wired u w \<Longrightarrow> i < length (servers w) \<Longrightarrow> mirrored u w w'"
  by (auto simp: inet_udp_iteration_def unix_udp_iteration_def sys_def Let_def
      elim!: mirrored_udp_session intro!: mirrored_intros)

lemma mirrored_udp_threads:
  "inet_udp_thread debug k (dispatch k app) i n w = Inr (ret, w') \<Longrightarrow> wired u w \<Longrightarrow> i < length (servers w) \<Longrightarrow>
   mirrored u w w'"
  "unix_udp_thread k (dispatch k app) i n w = Inr (ret, w') \<Longrightarrow> wired u w \<Longrightarrow> i < length (servers w) \<Longrightarrow>
   mirrored u w w'"
  unfolding inet_udp_thread_def unix_udp_thread_def
  by (erule mirrored_loop [rotated 2], rule mirrored_entry;
      simp add: mirrored_udp_iterations mirrored_Call)+

lemma mirrored_lws:
  "lws_connect k (dispatch k app) i mk wsi v = Inr w' \<Longrightarrow> mirrored u w v \<Longrightarrow> i < length (servers w) \<Longrightarrow> mirrored u w w'"
  "lws_remove k (dispatch k app) i wsi v = Inr w' \<Longrightarrow> mirrored u w v \<Longrightarrow> i < length (servers w) \<Longrightarrow> mirrored u w w'"
  by (auto simp: lws_connect_def lws_remove_def sys_def add_client_def addClientInfo_def Let_def split: if_splits
      elim!: mirrored_then_notify [rotated] mirrored_remove_fd intro!: mirrored_intros)

lemma mirrored_callback_http:
  assumes "callback_http k (dispatch k app) c w = Inr w'" "wired u w"
    and "context_user (trace w) (http_context w) < length (servers w)"
  shows "mirrored u w w'"
  using assms
  by (cases "cb_reason c") (auto simp: callback_http_def http_switch_def sys_def Let_def split: if_splits
      elim!: mirrored_lws mirrored_notify_received intro!: mirrored_intros)

lemma mirrored_ws_received:
  "ws_received (dispatch k app) i client buf v = Inr w' \<Longrightarrow> mirrored u w v \<Longrightarrow> i < length (servers w) \<Longrightarrow>
   mirrored u w w'"
  by (auto simp: ws_received_def split: if_splits option.splits intro: mirrored_then_notify)

lemma mirrored_callback_websocket:
  assumes "callback_websocket k (dispatch k app) c w = Inr w'" "wired u w"
    and "context_user (trace w) (ws_context w) < length (servers w)"
  shows "mirrored u w w'"
proof (cases "cb_reason c")
  case LWS_CALLBACK_ESTABLISHED
  obtain protocol r where "getProtocolFromHeader k (cb_wsi c) w
    = Inr (protocol, observe (Call (Lws_Hdr_Copy_Uri (cb_wsi c) URI_BUFFER_LENGTH) r) w)"
    using getProtocolFromHeader_total by blast
  with LWS_CALLBACK_ESTABLISHED assms show ?thesis
    by (auto simp: callback_websocket_def ws_switch_def Let_def split: if_splits
        elim!: mirrored_lws intro!: mirrored_intros)
qed (use assms in \<open>auto simp: callback_websocket_def ws_switch_def sys_def Let_def split: if_splits
      elim!: mirrored_lws mirrored_ws_received intro!: mirrored_intros\<close>)

section \<open>The echo example over a connection\<close>

text \<open>
  The program of the echo example: its listener behind the layers, the configuration without the
  echo of its own, and \<open>i\<close> the first server with its id, an epoll server.
\<close>

definition echo_ready :: "nat \<Rightarrow> 'b aworld_scheme \<Rightarrow> bool" where
  "echo_ready i w \<longleftrightarrow> wired LISTENER w \<and> m_server_factory w = FACTORY_PTR
     \<and> \<not> enable_echo_test (m_configuration w)
     \<and> find_server (s_server_id (the_server i w)) [0 ..< length (servers w)] w = Some i
     \<and> s_kind (the_server i w) \<in> {InetDomainSocketTcpServer, UnixDomainSocketTcpServer}"

lemma aworld_observe [simp]:
  "m_server_factory (observe ob w) = m_server_factory w" "m_configuration (observe ob w) = m_configuration w"
  "m_server_listeners (observe ob w) = m_server_listeners w" "m_listeners (observe ob w) = m_listeners w"
  by (simp_all add: observe_def)

lemma find_server_observe [simp]: "find_server sid is (observe ob w) = find_server sid is w"
  by (induction "is") auto

lemma tcp_send_run:
  assumes "s_kind (the_server i w) \<in> {InetDomainSocketTcpServer, UnixDomainSocketTcpServer}"
    and "findClientInfo cid (s_clients (the_server i w)) = Some c" "getFd c = Some fd" "unat len \<le> length msg"
  shows "server_sendToClient k i cid msg len w
     = Inr (r_ret (k (trace w) (Write fd (take (unat len) msg))) \<noteq> -1,
            observe (Call (Write fd (take (unat len) msg)) (k (trace w) (Write fd (take (unat len) msg)))) w)"
  using assms
  by (auto simp: server_sendToClient_def inet_tcp_sendToClient_def unix_tcp_sendToClient_def
      tcp_sendToClient_def msg_bytes_ok sys_def Let_def)

lemma echo_dispatch:
  assumes ready: "echo_ready i w"
    and c: "findClientInfo cid (s_clients (the_server i w)) = Some c" "getFd c = Some fd"
    and len: "unat len \<le> length msg"
  defines "e \<equiv> Received (s_server_id (the_server i w)) cid msg len"
  shows "\<exists>r. notify (dispatch k (echo_app ids)) i e w = Inr (observe (Call (Write fd (take (unat len) msg)) r)
     (observe (Notified User_Listener LISTENER e) (observe (Notified Factory_Listener ANYSERVER e)
     (observe (Notified Base_Listener FACTORY e) w))))"
proof -
  let ?w1 = "observe (Notified Base_Listener FACTORY e) w"
  let ?w2 = "observe (Notified Factory_Listener ANYSERVER e) ?w1"
  let ?w3 = "observe (Notified User_Listener LISTENER e) ?w2"
  let ?c = "Write fd (take (unat len) msg)" let ?r = "k (trace ?w3) ?c"
  from ready have i: "i < length (servers w)"
  proof -
    have "find_server sid js v = Some j \<Longrightarrow> j \<in> set js" for sid js j and v :: "'b aworld_scheme"
      by (induction js) (auto split: if_splits)
    with ready show ?thesis by (fastforce simp: echo_ready_def)
  qed
  have api: "rfold (run_api k) (echo_app ids LISTENER (trace ?w3) e) ?w3 = Inr (observe (Call ?c ?r) ?w3)"
    using ready tcp_send_run [of i ?w3 cid c fd len msg k] c len
    by (simp add: echo_app_def e_def any_sendToClient_def on_factory_def factory_sendToClient_def
        echo_ready_def FACTORY_PTR_def)
  show ?thesis
    using ready i api wired_listeners [of LISTENER w i]
    by (auto simp: notify_def dispatch_def factory_event_def factory_forward_def any_event_def notify_users_def
        user_event_def echo_ready_def wired_def e_def factory_echo_def)
qed

lemma echo_ready_observe [simp]: "echo_ready i (observe ob w) = echo_ready i w"
  by (simp add: echo_ready_def)

lemma echo_connection:
  assumes k: "kernel_ok k" and inv: "tcp_inv FACTORY i w" and ready: "echo_ready i w"
    and fd: "fd \<in> set (client_fds (s_clients (the_server i w)))"
    and data: "0 < r_ret (k (trace w) (Read fd TCP_BUFFER_LENGTH))"
  shows "\<exists>e r w'. epoll_event k (dispatch k (echo_app ids)) i fd w = Inr w' \<and> servers w' = servers w
     \<and> trace w' = trace w @ [Call (Read fd TCP_BUFFER_LENGTH) (k (trace w) (Read fd TCP_BUFFER_LENGTH)),
         Notified Base_Listener FACTORY e, Notified Factory_Listener ANYSERVER e,
         Notified User_Listener LISTENER e,
         Call (Write fd (r_data (k (trace w) (Read fd TCP_BUFFER_LENGTH)))) r]"
proof -
  let ?s = "the_server i w" let ?c1 = "Read fd TCP_BUFFER_LENGTH"
  let ?r = "k (trace w) ?c1" let ?w1 = "observe (Call ?c1 ?r) w"
  let ?buf = "fill TCP_BUFFER_LENGTH (r_data ?r)" let ?n = "word_of_int (r_ret ?r) :: uint"
  from inv have i: "i < length (servers w)" and tab: "tcp_table (s_clients ?s)"
    and ne: "fd \<noteq> s_server_fd ?s" and cnt: "count_list (s_listeners ?s) FACTORY = 1"
    using fd by (auto simp: tcp_inv_def tcp_struct_def Let_def)
  from fd have "\<exists>c \<in> set (s_clients ?s). getFd c = Some fd" by (auto simp: client_fds_iff)
  then obtain c where find: "findClientInfo_fd fd (s_clients ?s) = Inr (Some c)"
    using by_fd.lookup_law [OF tab, of fd] by_fd.lookup_None_iff [OF tab, of fd]
    by (cases "List.find (\<lambda>c. getFd c = Some fd) (s_clients ?s)") auto
  then have c: "c \<in> set (s_clients ?s)" "getFd c = Some fd" using by_fd.lookup_Some_in [OF tab] by auto
  have c': "findClientInfo (ci_id c) (s_clients ?s) = Some c"
    using c(1) by_fd.wf_ids [OF tab] by (intro findClientInfo_in)
  note b = received_in_bounds [OF k data]
  have l: "length (r_data ?r) = nat (r_ret ?r)"
    using kernel_okD [OF k, of "trace w" ?c1] by simp
  have n: "unat ?n \<le> length ?buf" "take (unat ?n) ?buf = r_data ?r"
    using b l by (simp_all add: take_fill nat_le_iff)
  let ?e = "Received (s_server_id ?s) (ci_id c) ?buf ?n"
  have "epoll_event k (dispatch k (echo_app ids)) i fd w = notify (dispatch k (echo_app ids)) i ?e ?w1"
    using data find ne cnt
    by (auto simp: epoll_event_def epoll_read_def sys_def Let_def notify_received_def)
  with echo_dispatch [of i ?w1 "ci_id c" c fd ?n ?buf k ids] ready c(2) c' n show ?thesis
    by (intro exI [of _ ?e]) auto
qed

end
