(* ===== verification/System.thy ===== *)
theory System
  imports Application
begin

text \<open>
  The running program: the threads of all servers, signals and calls of the public interface, one
  step at a time and in any order. A step of a thread is one pass of its loop. The steps of one
  server are foreign to the others: they leave their tables, descriptors and sessions alone, which
  carries the invariants of the single servers over to every interleaving.
\<close>

section \<open>Steps\<close>

definition server_pass ::
  "bool \<Rightarrow> kernel \<Rightarrow> 'a listener \<Rightarrow> nat \<Rightarrow> 'a world_scheme \<Rightarrow> fault + 'a world_scheme" where
  "server_pass debug k up i w = (case s_kind (the_server i w) of
      WebSocketTcpServer \<Rightarrow> ws_iteration k up i w
    | HttpTcpServer \<Rightarrow> http_iteration k up i w
    | InetDomainSocketTcpServer \<Rightarrow> epoll_iteration k up i w
    | InetDomainSocketUdpServer \<Rightarrow> inet_udp_iteration debug k up i w
    | UnixDomainSocketTcpServer \<Rightarrow> epoll_iteration k up i w
    | UnixDomainSocketUdpServer \<Rightarrow> unix_udp_iteration k up i w)"

text \<open>What a thread function does behind its loop.\<close>

definition server_finish :: "kernel \<Rightarrow> nat \<Rightarrow> 'a world_scheme \<Rightarrow> 'a world_scheme" where
  "server_finish k i w =
     (if s_kind (the_server i w) \<in> {InetDomainSocketTcpServer, InetDomainSocketUdpServer, UnixDomainSocketUdpServer}
      then snd (sys k (Close (s_server_fd (the_server i w))) w) else w)"

inductive sys_step :: "bool \<Rightarrow> kernel \<Rightarrow> app \<Rightarrow> 'b aworld_scheme \<Rightarrow> 'b aworld_scheme \<Rightarrow> bool"
  for debug :: bool and k :: kernel and app :: app where
  enter: "i < length (servers w) \<Longrightarrow> s_thread (the_server i w) = Thread_Created \<Longrightarrow>
    sys_step debug k app w (thread_entry i w)"
| pass: "i < length (servers w) \<Longrightarrow> s_thread (the_server i w) = Thread_Running \<Longrightarrow>
    s_run_thread (the_server i w) \<Longrightarrow> server_pass debug k (dispatch k app) i w = Inr w' \<Longrightarrow>
    sys_step debug k app w w'"
| leave: "i < length (servers w) \<Longrightarrow> s_thread (the_server i w) = Thread_Running \<Longrightarrow>
    \<not> s_run_thread (the_server i w) \<Longrightarrow> sys_step debug k app w (thread_exit i (server_finish k i w))"
| signal: "process_signal k app sig w = Inr w' \<Longrightarrow> sys_step debug k app w w'"
| call: "run_api k c w = Inr w' \<Longrightarrow> sys_step debug k app w w'"

inductive_cases sys_stepE: "sys_step debug k app w w'"

definition reachable :: "bool \<Rightarrow> kernel \<Rightarrow> app \<Rightarrow> 'b aworld_scheme \<Rightarrow> 'b aworld_scheme \<Rightarrow> bool" where
  "reachable debug k app = (sys_step debug k app)\<^sup>*\<^sup>*"

lemma reachable_refl: "reachable debug k app w w"
  by (simp add: reachable_def)

lemma reachable_step: "reachable debug k app w v \<Longrightarrow> sys_step debug k app v x \<Longrightarrow> reachable debug k app w x"
  by (simp add: reachable_def)

section \<open>Steps that are foreign to a server\<close>

abbreviation serving :: "nat \<Rightarrow> 'a world_scheme \<Rightarrow> bool" where
  "serving i w \<equiv> s_thread (the_server i w) \<notin> {Thread_Exited, Thread_Joined}"

abbreviation is_tcp :: "nat \<Rightarrow> 'a world_scheme \<Rightarrow> bool" where
  "is_tcp i w \<equiv> s_kind (the_server i w) \<in> {InetDomainSocketTcpServer, UnixDomainSocketTcpServer}"

abbreviation is_udp :: "nat \<Rightarrow> 'a world_scheme \<Rightarrow> bool" where
  "is_udp i w \<equiv> s_kind (the_server i w) \<in> {InetDomainSocketUdpServer, UnixDomainSocketUdpServer}"

text \<open>
  What happens to server \<open>j\<close> in a step it has no part in: no event of it, its records stay allocated,
  and while it is serving its descriptors stay open and its epoll instance gets no new ones.
\<close>

definition foreign :: "nat \<Rightarrow> 'a world_scheme \<Rightarrow> 'a world_scheme \<Rightarrow> bool" where
  "foreign j w w' \<longleftrightarrow> stable_server (the_server j w) (the_server j w') \<and> length (servers w') = length (servers w)
     \<and> (\<exists>tr. trace w' = trace w @ tr
          \<and> (\<forall>L. session_run (s_server_id (the_server j w)) (notified Base_Listener FACTORY tr) L = Some L))
     \<and> ids_of j w \<inter> live_ptrs (trace w) \<subseteq> live_ptrs (trace w')
     \<and> (serving j w' \<longrightarrow> watched j w \<inter> open_fds (trace w) \<subseteq> open_fds (trace w')
          \<and> (is_tcp j w \<longrightarrow> (\<forall>fd. (s_epoll_fd (the_server j w), fd) \<in> epoll_regs (trace w')
               \<longrightarrow> (s_epoll_fd (the_server j w), fd) \<in> epoll_regs (trace w))))"

lemma foreign_refl [simp]: "foreign j w w"
  by (auto simp: foreign_def intro: exI [of _ "[]"])

lemma foreign_same:
  assumes "foreign j w v"
  shows "ids_of j v = ids_of j w" "watched j v = watched j w" "s_server_id (the_server j v) = s_server_id (the_server j w)"
    "s_epoll_fd (the_server j v) = s_epoll_fd (the_server j w)" "s_clients (the_server j v) = s_clients (the_server j w)"
    "s_kind (the_server j v) = s_kind (the_server j w)" "s_listeners (the_server j v) = s_listeners (the_server j w)"
    "s_server_fd (the_server j v) = s_server_fd (the_server j w)" "serving j v \<Longrightarrow> serving j w"
    "length (servers v) = length (servers w)"
proof -
  from assms have st: "stable_server (the_server j w) (the_server j v)" by (simp add: foreign_def)
  note f = stable_server_fields [OF st]
  show "ids_of j v = ids_of j w" "watched j v = watched j w" "s_server_id (the_server j v) = s_server_id (the_server j w)"
    "s_epoll_fd (the_server j v) = s_epoll_fd (the_server j w)" "s_clients (the_server j v) = s_clients (the_server j w)"
    "s_kind (the_server j v) = s_kind (the_server j w)" "s_listeners (the_server j v) = s_listeners (the_server j w)"
    "s_server_fd (the_server j v) = s_server_fd (the_server j w)"
    by (simp_all add: ids_of_def watched_def f)
  show "length (servers v) = length (servers w)" using assms by (simp add: foreign_def)
  show "serving j w" if "serving j v" using that stable_server_thread [OF st] by auto
qed

lemma foreign_trace:
  "foreign j w v \<Longrightarrow> \<exists>tr. trace v = trace w @ tr
     \<and> (\<forall>L. session_run (s_server_id (the_server j w)) (notified Base_Listener FACTORY tr) L = Some L)"
  by (simp add: foreign_def)

lemma foreign_trans:
  assumes "foreign j u v" "foreign j v w"
  shows "foreign j u w"
proof -
  from foreign_trace [OF assms(1)] obtain tr where t1: "trace v = trace u @ tr"
    "\<And>L. session_run (s_server_id (the_server j u)) (notified Base_Listener FACTORY tr) L = Some L" by blast
  from foreign_trace [OF assms(2)] obtain tr' where t2: "trace w = trace v @ tr'"
    "\<And>L. session_run (s_server_id (the_server j u)) (notified Base_Listener FACTORY tr') L = Some L"
    unfolding foreign_same(3) [OF assms(1)] by blast
  have tr: "\<exists>tr. trace w = trace u @ tr
    \<and> (\<forall>L. session_run (s_server_id (the_server j u)) (notified Base_Listener FACTORY tr) L = Some L)"
    by (intro exI [of _ "tr @ tr'"]) (simp add: session_run_append t1 t2)
  have st: "stable_server (the_server j u) (the_server j w)"
    using assms stable_server_trans unfolding foreign_def by blast
  have ids: "ids_of j u \<inter> live_ptrs (trace u) \<subseteq> live_ptrs (trace w)"
    using assms foreign_same(1) [OF assms(1)] unfolding foreign_def by blast
  have "watched j u \<inter> open_fds (trace u) \<subseteq> open_fds (trace w)
      \<and> (is_tcp j u \<longrightarrow> (\<forall>fd. (s_epoll_fd (the_server j u), fd) \<in> epoll_regs (trace w)
           \<longrightarrow> (s_epoll_fd (the_server j u), fd) \<in> epoll_regs (trace u)))" if "serving j w"
    using assms that foreign_same(9) [OF assms(2) that] foreign_same(2,4,6) [OF assms(1)]
    unfolding foreign_def by (simp; blast)
  with tr st ids assms show ?thesis unfolding foreign_def by simp
qed

lemma foreign_calm: "calm w w' \<Longrightarrow> j < length (servers w) \<Longrightarrow> foreign j w w'"
  using calm_server [of w w' j] calm_length [of w w'] calm_history [of w w'] quiet_notified [of _ FACTORY]
  by (fastforce simp: foreign_def calm_def)

lemma foreign_notify_effect:
  assumes "notify_effect ls e w w'" "j < length (servers w)"
    and "\<And>L. session_step (s_server_id (the_server j w)) e L = Some L"
  shows "foreign j w w'"
proof -
  from assms(1) obtain tr where tr: "trace w' = trace w @ tr"
    "notified Base_Listener FACTORY tr = replicate (count_list ls FACTORY) e"
    by (auto simp: notify_effect_def)
  have "session_run (s_server_id (the_server j w)) (replicate n e) L = Some L" for n L
    by (induction n) (simp_all add: assms(3))
  with tr notify_effect_server [OF assms(1,2)] notify_effect_history [OF assms(1)] show ?thesis
    by (auto simp: foreign_def)
qed

lemma foreign_Call:
  assumes "foreign j u w" "\<And>fd. c = Close fd \<Longrightarrow> serving j w \<Longrightarrow> fd \<notin> watched j w"
    and "\<And>fd. c = Epoll_Add (s_epoll_fd (the_server j w)) fd \<Longrightarrow> serving j w \<Longrightarrow> \<not> is_tcp j w"
  shows "foreign j u (observe (Call c r) w)"
proof -
  have "foreign j w (observe (Call c r) w)"
    using assms(2,3) by (cases c) (auto simp: foreign_def intro: exI [of _ "[Call c r]"])
  with assms(1) show ?thesis by (rule foreign_trans)
qed

lemma foreign_Released: "foreign j u w \<Longrightarrow> p \<notin> ids_of j w \<Longrightarrow> foreign j u (observe (Released p) w)"
  by (erule foreign_trans) (auto simp: foreign_def)

lemma foreign_upd: "foreign j u w \<Longrightarrow> i \<noteq> j \<Longrightarrow> foreign j u (upd_server i f w)"
  by (erule foreign_trans)
    (auto simp: foreign_def the_server_def upd_server_def ids_of_def watched_def intro: exI [of _ "[]"])

lemma removed_id_in:
  "removeClientInfo_fd fd cs = Inr (p, cs') \<Longrightarrow> length cs' < length cs \<Longrightarrow> p \<in> ci_id ` set cs"
proof -
  assume r: "removeClientInfo_fd fd cs = Inr (p, cs')" "length cs' < length cs"
  have "findClientInfo_fd fd cs = Inr (Some c) \<Longrightarrow> c \<in> set cs" for c
    by (induction cs) (auto split: option.splits if_splits)
  with r show ?thesis by (auto simp: removeClientInfo_fd_def split: option.splits)
qed

text \<open>The descriptor is closed before its record is removed.\<close>

definition hung_up :: "kernel \<Rightarrow> nat \<Rightarrow> int \<Rightarrow> 'a world_scheme \<Rightarrow> 'a world_scheme" where
  "hung_up k i fd w = snd (sys k (Close fd) (snd (sys k (Epoll_Del (s_epoll_fd (the_server i w)) fd)
     (snd (sys k (Read fd TCP_BUFFER_LENGTH) w)))))"

lemma hung_up_simps [simp]:
  "servers (hung_up k i fd w) = servers w" "the_server j (hung_up k i fd w) = the_server j w"
  "ids_of j (hung_up k i fd w) = ids_of j w" "watched j (hung_up k i fd w) = watched j w"
  by (simp_all add: hung_up_def sys_def Let_def watched_def)

lemma epoll_read_closed:
  assumes "epoll_read k up i fd w = Inr w'" "r_ret (k (trace w) (Read fd TCP_BUFFER_LENGTH)) \<le> 0"
  shows "\<exists>p v. remove_client_fd i fd (hung_up k i fd w) = Inr (p, v)
     \<and> notify up i (Client_Disconnected (s_server_id (the_server i v)) p) v = Inr w'"
  using assms by (auto simp: epoll_read_def hung_up_def sys_def Let_def)

lemma foreign_remove_fd:
  assumes "remove_client_fd i fd v = Inr (p, v')" "foreign j w v" "i \<noteq> j" "ids_of i v \<inter> ids_of j v = {}"
  shows "foreign j w v'"
proof -
  from assms(1) obtain r where r: "removeClientInfo_fd fd (s_clients (the_server i v)) = Inr r"
    and v': "(p, v') = store_removed i r v"
    by (auto simp: remove_client_fd_def)
  let ?u = "upd_server i (s_clients_update (\<lambda>_. snd r)) v"
  have u: "foreign j w ?u" using assms(2,3) by (rule foreign_upd)
  have "ids_of j ?u = ids_of j v" using foreign_same(1) [OF foreign_upd [OF foreign_refl assms(3)]] .
  then have "foreign j w (observe (Released (fst r)) ?u)" if "length (snd r) < length (s_clients (the_server i v))"
    using removed_id_in [of fd _ "fst r" "snd r"] r that assms(4)
    by (intro foreign_Released [OF u]) (auto simp: ids_of_def)
  with u v' show ?thesis by (auto simp: store_removed_def Let_def split: if_splits)
qed

context base_listener
begin

lemma foreign_notify:
  assumes "notify up i e v = Inr v'" "foreign j w v" "j < length (servers w)"
    and "\<And>L. session_step (s_server_id (the_server j w)) e L = Some L"
  shows "foreign j w v'"
proof -
  have "foreign j v v'"
    using assms foreign_same(3) [OF assms(2)]
    by (intro foreign_notify_effect [OF notify_effect [OF assms(1)]]) (auto simp: foreign_def)
  with assms(2) show ?thesis by (rule foreign_trans)
qed

lemma foreign_epoll_event:
  assumes run: "epoll_event k up i fd w = Inr w'" and ij: "i \<noteq> j" "i < length (servers w)" "j < length (servers w)"
    and sid: "s_server_id (the_server i w) \<noteq> s_server_id (the_server j w)"
    and ep: "serving j w \<Longrightarrow> is_tcp j w \<Longrightarrow> s_epoll_fd (the_server i w) \<noteq> s_epoll_fd (the_server j w)"
    and fds: "serving j w \<Longrightarrow> fd \<notin> watched j w" and ids: "ids_of i w \<inter> ids_of j w = {}"
  shows "foreign j w w'"
proof (cases "fd = s_server_fd (the_server i w)")
  case True
  with run have "epoll_accept k up i w = Inr w'" by (simp add: epoll_event_def)
  with ij sid ep show ?thesis
    by (auto simp: epoll_accept_def sys_def add_client_def addClientInfo_def Let_def split: if_splits
        elim!: foreign_notify intro!: foreign_upd foreign_Call)
next
  case False
  with run have r: "epoll_read k up i fd w = Inr w'" by (simp add: epoll_event_def)
  show ?thesis
  proof (cases "r_ret (k (trace w) (Read fd TCP_BUFFER_LENGTH)) \<le> 0")
    case True
    let ?u = "hung_up k i fd w"
    from epoll_read_closed [OF r True] obtain p v where v: "remove_client_fd i fd ?u = Inr (p, v)"
      and n: "notify up i (Client_Disconnected (s_server_id (the_server i v)) p) v = Inr w'" by blast
    have u: "foreign j w ?u"
      using fds ep by (auto simp: hung_up_def sys_def Let_def watched_def intro!: foreign_Call)
    have "s_server_id (the_server i v) = s_server_id (the_server i w)"
      using v ij by (auto simp: remove_client_fd_def store_removed_def Let_def split: if_splits)
    with n sid ij foreign_remove_fd [OF v u ij(1)] ids show ?thesis
      by (auto elim!: foreign_notify)
  next
    case False
    with r sid ij show ?thesis
      by (auto simp: epoll_read_def sys_def Let_def notify_received_def split: if_splits option.splits
          elim!: foreign_notify intro!: foreign_Call)
  qed
qed

end

section \<open>What a step of its own does to a server\<close>

text \<open>Descriptors and records that are new in its table were not in use anywhere.\<close>

definition own :: "nat \<Rightarrow> 'a world_scheme \<Rightarrow> 'a world_scheme \<Rightarrow> bool" where
  "own i w v \<longleftrightarrow> length (servers v) = length (servers w)
     \<and> s_kind (the_server i v) = s_kind (the_server i w) \<and> s_listeners (the_server i v) = s_listeners (the_server i w)
     \<and> s_server_id (the_server i v) = s_server_id (the_server i w)
     \<and> s_epoll_fd (the_server i v) = s_epoll_fd (the_server i w) \<and> s_server_fd (the_server i v) = s_server_fd (the_server i w)
     \<and> (s_thread (the_server i v) = s_thread (the_server i w) \<or> s_kind (the_server i w) = WebSocketTcpServer)
     \<and> watched i v \<subseteq> watched i w \<union> - open_fds (trace w)
     \<and> ids_of i v \<subseteq> ids_of i w \<union> - live_ptrs (trace w)"

definition fresh_only :: "nat \<Rightarrow> 'a world_scheme \<Rightarrow> 'a world_scheme \<Rightarrow> bool" where
  "fresh_only i w v \<longleftrightarrow> length (servers v) = length (servers w)
     \<and> s_kind (the_server i v) = s_kind (the_server i w)
     \<and> s_server_id (the_server i v) = s_server_id (the_server i w)
     \<and> s_epoll_fd (the_server i v) = s_epoll_fd (the_server i w)
     \<and> watched i v \<subseteq> watched i w \<union> - open_fds (trace w)
     \<and> ids_of i v \<subseteq> ids_of i w \<union> - live_ptrs (trace w)"

lemma own_fresh_only: "own i w v \<Longrightarrow> fresh_only i w v"
  by (simp add: own_def fresh_only_def)

lemma own_refl [simp]: "own i w w"
  by (auto simp: own_def)

lemma own_observe [simp]: "own i w (observe ob v) = own i w v"
  by (simp add: own_def watched_def)

lemma own_upd:
  assumes "own i w v" "i < length (servers w)"
    and "set (client_fds cs) \<subseteq> watched i v \<union> - open_fds (trace w)"
    and "ci_id ` set cs \<subseteq> ids_of i v \<union> - live_ptrs (trace w)"
  shows "own i w (upd_server i (s_clients_update (\<lambda>_. cs)) v)"
  using assms by (auto simp: own_def watched_def)

lemma own_stable:
  assumes "own i w v" "stable_server (the_server i v) (the_server i x)" "length (servers x) = length (servers v)"
  shows "own i w x"
proof -
  note f = stable_server_fields [OF assms(2)] stable_server_thread [OF assms(2)]
  from assms(1,3) f show ?thesis unfolding own_def watched_def ids_of_def by auto
qed

lemma own_removed:
  assumes "removeClientInfo_fd fd (s_clients (the_server i v)) = Inr (p, cs)" "own i w v" "i < length (servers w)"
  shows "own i w (upd_server i (s_clients_update (\<lambda>_. cs)) v)"
proof -
  have "set cs \<subseteq> set (s_clients (the_server i v))"
    using assms(1) by (auto simp: removeClientInfo_fd_def list_remove_def split: option.splits)
  moreover from this have "set (client_fds cs) \<subseteq> set (client_fds (s_clients (the_server i v)))"
    unfolding subset_iff client_fds_iff by blast
  ultimately show ?thesis
    using assms(2,3) by (intro own_upd) (auto simp: watched_def ids_of_def)
qed

context base_listener
begin

lemma own_notify:
  assumes "notify up i e v = Inr x" "own i w v" "i < length (servers w)"
  shows "own i w x"
proof -
  have "i < length (servers v)" using assms(2,3) by (simp add: own_def)
  from notify_effect_server [OF notify_effect [OF assms(1)] this] own_stable [OF assms(2)] show ?thesis by blast
qed

lemma own_epoll_event:
  assumes k: "kernel_ok k" and run: "epoll_event k up i fd w = Inr w'" and i: "i < length (servers w)"
  shows "own i w w'"
proof (cases "fd = s_server_fd (the_server i w)")
  case True
  let ?a = "Accept (s_server_fd (the_server i w))" let ?r = "k (trace w) ?a"
  define u where "u = snd (sys k (Epoll_Add (s_epoll_fd (the_server i w)) (r_ret ?r)) (snd (sys k ?a w)))"
  let ?p = "k (trace u) New_Client"
  let ?c = "newTcpClientInfo (r_ptr ?p) (r_ret ?r) (r_addr ?r)"
  let ?v = "upd_server i (s_clients_update (\<lambda>_. s_clients (the_server i w) @ [?c])) (observe (Call New_Client ?p) u)"
  have u: "own i w u" "ids_of i u = ids_of i w" "watched i u = watched i w" "live_ptrs (trace u) = live_ptrs (trace w)"
    by (simp_all add: u_def sys_def Let_def watched_def)
  have "r_ret ?r \<notin> open_fds (trace w)" "r_ptr ?p \<notin> live_ptrs (trace w)"
    using kernel_okD [OF k, of "trace w" ?a] kernel_okD [OF k, of "trace u" New_Client] u(4) by simp_all
  then have "own i w ?v"
    using u i by (intro own_upd) (auto simp: watched_def ids_of_def)
  moreover have "notify up i (Client_Connected (s_server_id (the_server i w)) (r_ptr ?p)) ?v = Inr w'"
    using run True i by (auto simp: epoll_event_def epoll_accept_def u_def sys_def add_client_def addClientInfo_def
        Let_def split: if_splits)
  ultimately show ?thesis using own_notify i by blast
next
  case False
  then have r: "epoll_read k up i fd w = Inr w'" using run by (simp add: epoll_event_def)
  show ?thesis
  proof (cases "r_ret (k (trace w) (Read fd TCP_BUFFER_LENGTH)) \<le> 0")
    case True
    from epoll_read_closed [OF r True] obtain p v where "remove_client_fd i fd (hung_up k i fd w) = Inr (p, v)"
      and n: "notify up i (Client_Disconnected (s_server_id (the_server i v)) p) v = Inr w'" by blast
    moreover have "own i w (hung_up k i fd w)" by (simp add: own_def)
    ultimately have "own i w v"
      using own_removed [of fd i "hung_up k i fd w" _ _ w] i
      by (auto simp: remove_client_fd_def store_removed_def Let_def)
    with own_notify [OF n] i show ?thesis by blast
  next
    case False
    with r i show ?thesis
      by (auto simp: epoll_read_def sys_def Let_def notify_received_def split: if_splits option.splits
          elim!: own_notify)
  qed
qed

end

section \<open>A fleet of servers\<close>

definition member_ok :: "nat \<Rightarrow> 'a world_scheme \<Rightarrow> bool" where
  "member_ok i w \<longleftrightarrow> (is_tcp i w \<or> is_udp i w) \<and> s_listeners (the_server i w) = [FACTORY]
     \<and> session_at FACTORY i w = Some (ids_of i w) \<and> ids_of i w \<subseteq> live_ptrs (trace w)
     \<and> (is_udp i w \<longrightarrow> s_clients (the_server i w) = [])
     \<and> (serving i w \<longrightarrow> watched i w \<subseteq> open_fds (trace w) \<and> (is_tcp i w \<longrightarrow> tcp_struct i w))"

definition apart :: "nat \<Rightarrow> nat \<Rightarrow> 'a world_scheme \<Rightarrow> bool" where
  "apart i j w \<longleftrightarrow> s_server_id (the_server i w) \<noteq> s_server_id (the_server j w) \<and> ids_of i w \<inter> ids_of j w = {}
     \<and> (serving i w \<and> serving j w \<longrightarrow> watched i w \<inter> watched j w = {}
          \<and> (is_tcp i w \<and> is_tcp j w \<longrightarrow> s_epoll_fd (the_server i w) \<noteq> s_epoll_fd (the_server j w)))"

definition fleet :: "'a world_scheme \<Rightarrow> bool" where
  "fleet w \<longleftrightarrow> (\<forall>i < length (servers w). member_ok i w \<and> (\<forall>j < length (servers w). i \<noteq> j \<longrightarrow> apart i j w))"

lemma foreign_session:
  assumes "foreign j w w'"
  shows "session_at FACTORY j w' = session_at FACTORY j w"
proof -
  from foreign_trace [OF assms] obtain tr where "trace w' = trace w @ tr"
    "\<And>L. session_run (s_server_id (the_server j w)) (notified Base_Listener FACTORY tr) L = Some L" by blast
  then show ?thesis
    by (cases "session_at FACTORY j w") (simp_all add: session_at_def session_run_append foreign_same(3) [OF assms])
qed

lemma member_foreign:
  assumes ok: "member_ok j w" and f: "foreign j w w'" and j: "j < length (servers w)"
  shows "member_ok j w'"
proof -
  note same = foreign_same [OF f]
  have ids: "ids_of j w \<subseteq> live_ptrs (trace w')" using ok f by (auto simp: member_ok_def foreign_def)
  have "watched j w \<subseteq> open_fds (trace w') \<and> (is_tcp j w \<longrightarrow> tcp_struct j w')" if s: "serving j w'"
  proof -
    from ok same(9) [OF s] have w: "watched j w \<subseteq> open_fds (trace w)" "is_tcp j w \<longrightarrow> tcp_struct j w"
      by (simp_all add: member_ok_def)
    with f s have o: "watched j w \<subseteq> open_fds (trace w')"
      and e: "is_tcp j w \<Longrightarrow> (s_epoll_fd (the_server j w), fd) \<in> epoll_regs (trace w')
        \<Longrightarrow> (s_epoll_fd (the_server j w), fd) \<in> epoll_regs (trace w)" for fd
      by (auto simp: foreign_def)
    have "tcp_struct j w'" if "is_tcp j w"
    proof -
      from w(2) that have "tcp_struct j w" by blast
      then show ?thesis
        using e [OF that] o ids unfolding tcp_struct_def Let_def same(1,4,5,8,10) watched_def insert_subset by blast
    qed
    with o show ?thesis by blast
  qed
  with ok ids show ?thesis
    unfolding member_ok_def same(1,2,5-7) foreign_session [OF f] by blast
qed

lemma apart_sym: "apart i j w \<Longrightarrow> apart j i w"
  by (auto simp: apart_def)

lemma apart_own:
  assumes a: "apart i j w" and o: "fresh_only i w w'" and f: "foreign j w w'" and j: "member_ok j w"
    and s: "serving i w' \<Longrightarrow> serving i w"
  shows "apart i j w'"
proof -
  note same = foreign_same [OF f]
  have "ids_of i w' \<inter> ids_of j w = {}"
  proof -
    have "ids_of i w' \<subseteq> ids_of i w \<union> - live_ptrs (trace w)" using o by (simp add: fresh_only_def)
    moreover have "ids_of j w \<subseteq> live_ptrs (trace w)" "ids_of i w \<inter> ids_of j w = {}"
      using j a unfolding member_ok_def apart_def by blast+
    ultimately show ?thesis by blast
  qed
  moreover have "watched i w' \<inter> watched j w = {}" if "serving i w'" "serving j w'"
  proof -
    have "watched i w' \<subseteq> watched i w \<union> - open_fds (trace w)" using o by (simp add: fresh_only_def)
    moreover have "watched j w \<subseteq> open_fds (trace w)" using j same(9) [OF that(2)] unfolding member_ok_def by blast
    moreover have "watched i w \<inter> watched j w = {}"
      using a s [OF that(1)] same(9) [OF that(2)] unfolding apart_def by blast
    ultimately show ?thesis by blast
  qed
  moreover have "s_epoll_fd (the_server i w) \<noteq> s_epoll_fd (the_server j w)"
    if "serving i w'" "serving j w'" "is_tcp i w" "is_tcp j w"
    using a s [OF that(1)] same(9) [OF that(2)] that(3,4) unfolding apart_def by blast
  moreover have "s_server_id (the_server i w') = s_server_id (the_server i w)"
    "s_epoll_fd (the_server i w') = s_epoll_fd (the_server i w)" "s_kind (the_server i w') = s_kind (the_server i w)"
    using o by (simp_all add: fresh_only_def)
  ultimately show ?thesis using a unfolding apart_def same(1-4,6) by metis
qed

lemma apart_foreign:
  assumes "apart i j w" "foreign i w w'" "foreign j w w'"
  shows "apart i j w'"
  using assms(1) foreign_same(9) [OF assms(2)] foreign_same(9) [OF assms(3)]
  unfolding apart_def foreign_same(1-4,6) [OF assms(2)] foreign_same(1-4,6) [OF assms(3)] by blast

lemma fleet_step:
  assumes w: "fleet w" and f: "\<And>j. j \<noteq> i \<Longrightarrow> j < length (servers w) \<Longrightarrow> foreign j w w'"
    and o: "fresh_only i w w'" and ok: "member_ok i w'" and s: "serving i w' \<Longrightarrow> serving i w"
  shows "fleet w'"
proof -
  have len: "length (servers w') = length (servers w)" using o by (simp add: fresh_only_def)
  have "member_ok j w'" if "j < length (servers w)" for j
    using that ok f [of j] w member_foreign [of j w w'] by (cases "j = i") (auto simp: fleet_def)
  moreover have "apart a b w'" if "a < length (servers w)" "b < length (servers w)" "a \<noteq> b" for a b
  proof -
    have ab: "apart a b w" "apart b a w" "member_ok a w" "member_ok b w" using w that by (auto simp: fleet_def)
    consider "a = i" | "b = i" | "a \<noteq> i" "b \<noteq> i" by blast
    then show ?thesis
    proof cases
      case 1
      with apart_own [of i b w w'] o f [of b] ab s that show ?thesis by auto
    next
      case 2
      with apart_own [of i a w w'] o f [of a] ab s that show ?thesis by (auto intro: apart_sym)
    next
      case 3
      with apart_foreign ab f that show ?thesis by blast
    qed
  qed
  ultimately show ?thesis by (simp add: fleet_def len)
qed

lemma fleet_calm:
  assumes "fleet w" "calm w w'"
  shows "fleet w'"
proof -
  have f: "foreign j w w'" if "j < length (servers w)" for j by (rule foreign_calm [OF assms(2) that])
  with assms member_foreign apart_foreign show ?thesis
    unfolding fleet_def calm_length [OF assms(2)] by blast
qed

text \<open>Calls that open, close and register nothing.\<close>

lemma fleet_Call:
  assumes "fleet w" "\<And>fd. c \<noteq> Close fd" "\<And>ep fd. c \<noteq> Epoll_Add ep fd"
  shows "fleet (observe (Call c r) w)"
proof -
  have f: "foreign j w (observe (Call c r) w)" for j
    by (rule foreign_Call [OF foreign_refl]) (use assms(2,3) in auto)
  show ?thesis
    using assms(1) member_foreign [OF _ f] apart_foreign [OF _ f f] unfolding fleet_def by auto
qed

section \<open>Every step keeps the fleet\<close>

lemma member_tcp_inv: "member_ok i w \<Longrightarrow> is_tcp i w \<Longrightarrow> serving i w \<Longrightarrow> tcp_inv FACTORY i w"
  unfolding member_ok_def tcp_inv_def by auto

lemma tcp_inv_member:
  "tcp_inv FACTORY i w \<Longrightarrow> is_tcp i w \<Longrightarrow> s_listeners (the_server i w) = [FACTORY] \<Longrightarrow> member_ok i w"
  unfolding member_ok_def tcp_inv_def tcp_struct_def watched_def Let_def by auto

context base_listener
begin

lemma fleet_epoll_event:
  assumes k: "kernel_ok k" and w: "fleet w" and i: "i < length (servers w)" and tcp: "is_tcp i w"
    and s: "serving i w" and fd: "fd \<in> watched i w" and run: "epoll_event k up i fd w = Inr w'"
  shows "fleet w' \<and> watched i w - {fd} \<subseteq> watched i w' \<and> own i w w'"
proof -
  have ok: "member_ok i w" and ap: "\<And>j. j < length (servers w) \<Longrightarrow> j \<noteq> i \<Longrightarrow> apart i j w"
    using w i by (auto simp: fleet_def)
  have o: "own i w w'" using own_epoll_event [OF k run i] .
  from epoll_event_inv [OF k member_tcp_inv [OF ok tcp s] fd run]
  have inv: "tcp_inv FACTORY i w'" and sub: "watched i w - {fd} \<subseteq> watched i w'" by auto
  have "member_ok i w'"
    using o ok tcp by (intro tcp_inv_member [OF inv]) (auto simp: own_def member_ok_def)
  moreover have "foreign j w w'" if j: "j \<noteq> i" "j < length (servers w)" for j
  proof (rule foreign_epoll_event [OF run _ i j(2)])
    show "i \<noteq> j" using j by simp
    show "s_server_id (the_server i w) \<noteq> s_server_id (the_server j w)" "ids_of i w \<inter> ids_of j w = {}"
      using ap [OF j(2,1)] unfolding apart_def by blast+
    show "s_epoll_fd (the_server i w) \<noteq> s_epoll_fd (the_server j w)" if "serving j w" "is_tcp j w"
      using ap [OF j(2,1)] s tcp that unfolding apart_def by blast
    show "fd \<notin> watched j w" if "serving j w"
      using ap [OF j(2,1)] s fd that unfolding apart_def by blast
  qed
  ultimately have "fleet w'"
    using fleet_step [OF w _ own_fresh_only [OF o]] s by blast
  with sub o show ?thesis by simp
qed

lemma fleet_epoll_batch:
  assumes "kernel_ok k" "fleet w" "i < length (servers w)" "is_tcp i w" "serving i w"
    and "distinct fds" "set fds \<subseteq> watched i w" "rfold (epoll_event k up i) fds w = Inr w'"
  shows "fleet w'"
  using assms
proof (induction fds arbitrary: w)
  case (Cons fd fds)
  then obtain v where v: "epoll_event k up i fd w = Inr v" "rfold (epoll_event k up i) fds v = Inr w'" by auto
  have "fd \<in> watched i w" using Cons.prems by simp
  with fleet_epoll_event [OF Cons.prems(1-5) _ v(1)]
  have f: "fleet v" "watched i w - {fd} \<subseteq> watched i v" "own i w v" by blast+
  have "set fds \<subseteq> watched i v" using f(2) Cons.prems(6,7) by auto
  moreover have "i < length (servers v)" "is_tcp i v" "serving i v"
    using f(3) Cons.prems(3-5) by (auto simp: own_def)
  ultimately show ?case using Cons.IH [OF Cons.prems(1) f(1)] Cons.prems(6) v(2) by simp
qed simp

lemma fleet_epoll_iteration:
  assumes k: "kernel_ok k" and w: "fleet w" and i: "i < length (servers w)" and tcp: "is_tcp i w"
    and s: "serving i w" and run: "epoll_iteration k up i w = Inr w'"
  shows "fleet w'"
proof -
  let ?c = "Epoll_Wait (s_epoll_fd (the_server i w)) EPOLL_SIZE"
  let ?r = "k (trace w) ?c" let ?fds = "take (nat (r_ret ?r)) (r_fds ?r)"
  have v: "fleet (observe (Call ?c ?r) w)" using w by (rule fleet_Call) auto
  have "tcp_struct i w" using w i tcp s by (auto simp: fleet_def member_ok_def)
  with kernel_okD [OF k, of "trace w" ?c]
  have "distinct ?fds" "set ?fds \<subseteq> watched i (observe (Call ?c ?r) w)"
    by (auto simp: Let_def tcp_struct_def watched_def)
  with fleet_epoll_batch [OF k v, of i ?fds w'] i tcp s run show ?thesis
    by (simp add: epoll_iteration_def sys_def Let_def)
qed

lemma udp_session_effect:
  assumes k: "kernel_ok k" and i: "i < length (servers w)" and e: "s_clients (the_server i w) = []"
    and run: "udp_session k up i log buffer clientaddr readn w = Inr w'"
  shows "own i w w'" "open_fds (trace w') = open_fds (trace w)"
    "\<And>j. i \<noteq> j \<Longrightarrow> j < length (servers w) \<Longrightarrow> s_server_id (the_server i w) \<noteq> s_server_id (the_server j w) \<Longrightarrow>
      ids_of j w \<subseteq> live_ptrs (trace w) \<Longrightarrow> foreign j w w'"
proof -
  let ?s = "the_server i w" let ?sid = "s_server_id ?s"
  let ?p = "k (trace w) New_Client"
  let ?c = "newUdpClientInfo (r_ptr ?p) clientaddr"
  let ?w1 = "upd_server i (s_clients_update (\<lambda>_. [?c])) (observe (Call New_Client ?p) w)"
  from run e i obtain w2 w3 where
    n1: "notify up i (Client_Connected ?sid (r_ptr ?p)) ?w1 = Inr w2" and
    n2: "notify up i (Received ?sid (r_ptr ?p) buffer (word_of_int readn)) w2 = Inr w3" and
    n3: "(case remove_client i (r_ptr ?p) w3 of (cid, v) \<Rightarrow>
           notify up i (Client_Disconnected ?sid cid) v) = Inr w'" and p: "r_ptr ?p \<noteq> 0"
    by (auto simp: udp_session_def sys_def add_client_def addClientInfo_def Let_def
        split: if_splits option.splits)
  have i1: "i < length (servers ?w1)" using i by simp
  note f1 = notify_effect [OF n1] note s1 = notify_effect_server [OF f1 i1]
  have i2: "i < length (servers w2)" using s1 i1 by simp
  note f2 = notify_effect [OF n2] note s2 = notify_effect_server [OF f2 i2]
  have i3: "i < length (servers w3)" using s2 i2 by simp
  note t1 = stable_server_fields [OF conjunct1 [OF s1]] and t2 = stable_server_fields [OF conjunct1 [OF s2]]
  have cl3: "s_clients (the_server i w3) = [?c]" using t1(1) t2(1) i by simp
  let ?u = "upd_server i (s_clients_update (\<lambda>_. [])) w3"
  let ?w4 = "observe (Released (r_ptr ?p)) ?u"
  have n4: "notify up i (Client_Disconnected ?sid (r_ptr ?p)) ?w4 = Inr w'"
    using n3 cl3 by (simp add: remove_client_def removeClientInfo_def list_remove_def store_removed_def Let_def)
  have new: "r_ptr ?p \<notin> live_ptrs (trace w)" using kernel_okD [OF k, of "trace w" New_Client] by simp
  have "own i w (observe (Call New_Client ?p) w)" by simp
  then have "own i w ?w1"
    using i new by (intro own_upd) (simp_all add: client_fds_def newUdpClientInfo_def hash_ptr_def getFd_def)
  then have "own i w w3" using own_notify [OF n2] own_notify [OF n1] i by blast
  then have "own i w ?u" using i by (intro own_upd) (simp_all add: client_fds_def)
  then have "own i w ?w4" by simp
  with own_notify [OF n4] i show "own i w w'" by blast
  show "open_fds (trace w') = open_fds (trace w)"
    using notify_effect_history [OF f1] notify_effect_history [OF f2] notify_effect_history [OF notify_effect [OF n4]]
    by simp
  show "foreign j w w'" if "i \<noteq> j" "j < length (servers w)" "?sid \<noteq> s_server_id (the_server j w)"
    "ids_of j w \<subseteq> live_ptrs (trace w)" for j
  proof -
    have "foreign j w ?w1" using that(1) by (intro foreign_upd foreign_Call) simp_all
    then have "foreign j w w2" by (rule foreign_notify [OF n1 _ that(2)]) (use that(3) in simp)
    then have "foreign j w w3" by (rule foreign_notify [OF n2 _ that(2)]) (use that(3) in simp)
    then have 3: "foreign j w ?u" using that(1) by (rule foreign_upd)
    have "r_ptr ?p \<notin> ids_of j ?u" using new that(4) foreign_same(1) [OF 3] by blast
    with 3 have "foreign j w ?w4" by (rule foreign_Released)
    then show ?thesis by (rule foreign_notify [OF n4 _ that(2)]) (use that(3) in simp)
  qed
qed

text \<open>A UDP server's pass, for both classes: calls that open and close nothing, then one datagram.\<close>

lemma fleet_udp_session:
  assumes k: "kernel_ok k" and w: "fleet w" and i: "i < length (servers w)" and udp: "is_udp i w"
    and s: "serving i w" and len: "unat (word_of_int readn :: uint) \<le> length buffer"
    and run: "udp_session k up i log buffer clientaddr readn w = Inr w'"
  shows "fleet w'"
proof -
  have ok: "member_ok i w" and ap: "\<And>j. j < length (servers w) \<Longrightarrow> j \<noteq> i \<Longrightarrow> apart i j w"
    and others: "\<And>j. j < length (servers w) \<Longrightarrow> member_ok j w" using w i by (auto simp: fleet_def)
  have e: "s_clients (the_server i w) = []" and ls: "s_listeners (the_server i w) = [FACTORY]"
    using ok udp unfolding member_ok_def by blast+
  have inv: "udp_inv FACTORY i w"
    using ok e ls i by (simp add: udp_inv_def member_ok_def ids_of_def)
  note eff = udp_session_effect [OF k i e run]
  have inv': "udp_inv FACTORY i w'" using udp_session_run [OF inv len run] .
  have e': "s_clients (the_server i w') = []" using inv' by (simp add: udp_inv_def)
  have same: "s_listeners (the_server i w') = [FACTORY]" "s_kind (the_server i w') = s_kind (the_server i w)"
    and th: "s_thread (the_server i w') = s_thread (the_server i w)"
    using eff(1) ls udp by (auto simp: own_def)
  have "watched i w \<subseteq> open_fds (trace w)" using ok s unfolding member_ok_def by blast
  moreover have "watched i w' \<subseteq> watched i w \<union> - open_fds (trace w)" using eff(1) by (simp add: own_def)
  moreover have "s_server_fd (the_server i w') = s_server_fd (the_server i w)"
    using eff(1) by (simp add: own_def)
  ultimately have "watched i w' \<subseteq> open_fds (trace w')" 
    unfolding watched_def e e' eff(2) by (simp add: client_fds_def)
  with inv' e' same udp have "member_ok i w'"
    unfolding member_ok_def udp_inv_def ids_of_def by auto
  moreover have "foreign j w w'" if j: "j \<noteq> i" "j < length (servers w)" for j
    using ap [OF j(2,1)] others [OF j(2)] j unfolding apart_def member_ok_def
    by (intro eff(3)) blast+
  ultimately show ?thesis
    using fleet_step [OF w _ own_fresh_only [OF eff(1)]] s th by simp
qed

lemma fleet_udp_iterations:
  assumes k: "kernel_ok k" and w: "fleet w" and i: "i < length (servers w)" and udp: "is_udp i w" and s: "serving i w"
    and rcv: "\<And>tr fd. 0 \<le> r_ret (k tr (Recvfrom fd UDP_BUFFER_LENGTH))"
  shows "inet_udp_iteration debug k up i w = Inr w' \<Longrightarrow> fleet w'"
    "unix_udp_iteration k up i w = Inr w' \<Longrightarrow> fleet w'"
proof -
  let ?c = "Recvfrom (s_server_fd (the_server i w)) UDP_BUFFER_LENGTH"
  let ?r = "k (trace w) ?c" let ?w1 = "observe (Call ?c ?r) w" let ?h = "Gethostbyaddr (r_addr ?r)"
  note len = udp_datagram_len [OF k rcv, of "trace w" "s_server_fd (the_server i w)"]
  have f: "fleet ?w1" using w by (rule fleet_Call) simp_all
  then have f2: "fleet (observe (Call ?h (k (trace ?w1) ?h)) ?w1)" by (rule fleet_Call) simp_all
  show "fleet w'" if "inet_udp_iteration debug k up i w = Inr w'"
    using that i udp s len fleet_udp_session [OF k f2, of i "r_ret ?r" "fill UDP_BUFFER_LENGTH (r_data ?r)"]
    by (simp add: inet_udp_iteration_def sys_def Let_def)
  show "fleet w'" if "unix_udp_iteration k up i w = Inr w'"
    using that i udp s len fleet_udp_session [OF k f, of i "r_ret ?r" "fill UDP_BUFFER_LENGTH (r_data ?r)"]
    by (simp add: unix_udp_iteration_def sys_def Let_def)
qed

lemma fleet_server_pass:
  assumes k: "kernel_ok k" and w: "fleet w" and i: "i < length (servers w)" and s: "serving i w"
    and rcv: "\<And>tr fd. 0 \<le> r_ret (k tr (Recvfrom fd UDP_BUFFER_LENGTH))"
    and run: "server_pass debug k up i w = Inr w'"
  shows "fleet w'"
proof -
  have "is_tcp i w \<or> is_udp i w" using w i unfolding fleet_def member_ok_def by blast
  then show ?thesis
  proof
    assume "is_tcp i w"
    then show ?thesis using run fleet_epoll_iteration [OF k w i _ s] by (auto simp: server_pass_def)
  next
    assume "is_udp i w"
    then show ?thesis using run fleet_udp_iterations [OF k w i _ s rcv] by (auto simp: server_pass_def)
  qed
qed

end

text \<open>The entry and the end of a thread function.\<close>

lemma fleet_thread:
  assumes w: "fleet w" and i: "i < length (servers w)" and s: "serving i w"
  shows "fleet (upd_server i (\<lambda>s. s\<lparr>s_run_thread := r s, s_thread := t\<rparr>) w)"
proof -
  let ?w = "upd_server i (\<lambda>s. s\<lparr>s_run_thread := r s, s_thread := t\<rparr>) w"
  have same: "ids_of i ?w = ids_of i w" "watched i ?w = watched i w" using i by (simp_all add: ids_of_def watched_def)
  have "member_ok i w" using w i by (simp add: fleet_def)
  then have "member_ok i ?w"
    using s i unfolding member_ok_def same by (simp add: tcp_struct_def session_at_def same Let_def)
  moreover have "fresh_only i w ?w" using i unfolding fresh_only_def same by simp
  moreover have "foreign j w ?w" if "j \<noteq> i" for j
    using that by (intro foreign_upd) simp_all
  ultimately show ?thesis using s by (intro fleet_step [OF w]) blast+
qed

lemma fleet_enter:
  "fleet w \<Longrightarrow> i < length (servers w) \<Longrightarrow> s_thread (the_server i w) = Thread_Created \<Longrightarrow> fleet (thread_entry i w)"
  unfolding thread_entry_def by (rule fleet_thread) simp_all

lemma fleet_leave:
  assumes w: "fleet w" and i: "i < length (servers w)" and s: "serving i w"
  shows "fleet (thread_exit i (server_finish k i w))"
proof -
  let ?v = "server_finish k i w" let ?w = "thread_exit i ?v"
  have v: "the_server j ?v = the_server j w" "length (servers ?v) = length (servers w)"
    "live_ptrs (trace ?v) = live_ptrs (trace w)" "session_at FACTORY i ?v = session_at FACTORY i w" for j
    by (simp_all add: server_finish_def)
  have t: "trace ?w = trace ?v" "length (servers ?w) = length (servers w)"
    "the_server i ?w = (the_server i w)\<lparr>s_thread := Thread_Exited\<rparr>"
    using i v by (simp_all add: thread_exit_def)
  have same: "ids_of i ?w = ids_of i w" "watched i ?w = watched i w"
    "session_at FACTORY i ?w = session_at FACTORY i w"
    using v(4) by (simp_all add: ids_of_def watched_def t session_at_def v)
  have ok: "member_ok i w" and ap: "\<And>j. j < length (servers w) \<Longrightarrow> j \<noteq> i \<Longrightarrow> apart i j w"
    using w i by (auto simp: fleet_def)
  from ok have "member_ok i ?w"
    unfolding member_ok_def same by (simp add: t v)
  moreover have "fresh_only i w ?w" unfolding fresh_only_def same t by simp
  moreover have "foreign j w ?w" if j: "j \<noteq> i" "j < length (servers w)" for j
  proof -
    have "s_server_fd (the_server i w) \<notin> watched j w" if "serving j w"
      using ap [OF j(2,1)] s that unfolding apart_def watched_def [of i] by blast
    then have "foreign j w ?v"
      by (auto simp: server_finish_def watched_def intro!: foreign_Call)
    with j(1) show ?thesis unfolding thread_exit_def by (intro foreign_upd) simp_all
  qed
  ultimately show ?thesis using s by (intro fleet_step [OF w]) blast+
qed

lemma calm_process_signal: "process_signal k app sig w = Inr w' \<Longrightarrow> calm w w'"
  by (auto simp: process_signal_def deliver_def RaiseSignal_def onReceivedPosixSignal_def split: if_splits
      intro: calm_notify_users elim!: calm_rfold)

theorem fleet_sys_step:
  assumes k: "kernel_ok k" and rcv: "\<And>tr fd. 0 \<le> r_ret (k tr (Recvfrom fd UDP_BUFFER_LENGTH))"
    and w: "fleet w" and step: "sys_step debug k app w w'"
  shows "fleet w'"
  using step
proof cases
  case (enter i)
  then show ?thesis using fleet_enter [OF w] by simp
next
  case (pass i)
  then show ?thesis using dispatcher.fleet_server_pass [OF k w _ _ rcv] by simp
next
  case (leave i)
  then show ?thesis using fleet_leave [OF w] by simp
next
  case (signal sig)
  then show ?thesis using fleet_calm [OF w] calm_process_signal by blast
next
  case (call c)
  then show ?thesis using fleet_calm [OF w] calm_run_api by blast
qed

lemma fleet_reachable:
  assumes "kernel_ok k" "\<And>tr fd. 0 \<le> r_ret (k tr (Recvfrom fd UDP_BUFFER_LENGTH))"
    and "reachable debug k app w w'" "fleet w"
  shows "fleet w'"
  using assms(3) unfolding reachable_def
  by (induction rule: rtranclp_induct) (use assms(4) in simp, rule fleet_sys_step [OF assms(1,2)])

section \<open>What the application sees of all servers\<close>

text \<open>Signals reach the application's listener too; every other event comes from a server.\<close>

fun from_servers :: "event \<Rightarrow> bool" where
  "from_servers (System_Signal sig) = False"
| "from_servers _ = True"

definition sees_servers :: "nat \<Rightarrow> 'b aworld_scheme \<Rightarrow> bool" where
  "sees_servers u w \<longleftrightarrow> wired u w \<and> filter from_servers (notified User_Listener u (trace w))
     = filter from_servers (notified Base_Listener FACTORY (trace w))"

lemma session_run_from_servers: "session_run sid (filter from_servers es) L = session_run sid es L"
proof (induction es arbitrary: L)
  case (Cons e es)
  then show ?case by (cases e) (simp_all cong: bind_option_cong)
qed simp

lemma mirrored_sees: "mirrored u w w' \<Longrightarrow> sees_servers u w \<Longrightarrow> sees_servers u w'"
  by (auto simp: mirrored_def sees_servers_def)

lemma sees_quiet: "quiet_run w w' \<Longrightarrow> calm w w' \<Longrightarrow> sees_servers u w \<Longrightarrow> sees_servers u w'"
  by (rule mirrored_sees [OF calm_quiet_mirrored]) (simp_all add: sees_servers_def)

lemma sees_notify_signal:
  assumes "notify_users k app (System_Signal sig) w = Inr w'" "sees_servers u w"
  shows "sees_servers u w'"
proof -
  let ?w = "observe (Notified User_Listener u (System_Signal sig)) w"
  have "user_event k app u (System_Signal sig) ?w = Inr w'"
    using assms by (auto simp: notify_users_def sees_servers_def wired_def)
  moreover have "sees_servers u ?w" using assms(2) by (simp add: sees_servers_def)
  ultimately show ?thesis using sees_quiet quiet_run_user_event calm_user_event by blast
qed

lemma sees_signal:
  assumes "process_signal k app sig w = Inr w'" "sees_servers u w"
  shows "sees_servers u w'"
proof -
  have "rfold (\<lambda>_. notify_users k app (System_Signal sig)) hs x = Inr w' \<Longrightarrow> sees_servers u x \<Longrightarrow>
    sees_servers u w'" for hs :: "(int \<times> nat) list" and x
    by (induction hs arbitrary: x) (auto intro: sees_notify_signal)
  with assms show ?thesis
    by (auto simp: process_signal_def deliver_def RaiseSignal_def onReceivedPosixSignal_def [abs_def] case_prod_unfold split: if_splits)
qed

lemma sees_pass:
  assumes "server_pass debug k (dispatch k app) i w = Inr w'" "sees_servers u w" "i < length (servers w)"
    and "is_tcp i w \<or> is_udp i w"
  shows "sees_servers u w'"
proof -
  have "wired u w" using assms(2) by (simp add: sees_servers_def)
  with assms have "mirrored u w w'"
    by (auto simp: server_pass_def intro: mirrored_epoll_iteration mirrored_udp_iterations)
  then show ?thesis using assms(2) by (rule mirrored_sees)
qed

lemma sees_sys_step:
  assumes step: "sys_step debug k app w w'" and w: "fleet w" and u: "sees_servers u w"
  shows "sees_servers u w'"
proof -
  have wired: "mirrored u w w" using u by (simp add: sees_servers_def)
  show ?thesis
    using step
  proof cases
    case (enter i)
    have "mirrored u w w'" unfolding enter(1) by (rule mirrored_entry) (use wired in simp)
    then show ?thesis using u by (rule mirrored_sees)
  next
    case (pass i)
    then have "is_tcp i w \<or> is_udp i w" using w unfolding fleet_def member_ok_def by blast
    with pass u show ?thesis using sees_pass by blast
  next
    case (leave i)
    have "mirrored u w w'" unfolding leave(1) thread_exit_def server_finish_def
      using wired by (auto intro!: mirrored_upd mirrored_Call)
    then show ?thesis using u by (rule mirrored_sees)
  next
    case (signal sig)
    then show ?thesis using u sees_signal by blast
  next
    case (call c)
    then show ?thesis using u sees_quiet quiet_run_api calm_run_api by blast
  qed
qed

lemma sees_reachable:
  assumes "kernel_ok k" "\<And>tr fd. 0 \<le> r_ret (k tr (Recvfrom fd UDP_BUFFER_LENGTH))"
    and "reachable debug k app w w'" "fleet w" "sees_servers u w"
  shows "sees_servers u w'"
  using assms(3) unfolding reachable_def
proof (induction rule: rtranclp_induct)
  case (step v x)
  then have "fleet v" using assms(4) fleet_reachable [OF assms(1,2)] unfolding reachable_def by blast
  with step show ?case using sees_sys_step by blast
qed (use assms(5) in simp)

end
