(* ===== verification/Boot.thy ===== *)
theory Boot
  imports System
begin

text \<open>
  From a program that was just set up to one in service: \<open>init\<close> and \<open>start\<close> of the public object
  establish the invariant that System carries over every further step, for every configuration of
  domain socket servers.
\<close>

section \<open>What a successful \<open>init\<close> of one server does\<close>

text \<open>Only the two descriptors of the server are stored; nobody is notified.\<close>

definition but_fds :: "server \<Rightarrow> server \<Rightarrow> bool" where
  "but_fds s t \<longleftrightarrow> t = s\<lparr>s_epoll_fd := s_epoll_fd t, s_server_fd := s_server_fd t\<rparr>"

definition only_fds :: "nat \<Rightarrow> 'a world_scheme \<Rightarrow> 'a world_scheme \<Rightarrow> bool" where
  "only_fds i w v \<longleftrightarrow> i < length (servers w) \<and> length (servers v) = length (servers w)
   \<and> but_fds (the_server i w) (the_server i v)
   \<and> (\<forall>j. j \<noteq> i \<longrightarrow> the_server j v = the_server j w)
   \<and> world.more v = world.more w \<and> (\<forall>ly l. notified ly l (trace v) = notified ly l (trace w))"

text \<open>
  A successful \<open>init\<close> opens the server's descriptor; a TCP server registers it with a new epoll
  instance.
\<close>

definition inited :: "nat \<Rightarrow> 'a world_scheme \<Rightarrow> 'a world_scheme \<Rightarrow> bool" where
  "inited i w w' \<longleftrightarrow> only_fds i w w' \<and> s_server_fd (the_server i w') \<notin> open_fds (trace w)
   \<and> open_fds (trace w') = insert (s_server_fd (the_server i w')) (open_fds (trace w))
   \<and> (if is_tcp i w
      then (\<forall>fd. (s_epoll_fd (the_server i w'), fd) \<notin> epoll_regs (trace w))
         \<and> epoll_regs (trace w') = insert (s_epoll_fd (the_server i w'), s_server_fd (the_server i w')) (epoll_regs (trace w))
      else epoll_regs (trace w') = epoll_regs (trace w))"

lemma observe_more [simp]: "world.more (observe ob w) = world.more w" "world.more (upd_server i f w) = world.more w"
  by (simp_all add: observe_def upd_server_def)

lemma but_fds_simps [simp]:
  "but_fds s s" "but_fds s t \<Longrightarrow> but_fds s (t\<lparr>s_epoll_fd := e\<rparr>)" "but_fds s t \<Longrightarrow> but_fds s (t\<lparr>s_server_fd := e\<rparr>)"
  by (cases s; cases t; simp add: but_fds_def)+

lemma but_fds_trans: "but_fds s t \<Longrightarrow> but_fds t u \<Longrightarrow> but_fds s u"
  by (cases s; cases t; cases u; simp add: but_fds_def)

lemma but_fds_fields:
  assumes "but_fds s t"
  shows "s_clients t = s_clients s" "s_listeners t = s_listeners s" "s_server_id t = s_server_id s"
    "s_kind t = s_kind s" "s_thread t = s_thread s"
  using assms by (cases s; cases t; simp add: but_fds_def)+

lemma only_fds_refl: "i < length (servers w) \<Longrightarrow> only_fds i w w"
  by (simp add: only_fds_def)

lemma only_fds_Call [simp]: "only_fds i w (observe (Call c r) v) = only_fds i w v"
  by (simp add: only_fds_def)

lemma only_fds_upd:
  "only_fds i w v \<Longrightarrow> only_fds i w (upd_server i (\<lambda>s. s\<lparr>s_epoll_fd := e\<rparr>) v)"
  "only_fds i w v \<Longrightarrow> only_fds i w (upd_server i (\<lambda>s. s\<lparr>s_server_fd := e\<rparr>) v)"
  by (auto simp: only_fds_def)

lemma only_fds_trans: "only_fds i u v \<Longrightarrow> only_fds i v w \<Longrightarrow> only_fds i u w"
  unfolding only_fds_def using but_fds_trans by metis

lemma only_fds_unlink [simp]: "only_fds i w (unlink_stale k p v) = only_fds i w v"
  by (simp add: unlink_stale_def sys_def Let_def)

lemma unlink_stale_open [simp]:
  "open_fds (trace (unlink_stale k p w)) = open_fds (trace w)" "the_server i (unlink_stale k p w) = the_server i w"
  by (simp_all add: unlink_stale_def sys_def Let_def)

lemma fresh_descriptor: "kernel_ok k \<Longrightarrow> r_ret (k tr (Socket fam ty)) \<notin> open_fds tr"
  using kernel_okD [of k tr "Socket fam ty"] by simp

lemma fresh_epoll: "kernel_ok k \<Longrightarrow> 0 \<le> r_ret (k tr (Epoll_Create n)) \<Longrightarrow> (r_ret (k tr (Epoll_Create n)), fd) \<notin> epoll_regs tr"
  using kernel_okD [of k tr "Epoll_Create n"] by force

lemma only_fds_len: "only_fds i w v \<Longrightarrow> i < length (servers v)"
  by (simp add: only_fds_def)

lemma inited_udp:
  assumes k: "kernel_ok k" and i: "i < length (servers w)" "\<not> is_tcp i w"
  shows "inet_udp_init k i w = Inr (True, w') \<Longrightarrow> inited i w w'"
    "unix_udp_init k i w = Inr (True, w') \<Longrightarrow> inited i w w'"
proof -
  note o = only_fds_refl [OF i(1)]
  show "inited i w w'" if "inet_udp_init k i w = Inr (True, w')"
    using that i o fresh_descriptor [OF k, of "trace w" AF_INET SOCK_DGRAM]
    by (auto simp: inet_udp_init_def sys_def Let_def inited_def split: if_splits intro!: only_fds_upd)
  let ?v = "unlink_stale k (s_bind (the_server i w)) w"
  have v: "only_fds i w ?v" using o by simp
  show "inited i w w'" if "unix_udp_init k i w = Inr (True, w')"
    using that i v only_fds_len [OF v] fresh_descriptor [OF k, of "trace ?v" AF_UNIX SOCK_DGRAM]
    by (auto simp: unix_udp_init_def sys_def Let_def inited_def split: if_splits intro!: only_fds_upd)
qed

lemma created_epoll:
  assumes k: "kernel_ok k" and run: "tcp_create_epoll k i w = (True, w1)" and i: "i < length (servers w)"
  shows "only_fds i w w1" "open_fds (trace w1) = open_fds (trace w)" "epoll_regs (trace w1) = epoll_regs (trace w)"
    "(s_epoll_fd (the_server i w1), fd) \<notin> epoll_regs (trace w)"
proof -
  let ?w1 = "observe (Call (Malloc (sizeof_epoll_event * EPOLL_SIZE))
     (k (trace w) (Malloc (sizeof_epoll_event * EPOLL_SIZE)))) w"
  show "only_fds i w w1" "open_fds (trace w1) = open_fds (trace w)" "epoll_regs (trace w1) = epoll_regs (trace w)"
    "(s_epoll_fd (the_server i w1), fd) \<notin> epoll_regs (trace w)"
    using run i fresh_epoll [OF k, of "trace ?w1" "s_max_client (the_server i w)"] only_fds_refl [OF i]
    by (auto simp: tcp_create_epoll_def sys_def Let_def intro!: only_fds_upd)
qed

lemma opened_socket:
  assumes k: "kernel_ok k" and run: "tcp_socket k fam failed i w = (True, w1)" and i: "i < length (servers w)"
    and ok: "\<And>r. \<not> failed r \<Longrightarrow> r = r_ret (k (trace w) (Socket fam SOCK_STREAM)) \<Longrightarrow> 0 \<le> r"
  shows "only_fds i w w1" "s_server_fd (the_server i w1) \<notin> open_fds (trace w)"
    "open_fds (trace w1) = insert (s_server_fd (the_server i w1)) (open_fds (trace w))"
    "epoll_regs (trace w1) = epoll_regs (trace w)" "s_epoll_fd (the_server i w1) = s_epoll_fd (the_server i w)"
  using run i ok fresh_descriptor [OF k, of "trace w" fam SOCK_STREAM] only_fds_refl [OF i]
  by (auto simp: tcp_socket_def sys_def Let_def split: if_splits intro!: only_fds_upd)

text \<open>The registration of the descriptor, behind \<open>bind\<close> and \<open>listen\<close>.\<close>

definition registered_with :: "nat \<Rightarrow> 'a world_scheme \<Rightarrow> 'a world_scheme \<Rightarrow> bool" where
  "registered_with i w w' \<longleftrightarrow> only_fds i w w' \<and> the_server i w' = the_server i w \<and> open_fds (trace w') = open_fds (trace w)
     \<and> epoll_regs (trace w') = insert (s_epoll_fd (the_server i w), s_server_fd (the_server i w)) (epoll_regs (trace w))"

lemma listening:
  assumes "i < length (servers w)"
  shows "inet_tcp_listen k port i w = (True, w') \<Longrightarrow> registered_with i w w'"
    "unix_tcp_listen k sun i w = (True, w') \<Longrightarrow> registered_with i w w'"
  using only_fds_refl [OF assms]
  by (auto simp: inet_tcp_listen_def unix_tcp_listen_def tcp_epoll_add_def registered_with_def sys_def Let_def
      split: if_splits)

lemma inited_inet_tcp:
  assumes k: "kernel_ok k" and run: "inet_tcp_init k i w = Inr (True, w')" and i: "i < length (servers w)" "is_tcp i w"
  shows "inited i w w'"
proof -
  from run obtain w1 w2 port where c: "tcp_create_epoll k i w = (True, w1)"
    and s: "tcp_socket k AF_INET (\<lambda>fd. fd < 0) i w1 = (True, w2)"
    and b: "inet_tcp_listen k port i (snd (sys k (Set_Reuse_Addr (s_server_fd (the_server i w2))) w2)) = (True, w')"
    by (auto simp: inet_tcp_init_def sys_def Let_def split: prod.splits if_splits)
  note c = created_epoll [OF k c i(1)]
  note s = opened_socket [OF k s only_fds_len [OF c(1)]]
  let ?v = "snd (sys k (Set_Reuse_Addr (s_server_fd (the_server i w2))) w2)"
  have "registered_with i ?v w'" using listening(1) [OF _ b] only_fds_len [OF s(1)] by simp
  moreover have "only_fds i w ?v" using only_fds_trans [OF c(1) s(1)] by simp
  moreover from calculation have "only_fds i w w'" using only_fds_trans unfolding registered_with_def by blast
  ultimately show ?thesis using c s i(2)
    by (auto simp: inited_def registered_with_def)
qed

lemma inited_unix_tcp:
  assumes k: "kernel_ok k" and fd: "\<And>tr. -1 \<le> r_ret (k tr (Socket AF_UNIX SOCK_STREAM))"
    and run: "unix_tcp_init k i w = Inr (True, w')" and i: "i < length (servers w)" "is_tcp i w"
  shows "inited i w w'"
proof -
  from run obtain w1 w2 sun where c: "tcp_create_epoll k i w = (True, w1)"
    and s: "tcp_socket k AF_UNIX (\<lambda>fd. fd = -1) i (unlink_stale k (s_bind (the_server i w1)) w1) = (True, w2)"
    and b: "unix_tcp_listen k sun i w2 = (True, w')"
    by (auto simp: unix_tcp_init_def Let_def split: prod.splits if_splits)
  let ?v = "unlink_stale k (s_bind (the_server i w1)) w1"
  note c = created_epoll [OF k c i(1)]
  have v: "only_fds i w ?v" using c(1) by simp
  have nonneg: "r \<noteq> -1 \<Longrightarrow> r = r_ret (k tr (Socket AF_UNIX SOCK_STREAM)) \<Longrightarrow> 0 \<le> r" for r tr
    using fd [of tr] by linarith
  note s = opened_socket [OF k s only_fds_len [OF v] nonneg]
  have "registered_with i w2 w'" using listening(2) [OF _ b] only_fds_len [OF s(1)] by simp
  moreover have "only_fds i w w2" using only_fds_trans [OF v s(1)] by simp
  moreover from calculation have "only_fds i w w'" using only_fds_trans unfolding registered_with_def by blast
  ultimately show ?thesis using c s i(2)
    by (auto simp: inited_def registered_with_def)
qed

section \<open>From new servers to a fleet\<close>

text \<open>
  Servers that were just made: no clients, no listener but the factory, no event so far, the thread not
  past its first statement, ids that tell them apart.
\<close>

definition fresh_server :: "nat \<Rightarrow> 'a world_scheme \<Rightarrow> bool" where
  "fresh_server i w \<longleftrightarrow> (is_tcp i w \<or> is_udp i w) \<and> s_clients (the_server i w) = []
     \<and> s_listeners (the_server i w) = [FACTORY] \<and> session_at FACTORY i w = Some {}
     \<and> s_thread (the_server i w) \<in> {Thread_None, Thread_Created}"

definition telling_ids :: "'a world_scheme \<Rightarrow> bool" where
  "telling_ids w \<longleftrightarrow> distinct (List.map s_server_id (servers w))"

text \<open>The first \<open>n\<close> servers have their descriptors, each its own.\<close>

definition equipped :: "nat \<Rightarrow> 'a world_scheme \<Rightarrow> bool" where
  "equipped i w \<longleftrightarrow> s_server_fd (the_server i w) \<in> open_fds (trace w)
     \<and> (is_tcp i w \<longrightarrow> (\<forall>fd. (s_epoll_fd (the_server i w), fd) \<in> epoll_regs (trace w)
          \<longleftrightarrow> fd = s_server_fd (the_server i w)))"

definition own_fds :: "nat \<Rightarrow> nat \<Rightarrow> 'a world_scheme \<Rightarrow> bool" where
  "own_fds i j w \<longleftrightarrow> s_server_fd (the_server i w) \<noteq> s_server_fd (the_server j w)
     \<and> (is_tcp i w \<and> is_tcp j w \<longrightarrow> s_epoll_fd (the_server i w) \<noteq> s_epoll_fd (the_server j w))"

definition booting :: "nat \<Rightarrow> 'a world_scheme \<Rightarrow> bool" where
  "booting n w \<longleftrightarrow> telling_ids w \<and> (\<forall>i < length (servers w). fresh_server i w)
     \<and> (\<forall>i < n. equipped i w \<and> (\<forall>j < n. i \<noteq> j \<longrightarrow> own_fds i j w))"

lemma telling_idsD:
  "telling_ids w \<Longrightarrow> i < length (servers w) \<Longrightarrow> j < length (servers w) \<Longrightarrow> i \<noteq> j \<Longrightarrow>
   s_server_id (the_server i w) \<noteq> s_server_id (the_server j w)"
  by (auto simp: telling_ids_def the_server_def distinct_conv_nth)

text \<open>What \<open>init\<close> of server \<open>i\<close> means for the others and for itself.\<close>

lemma inited_server:
  assumes "inited i w w'"
  shows "s_kind (the_server j w') = s_kind (the_server j w)" "s_clients (the_server j w') = s_clients (the_server j w)"
    "s_listeners (the_server j w') = s_listeners (the_server j w)"
    "s_server_id (the_server j w') = s_server_id (the_server j w)" "s_thread (the_server j w') = s_thread (the_server j w)"
    "session_at l j w' = session_at l j w" "length (servers w') = length (servers w)" "j \<noteq> i \<Longrightarrow> the_server j w' = the_server j w"
proof -
  from assms have o: "but_fds (the_server i w) (the_server i w')" "\<And>j. j \<noteq> i \<Longrightarrow> the_server j w' = the_server j w"
    "notified Base_Listener l (trace w') = notified Base_Listener l (trace w)" "length (servers w') = length (servers w)"
    by (auto simp: inited_def only_fds_def)
  note f = but_fds_fields [OF o(1)]
  show "s_kind (the_server j w') = s_kind (the_server j w)" "s_clients (the_server j w') = s_clients (the_server j w)"
    "s_listeners (the_server j w') = s_listeners (the_server j w)"
    "s_server_id (the_server j w') = s_server_id (the_server j w)" "s_thread (the_server j w') = s_thread (the_server j w)"
    "session_at l j w' = session_at l j w" "length (servers w') = length (servers w)" "j \<noteq> i \<Longrightarrow> the_server j w' = the_server j w"
    using f o by (cases "j = i"; simp add: session_at_def)+
qed

lemma inited_fresh: "inited i w w' \<Longrightarrow> fresh_server j w \<Longrightarrow> fresh_server j w'"
  by (simp add: fresh_server_def inited_server)

lemma inited_ids: 
  assumes "inited i w w'" "telling_ids w"
  shows "telling_ids w'"
proof -
  have "List.map s_server_id (servers w') = List.map s_server_id (servers w)"
    using inited_server(4,7) [OF assms(1)] by (intro nth_equalityI) (simp_all add: the_server_def)
  with assms(2) show ?thesis by (simp add: telling_ids_def)
qed

lemma inited_equipped:
  assumes i: "inited i w w'" and e: "j \<noteq> i \<Longrightarrow> equipped j w"
  shows "equipped j w'"
proof (cases "j = i")
  case True
  with i show ?thesis by (auto simp: equipped_def inited_server [OF i] inited_def)
next
  case False
  then have eq: "the_server j w' = the_server j w" by (rule inited_server(8) [OF i])
  have e: "s_server_fd (the_server j w) \<in> open_fds (trace w)"
    "is_tcp j w \<Longrightarrow> (s_epoll_fd (the_server j w), s_server_fd (the_server j w)) \<in> epoll_regs (trace w)"
    "is_tcp j w \<Longrightarrow> (s_epoll_fd (the_server j w), fd) \<in> epoll_regs (trace w) \<longleftrightarrow> fd = s_server_fd (the_server j w)" for fd
    using e [OF False] unfolding equipped_def by blast+
  have o: "open_fds (trace w) \<subseteq> open_fds (trace w')" using i by (auto simp: inited_def)
  have "(s_epoll_fd (the_server j w), fd) \<in> epoll_regs (trace w')
      \<longleftrightarrow> (s_epoll_fd (the_server j w), fd) \<in> epoll_regs (trace w)" if "is_tcp j w" for fd
    using i e(2) [OF that] unfolding inited_def by (auto split: if_splits)
  with e o show ?thesis unfolding equipped_def eq by blast
qed

lemma inited_own_fds:
  assumes i: "inited i w w'" and j: "j \<noteq> i" "equipped j w"
  shows "own_fds i j w'" "own_fds j i w'"
proof -
  have eq: "the_server j w' = the_server j w" using j(1) by (rule inited_server(8) [OF i])
  have "s_server_fd (the_server i w') \<noteq> s_server_fd (the_server j w)"
    using i j(2) by (auto simp: inited_def equipped_def)
  moreover have "s_epoll_fd (the_server i w') \<noteq> s_epoll_fd (the_server j w)" if "is_tcp i w" "is_tcp j w"
  proof -
    have "(s_epoll_fd (the_server j w), s_server_fd (the_server j w)) \<in> epoll_regs (trace w)"
      using j(2) that(2) unfolding equipped_def by blast
    then show ?thesis using i that(1) unfolding inited_def by (metis (full_types))
  qed
  ultimately show "own_fds i j w'" "own_fds j i w'"
    unfolding own_fds_def eq inited_server(1) [OF i] by metis+
qed

lemma booting_step:
  assumes b: "booting n w" and i: "inited n w w'" 
  shows "booting (Suc n) w'"
proof -
  have f: "telling_ids w" "\<And>j. j < length (servers w) \<Longrightarrow> fresh_server j w" "\<And>j. j < n \<Longrightarrow> equipped j w"
    "\<And>j l. j < n \<Longrightarrow> l < n \<Longrightarrow> j \<noteq> l \<Longrightarrow> own_fds j l w"
    using b by (auto simp: booting_def)
  have "equipped j w'" if "j < Suc n" for j
    by (rule inited_equipped [OF i]) (use that f(3) in auto)
  moreover have "own_fds j l w'" if "j < Suc n" "l < Suc n" "j \<noteq> l" for j l
  proof -
    note jl = that
    consider "j = n" "l < n" | "l = n" "j < n" | "j < n" "l < n" using jl by (metis less_Suc_eq)
    then show ?thesis
    proof cases
      case 1
      then show ?thesis using inited_own_fds(1) [OF i, of l] f(3) [of l] by simp
    next
      case 2
      then show ?thesis using inited_own_fds(2) [OF i, of j] f(3) [of j] by simp
    next
      case 3
      then show ?thesis using f(4) [OF 3 jl(3)] unfolding own_fds_def
        by (simp add: inited_server(8) [OF i])
    qed
  qed
  moreover have "fresh_server j w'" if "j < length (servers w)" for j
    using inited_fresh [OF i] f(2) [OF that] by blast
  ultimately show ?thesis
    using inited_ids [OF i f(1)] unfolding booting_def inited_server(7) [OF i] by blast
qed

lemma booting_fleet:
  assumes "booting (length (servers w)) w"
  shows "fleet w"
proof -
  let ?n = "length (servers w)"
  have f: "telling_ids w" "\<And>j. j < ?n \<Longrightarrow> fresh_server j w" "\<And>j. j < ?n \<Longrightarrow> equipped j w"
    "\<And>j l. j < ?n \<Longrightarrow> l < ?n \<Longrightarrow> j \<noteq> l \<Longrightarrow> own_fds j l w"
    using assms by (auto simp: booting_def)
  have w: "watched i w = {s_server_fd (the_server i w)}" "ids_of i w = {}" if "i < ?n" for i
    using f(2) [OF that] by (simp_all add: watched_def ids_of_def fresh_server_def client_fds_def)
  have "member_ok i w" if "i < ?n" for i
  proof -
    note fi = f(2,3) [OF that]
    have "tcp_struct i w" if "is_tcp i w"
    proof -
      have "s_clients (the_server i w) = []" "count_list (s_listeners (the_server i w)) FACTORY = 1"
        "session_at FACTORY i w = Some {}" using fi(1) by (simp_all add: fresh_server_def)
      moreover have "s_server_fd (the_server i w) \<in> open_fds (trace w)"
        "\<And>fd. (s_epoll_fd (the_server i w), fd) \<in> epoll_regs (trace w) \<Longrightarrow> fd = s_server_fd (the_server i w)"
        using fi(2) that unfolding equipped_def by blast+
      ultimately have "tcp_inv FACTORY i w" using tcp_inv_initial \<open>i < ?n\<close> by blast
      then show ?thesis by (simp add: tcp_inv_def)
    qed
    with fi w [OF that] show ?thesis unfolding member_ok_def fresh_server_def equipped_def by simp
  qed
  moreover have "apart i j w" if "i < ?n" "j < ?n" "i \<noteq> j" for i j
    using f(4) [OF that] telling_idsD [OF f(1) that] w(1) [OF that(1)] w(1) [OF that(2)] w(2) [OF that(1)]
    unfolding apart_def own_fds_def by simp
  ultimately show ?thesis by (simp add: fleet_def)
qed

section \<open>The public object's \<open>init\<close> and \<open>start\<close>\<close>

lemma inited_server_init:
  assumes k: "kernel_ok k" and fd: "\<And>tr. -1 \<le> r_ret (k tr (Socket AF_UNIX SOCK_STREAM))"
    and i: "i < length (servers w)" "fresh_server i w" and run: "server_init k i w = Inr (True, w')"
  shows "inited i w w'"
  using i(2) run inited_udp [OF k i(1)] inited_inet_tcp [OF k _ i(1)] inited_unix_tcp [OF k fd _ i(1)]
  by (auto simp: server_init_def fresh_server_def)

lemma init_all_booting:
  assumes k: "kernel_ok k" and fd: "\<And>tr. -1 \<le> r_ret (k tr (Socket AF_UNIX SOCK_STREAM))"
    and run: "init_all k [n ..< length (servers w)] w = Inr (True, w')" and b: "booting n w" "n \<le> length (servers w)"
  shows "booting (length (servers w')) w' \<and> world.more w' = world.more w
     \<and> (\<forall>ly l. notified ly l (trace w') = notified ly l (trace w)) \<and> length (servers w') = length (servers w)
     \<and> (\<forall>i < length (servers w). s_listeners (the_server i w') = s_listeners (the_server i w))"
  using run b
proof (induction "length (servers w) - n" arbitrary: n w)
  case 0
  then show ?case by simp
next
  case (Suc m)
  then have n: "n < length (servers w)" "[n ..< length (servers w)] = n # [Suc n ..< length (servers w)]"
    by (auto simp: upt_conv_Cons)
  with Suc.prems(1) obtain v where v: "server_init k n w = Inr (True, v)"
    and rest: "init_all k [Suc n ..< length (servers w)] v = Inr (True, w')"
    by (auto split: if_splits)
  have "fresh_server n w" using Suc.prems(2) n by (simp add: booting_def)
  from inited_server_init [OF k fd n(1) this v] have i: "inited n w v" .
  have o: "world.more v = world.more w" "\<And>ly l. notified ly l (trace v) = notified ly l (trace w)"
    using i by (simp_all add: inited_def only_fds_def)
  note len = inited_server(7) [OF i]
  have "m = length (servers v) - Suc n" "init_all k [Suc n ..< length (servers v)] v = Inr (True, w')"
    "Suc n \<le> length (servers v)"
    using Suc.hyps(2) rest n(1) by (simp_all add: len)
  from Suc.hyps(1) [OF this(1,2) booting_step [OF Suc.prems(2) i] this(3)] o show ?case
    by (auto simp: len inited_server(3) [OF i])
qed

lemma booting_more: "booting n (w\<lparr>m_run := b\<rparr>) = booting n w" "fleet (w\<lparr>m_run := b\<rparr>) = fleet w" for w :: "'b aworld_scheme"
  by (simp_all add: booting_def telling_ids_def fresh_server_def equipped_def own_fds_def session_at_def the_server_def
      fleet_def member_ok_def apart_def ids_of_def watched_def tcp_struct_def)

text \<open>A configuration of domain socket servers whose names and bindings have different hashes.\<close>

definition socket_config :: "(string \<Rightarrow> size_t) \<Rightarrow> configuration \<Rightarrow> bool" where
  "socket_config hash c \<longleftrightarrow> (\<forall>si \<in> set (server_infos c). creates si \<longrightarrow> si_kinds si \<in> {INETDS, UNIXDS})
     \<and> distinct (List.map (\<lambda>si. hash (server_key (si_header si) (si_bind si) (si_tcp si))) (filter creates (server_infos c)))"

lemma fleet_app [simp]: "fleet (w\<lparr>m_interceptor := p, signals := s\<rparr>) = fleet w" for w :: "'b aworld_scheme"
  by (simp add: fleet_def member_ok_def apart_def ids_of_def watched_def tcp_struct_def session_at_def the_server_def)

lemma more_fields:
  fixes w w' :: "'b aworld_scheme"
  assumes "world.more w' = world.more w"
  shows "m_listeners w' = m_listeners w" "m_server_listeners w' = m_server_listeners w"
    "m_configuration w' = m_configuration w"
  using assms by (cases w; cases w'; simp)+

lemma create_servers_more:
  "create_servers env cap sis w = Inr (ok, w') \<Longrightarrow>
   world.more w' = world.more w \<and> (\<forall>ly l. notified ly l (trace w') = notified ly l (trace w))"
proof (induction sis arbitrary: w)
  case (Cons si sis)
  have one: "world.more v = world.more w \<and> (\<forall>ly l. notified ly l (trace v) = notified ly l (trace w))"
    if "create_server env cap si w = Inr (b, v)" for b v
    using that
    by (cases "si_kinds si") (auto simp: create_server_def add_server_def certify_def ws_addProtocols_def
        ws_fill_protocols_run sys_def Let_def split: if_splits)
  show ?case
  proof (cases "si_enable si")
    case True
    with Cons.prems obtain b v where v: "create_server env cap si w = Inr (b, v)"
      "(if b then create_servers env cap sis v else Inr (False, v)) = Inr (ok, w')" by auto
    show ?thesis
    proof (cases b)
      case True
      with v(2) Cons.IH [of v] one [OF v(1)] show ?thesis by simp
    qed (use v(2) one [OF v(1)] in auto)
  qed (use Cons in simp)
qed simp

lemma made_fresh:
  assumes m: "list_all2 (made_from hash cap) (filter creates (server_infos c)) (servers w)" and c: "socket_config hash c"
    and tr: "notified Base_Listener FACTORY (trace w) = []"
  shows "booting 0 w"
proof -
  have "fresh_server i w" if "i < length (servers w)" for i
  proof -
    let ?si = "filter creates (server_infos c) ! i"
    have i: "i < length (filter creates (server_infos c))" using list_all2_lengthD [OF m] that by simp
    then have "?si \<in> set (filter creates (server_infos c))" by (rule nth_mem)
    then have "si_kinds ?si \<in> {INETDS, UNIXDS}" using c by (auto simp: socket_config_def)
    with list_all2_nthD [OF m i] tr show ?thesis
      by (auto simp: fresh_server_def made_from_def the_server_def session_at_def)
  qed
  moreover have "List.map s_server_id (servers w)
      = List.map (\<lambda>si. hash (server_key (si_header si) (si_bind si) (si_tcp si))) (filter creates (server_infos c))"
    using m by (intro nth_equalityI) (auto simp: list_all2_conv_all_nth made_from_def)
  then have "telling_ids w" using c by (simp add: telling_ids_def socket_config_def)
  ultimately show ?thesis by (simp add: booting_def)
qed

lemma any_init_fleet:
  assumes k: "kernel_ok (e_kernel env)" and fd: "\<And>tr. -1 \<le> r_ret (e_kernel env tr (Socket AF_UNIX SOCK_STREAM))"
    and new: "m_server_factory w = 0" "\<not> f_exists w" "m_listeners w = [u]" "trace w = []"
    and cfg: "init_configuration (e_double env) (e_files env) (m_config_file w) newJsonConfiguration = (True, c)"
      "socket_config (e_hash env) c"
    and run: "any_init env catchable w = Inr (True, w1)"
  shows "fleet w1 \<and> sees_servers u w1 \<and> (\<forall>i < length (servers w1). serving i w1)"
proof -
  let ?w = "factory_addEventListener ANYSERVER ((newServerFactory w)\<lparr>m_server_factory := FACTORY_PTR\<rparr>)"
  from run new(1,2) obtain v where v: "factory_init env (m_config_file ?w) ?w = Inr (True, v)"
    and w1: "\<exists>p s. w1 = v\<lparr>m_interceptor := p, signals := s\<rparr>"
    by (auto simp: any_init_def factory_getInstance_def Let_def newServerFactory_def factory_addEventListener_def
        split: if_splits prod.splits)
  from v cfg(1) obtain x where cr: "create_servers env (c_capabilities c) (server_infos c)
      (?w\<lparr>m_configuration := c, the_logger := configure_logger c (the_logger ?w)\<rparr>) = Inr (True, x)"
    and all: "init_all (e_kernel env) [0 ..< length (servers x)] x = Inr (True, v)"
    by (auto simp: factory_init_def Let_def factory_addEventListener_def newServerFactory_def split: if_splits prod.splits)
  have x: "m_listeners x = [u]" "m_server_listeners x = [ANYSERVER]" "notified ly l (trace x) = []" for ly l
    using more_fields [OF conjunct1 [OF create_servers_more [OF cr]]] create_servers_more [OF cr] new
    by (simp_all add: factory_addEventListener_def newServerFactory_def)
  have "list_all2 (made_from (e_hash env) (c_capabilities c)) (filter creates (server_infos c)) (servers x)"
    using create_servers_run [OF cr] by (simp add: factory_addEventListener_def newServerFactory_def)
  then have "booting 0 x" using cfg(2) x(3) by (rule made_fresh)
  from init_all_booting [OF k fd all this]
  have b: "booting (length (servers v)) v" and more: "world.more v = world.more x"
    and n: "notified ly l (trace v) = notified ly l (trace x)" for ly l by auto
  have fl: "fleet w1" using booting_fleet [OF b] w1 by auto
  have sv: "s_listeners (the_server i v) = [FACTORY]" "serving i v" if "i < length (servers v)" for i
    using b that by (auto simp: booting_def fresh_server_def)
  from sv(1) have "list_all (\<lambda>s. s_listeners s = [FACTORY]) (servers v)" by (simp add: list_all_length the_server_def)
  then have "sees_servers u v" using x n more_fields [OF more] by (simp add: sees_servers_def wired_def)
  then have "sees_servers u w1" using w1 by (auto simp: sees_servers_def wired_def)
  with fl sv(2) w1 show ?thesis by (auto simp: the_server_def)
qed

text \<open>\<open>start\<close>: threads are created, in part of the servers if one cannot be.\<close>

lemma start_server:
  assumes "server_start k i w = (ok, w')" "fleet w" "sees_servers u w" "i < length (servers w)" "serving i w"
  shows "fleet w' \<and> sees_servers u w' \<and> length (servers w') = length (servers w)
    \<and> (\<forall>j. j \<noteq> i \<longrightarrow> the_server j w' = the_server j w)"
proof -
  let ?v = "observe (Call (Pthread_Create i) (k (trace w) (Pthread_Create i))) w"
  let ?w = "upd_server i (\<lambda>s. s\<lparr>s_run_thread := s_run_thread s, s_thread := Thread_Created\<rparr>) ?v"
  have kind: "is_tcp i w \<or> is_udp i w" using assms(2,4) unfolding fleet_def member_ok_def by blast
  then have w': "w' = (if r_ret (k (trace w) (Pthread_Create i)) \<noteq> 0 then ?v else ?w)"
    using assms(1) by (auto simp: server_start_def inet_tcp_start_def unix_tcp_start_def inet_udp_start_def
        unix_udp_start_def start_thread_def sys_def Let_def split: if_splits)
  have v: "fleet ?v" using assms(2) by (rule fleet_Call) simp_all
  have "mirrored u w w" using assms(3) by (simp add: sees_servers_def)
  then have m: "mirrored u w ?v" "mirrored u w ?w" by (auto intro!: mirrored_Call mirrored_upd)
  show ?thesis
    using fleet_thread [OF v, where i = i and r = s_run_thread and t = Thread_Created] v m [THEN mirrored_sees, OF assms(3)] assms(4,5)
    by (simp add: w')
qed

lemma start_fleet:
  assumes "start_all k is w = (ok, w')" "distinct is" "set is \<subseteq> {..< length (servers w)}"
    and "fleet w" "sees_servers u w" "\<And>i. i \<in> set is \<Longrightarrow> serving i w"
  shows "fleet w' \<and> sees_servers u w'"
  using assms
proof (induction "is" arbitrary: w)
  case (Cons i js)
  obtain b v where v: "server_start k i w = (b, v)" by (cases "server_start k i w")
  have i: "i < length (servers w)" "serving i w" using Cons.prems by auto
  note s = start_server [OF v Cons.prems(4,5) i]
  show ?case
  proof (cases b)
    case True
    then have "start_all k js v = (ok, w')" using Cons.prems(1) v by simp
    moreover have "serving l v" if "l \<in> set js" for l
    proof -
      have "the_server l v = the_server l w" using s that Cons.prems(2) by auto
      then show ?thesis using Cons.prems(6) [of l] that by simp
    qed
    ultimately show ?thesis using s Cons.prems by (intro Cons.IH [of v]) auto
  next
    case False
    then show ?thesis using Cons.prems(1) v s by simp
  qed
qed simp

lemma any_start_fleet:
  assumes "any_start k w = Inr (ok, w')" "fleet w" "sees_servers u w" "\<forall>i < length (servers w). serving i w"
  shows "fleet w' \<and> sees_servers u w'"
proof -
  from assms(1) obtain v where v: "start_all k [0 ..< length (servers w)] w = (ok, v)"
    and w': "w' = (if ok then v\<lparr>m_run := True\<rparr> else v)"
    by (auto simp: any_start_def on_factory_def factory_start_def split: if_splits prod.splits)
  have "fleet v \<and> sees_servers u v"
    by (rule start_fleet [OF v]) (use assms in auto)
  then show ?thesis by (simp add: w' booting_more sees_servers_def wired_def)
qed

text \<open>The program from its construction: \<open>init\<close>, \<open>start\<close>, and any number of steps of its threads.\<close>

lemma started_program:
  assumes k: "kernel_ok (e_kernel env)" and fd: "\<And>tr. -1 \<le> r_ret (e_kernel env tr (Socket AF_UNIX SOCK_STREAM))"
    and rcv: "\<And>tr fd. 0 \<le> r_ret (e_kernel env tr (Recvfrom fd UDP_BUFFER_LENGTH))"
    and new: "m_server_factory w = 0" "\<not> f_exists w" "m_listeners w = [u]" "trace w = []"
    and cfg: "init_configuration (e_double env) (e_files env) (m_config_file w) newJsonConfiguration = (True, c)"
      "socket_config (e_hash env) c"
    and run: "any_init env catchable w = Inr (True, w1)" "any_start (e_kernel env) w1 = Inr (ok, w2)"
      "reachable debug (e_kernel env) app w2 w'"
  shows "fleet w'" "sees_servers u w'"
proof -
  note i = any_init_fleet [OF k fd new cfg run(1)]
  then have s: "fleet w2 \<and> sees_servers u w2" using any_start_fleet [OF run(2)] by blast
  then show "fleet w'" "sees_servers u w'"
    using fleet_reachable [OF k rcv run(3)] sees_reachable [OF k rcv run(3)] by blast+
qed

end
