(* ===== verification/Shared_Context.thy ===== *)
theory Shared_Context
  imports Boot
begin

text \<open>
  The context of the websocket servers is a static member, and so is the context of the HTTP servers: what
  this means for a program with several servers of one of the two classes. The last \<open>init\<close> decides
  whose context the threads of all of them serve, and no step of the program changes that.
\<close>

section \<open>Live contexts\<close>

fun context_step :: "obs \<Rightarrow> size_t set \<Rightarrow> size_t set" where
  "context_step (Call (Lws_Create_Context info) r) A = (if r_ptr r = 0 then A else insert (r_ptr r) A)"
| "context_step (Call (Lws_Context_Destroy p) r) A = A - {p}"
| "context_step _ A = A"

definition live_contexts :: "obs list \<Rightarrow> size_t set" where
  "live_contexts tr = fold context_step tr {}"

text \<open>\<open>lws_create_context\<close> fails (a null pointer) or returns an object of its own.\<close>

definition fresh_contexts :: "kernel \<Rightarrow> bool" where
  "fresh_contexts k \<longleftrightarrow> (\<forall>tr info. r_ptr (k tr (Lws_Create_Context info)) \<notin> live_contexts tr)"

lemma live_contexts_simps [simp]:
  "live_contexts [] = {}" "live_contexts (tr @ obs) = fold context_step obs (live_contexts tr)"
  by (simp_all add: live_contexts_def)

lemma zero_not_live [simp]: "0 \<notin> live_contexts tr"
proof (induction tr rule: rev_induct)
  case (snoc ob tr)
  then show ?case by (cases "(ob, live_contexts tr)" rule: context_step.cases) auto
qed simp

text \<open>The observations that are neither the making nor the destruction of a context.\<close>

fun no_context :: "obs \<Rightarrow> bool" where
  "no_context (Call (Lws_Create_Context info) r) = False"
| "no_context (Call (Lws_Context_Destroy p) r) = False"
| "no_context _ = True"

lemma no_context_obs [simp]:
  "no_context ob \<Longrightarrow> context_step ob A = A"
  "no_context ob \<Longrightarrow> context_user (tr @ [ob]) p = context_user tr p"
  by (cases ob rule: no_context.cases; simp add: context_user_def)+

lemma context_user_made [simp]:
  "context_user (tr @ [Call (Lws_Create_Context info) r]) p = (if r_ptr r = p then li_user info else context_user tr p)"
  by (simp add: context_user_def)

lemma quiet_no_context: "quiet ob \<Longrightarrow> no_context ob"
  by (cases ob rule: no_context.cases) auto

section \<open>Operations that keep the contexts\<close>

text \<open>Only the client tables of the servers in \<open>A\<close> may change; contexts and classes stay.\<close>

definition touches :: "nat set \<Rightarrow> 'a world_scheme \<Rightarrow> 'a world_scheme \<Rightarrow> bool" where
  "touches A w v \<longleftrightarrow> ws_context v = ws_context w \<and> http_context v = http_context w
     \<and> live_contexts (trace v) = live_contexts (trace w) \<and> context_user (trace v) = context_user (trace w)
     \<and> List.map s_kind (servers v) = List.map s_kind (servers w)
     \<and> (\<forall>j < length (servers w). j \<notin> A \<longrightarrow> s_clients (the_server j v) = s_clients (the_server j w))"

lemma kinds_kept:
  assumes "List.map s_kind (servers v) = List.map s_kind (servers w)"
  shows "length (servers v) = length (servers w)"
    "i < length (servers w) \<Longrightarrow> s_kind (the_server i v) = s_kind (the_server i w)"
proof -
  show len: "length (servers v) = length (servers w)" using map_eq_imp_length_eq [OF assms] .
  show "s_kind (the_server i v) = s_kind (the_server i w)" if "i < length (servers w)"
    using arg_cong [OF assms, of "\<lambda>l. l ! i"] that len by (simp add: the_server_def)
qed

lemma touches_kinds:
  assumes "touches A w v"
  shows "length (servers v) = length (servers w)"
    "i < length (servers w) \<Longrightarrow> s_kind (the_server i v) = s_kind (the_server i w)"
  using assms kinds_kept [of v w] by (simp_all add: touches_def)

lemma touches_refl [simp]: "touches A w w"
  by (simp add: touches_def)

lemma touches_trans: "touches A u v \<Longrightarrow> touches A v w \<Longrightarrow> touches A u w"
  using touches_kinds(1) [of A u v] by (simp add: touches_def)

lemma touches_mono: "touches A w v \<Longrightarrow> A \<subseteq> B \<Longrightarrow> touches B w v"
  by (auto simp: touches_def)

lemma touches_observe: "touches A u w \<Longrightarrow> no_context ob \<Longrightarrow> touches A u (observe ob w)"
  by (simp add: touches_def fun_eq_iff)

lemma map_upd_same: "g (f (xs ! i)) = g (xs ! i) \<Longrightarrow> List.map g (xs[i := f (xs ! i)]) = List.map g xs"
  using list_update_id [of "List.map g xs" i] by (cases "i < length xs") (simp_all add: map_update list_update_beyond)

lemma touches_upd:
  assumes "touches A u w" "\<And>s. s_kind (f s) = s_kind s" "i \<in> A \<or> (\<forall>s. s_clients (f s) = s_clients s)"
  shows "touches A u (upd_server i f w)"
proof (rule touches_trans [OF assms(1)])
  have "s_clients (the_server j (upd_server i f w)) = s_clients (the_server j w)" if "j < length (servers w)" "j \<notin> A" for j
    using that assms(3) by (cases "j = i") (auto simp: the_server_def upd_server_def)
  then show "touches A w (upd_server i f w)"
    by (simp add: touches_def map_upd_same assms(2)) (simp add: upd_server_def map_upd_same assms(2))
qed

lemma touches_app [simp]:
  "touches A w (v\<lparr>http_req_body := b\<rparr>) = touches A w v" "touches A w (v\<lparr>ws_vhost := p\<rparr>) = touches A w v"
  by (simp_all add: touches_def the_server_def)

lemmas touches_intros = touches_observe touches_upd

lemma calm_touches:
  assumes "calm w v"
  shows "touches A w v"
proof -
  have "live_contexts (t @ tr) = live_contexts t \<and> context_user (t @ tr) = context_user t"
    if "\<forall>ob \<in> set tr. quiet ob" for t tr
    using that
  proof (induction tr rule: rev_induct)
    case (snoc ob tr)
    then show ?case using quiet_no_context [of ob] by (simp add: fun_eq_iff flip: append_assoc)
  qed simp
  moreover from assms have l: "list_all2 stable_server (servers w) (servers v)" by (simp add: calm_def)
  then have "List.map s_kind (servers v) = List.map s_kind (servers w)"
    using stable_server_fields(4) by (intro nth_equalityI) (auto simp: list_all2_conv_all_nth)
  moreover from l have "s_clients (the_server j v) = s_clients (the_server j w)" if "j < length (servers w)" for j
    using that stable_server_fields(1) by (auto simp: list_all2_conv_all_nth the_server_def)
  moreover from assms obtain tr where "trace v = trace w @ tr" "\<forall>ob \<in> set tr. quiet ob"
    by (auto simp: calm_def)
  ultimately show ?thesis using assms by (simp add: touches_def calm_def)
qed

lemma touches_calm: "touches A u w \<Longrightarrow> calm w v \<Longrightarrow> touches A u v"
  using touches_trans calm_touches by blast

lemma touches_remove_fd:
  "remove_client_fd i fd v = Inr (p, v') \<Longrightarrow> touches A w v \<Longrightarrow> i \<in> A \<Longrightarrow> touches A w v'"
  by (auto simp: remove_client_fd_def store_removed_def Let_def intro!: touches_intros split: if_splits)

lemma touches_remove: "remove_client i cid v = (p, v') \<Longrightarrow> touches A w v \<Longrightarrow> i \<in> A \<Longrightarrow> touches A w v'"
  by (auto simp: remove_client_def store_removed_def Let_def intro!: touches_intros split: if_splits)

context base_listener
begin

lemma touches_notify: "notify up i e v = Inr w' \<Longrightarrow> touches A w v \<Longrightarrow> touches A w w'"
  unfolding notify_def
proof (erule rfold_invariant)
  fix l u x
  assume u: "touches A w u" and x: "up l e (observe (Notified Base_Listener l e) u) = Inr x"
  have "touches A w (observe (Notified Base_Listener l e) u)" using u by (rule touches_observe) simp
  then show "touches A w x" using up_calm [OF x] by (rule touches_calm)
qed

lemma touches_notify_received:
  "notify_received up i client mk v = Inr w' \<Longrightarrow> touches A w v \<Longrightarrow> touches A w w'"
  by (auto simp: notify_received_def split: if_splits option.splits intro: touches_notify)

lemma touches_epoll_event:
  assumes "epoll_event k up i fd v = Inr w'" "touches A w v" "i \<in> A"
  shows "touches A w w'"
  using assms
  by (auto simp: epoll_event_def epoll_accept_def epoll_read_def sys_def add_client_def addClientInfo_def Let_def
      split: if_splits elim!: touches_notify touches_notify_received touches_remove_fd intro!: touches_intros)

lemma touches_epoll_iteration:
  assumes "epoll_iteration k up i w = Inr w'" "i \<in> A"
  shows "touches A w w'"
  using assms unfolding epoll_iteration_def
  by (auto simp: sys_def Let_def elim!: rfold_invariant intro!: touches_intros intro: touches_epoll_event)

lemma touches_udp_session:
  assumes "udp_session k up i log buffer sa readn v = Inr w'" "touches A w v" "i \<in> A"
  shows "touches A w w'"
proof -
  let ?p = "k (trace v) New_Client"
  obtain cid w1 where a: "add_client i (newUdpClientInfo (r_ptr ?p) sa) (observe (Call New_Client ?p) v) = (cid, w1)"
    by fastforce
  with assms(1) obtain w2 w3 where
    n: "notify up i (Client_Connected (s_server_id (the_server i w1)) cid) w1 = Inr w2"
    "notify up i (Received (s_server_id (the_server i w1)) cid buffer (word_of_int readn)) w2 = Inr w3"
    "(case remove_client i cid w3 of (cid', x) \<Rightarrow>
        notify up i (Client_Disconnected (s_server_id (the_server i w1)) cid') x) = Inr w'"
    by (auto simp: udp_session_def sys_def Let_def split: if_splits option.splits)
  have "touches A w w1"
    using a assms(2,3) by (auto simp: add_client_def addClientInfo_def Let_def intro!: touches_intros)
  then have "touches A w w3" using touches_notify n(1,2) by blast
  moreover obtain cid' x where "remove_client i cid w3 = (cid', x)" by fastforce
  ultimately show ?thesis using touches_remove touches_notify n(3) assms(3) by fastforce
qed

lemma touches_udp_iteration:
  assumes "i \<in> A"
  shows "inet_udp_iteration debug k up i w = Inr w' \<Longrightarrow> touches A w w'"
    "unix_udp_iteration k up i w = Inr w' \<Longrightarrow> touches A w w'"
  using assms by (auto simp: inet_udp_iteration_def unix_udp_iteration_def sys_def Let_def
      elim!: touches_udp_session intro!: touches_intros)

lemma touches_lws:
  assumes "i \<in> A"
  shows "lws_connect k up i mk wsi v = Inr w' \<Longrightarrow> touches A w v \<Longrightarrow> touches A w w'"
    "lws_remove k up i wsi v = Inr w' \<Longrightarrow> touches A w v \<Longrightarrow> touches A w w'"
  using assms
  by (auto simp: lws_connect_def lws_remove_def sys_def add_client_def addClientInfo_def Let_def split: if_splits
      elim!: touches_notify touches_remove_fd intro!: touches_intros)

lemma touches_http_switch:
  assumes "http_switch k up i c w = Inr w'" "i \<in> A"
  shows "touches A w w'"
  using assms
  by (cases "cb_reason c") (auto simp: http_switch_def sys_def Let_def
      elim!: touches_lws [rotated] touches_notify_received intro!: touches_intros)

lemma touches_ws_switch:
  assumes "ws_switch k up i c w = Inr w'" "i \<in> A"
  shows "touches A w w'"
proof (cases "cb_reason c")
  case LWS_CALLBACK_ESTABLISHED
  obtain protocol r where "getProtocolFromHeader k (cb_wsi c) w
    = Inr (protocol, observe (Call (Lws_Hdr_Copy_Uri (cb_wsi c) URI_BUFFER_LENGTH) r) w)"
    using getProtocolFromHeader_total by blast
  with LWS_CALLBACK_ESTABLISHED assms show ?thesis
    by (auto simp: ws_switch_def Let_def elim!: touches_lws [rotated] intro!: touches_intros)
qed (use assms in \<open>auto simp: ws_switch_def ws_received_def sys_def Let_def split: if_splits option.splits
      elim!: touches_lws [rotated] touches_notify intro!: touches_intros\<close>)

end

text \<open>The static context of a class.\<close>

definition class_context :: "server_kind \<Rightarrow> 'a world_scheme \<Rightarrow> size_t" where
  "class_context kind w = (if kind = WebSocketTcpServer then ws_context w else http_context w)"

abbreviation on_lws :: "nat \<Rightarrow> 'a world_scheme \<Rightarrow> bool" where
  "on_lws i w \<equiv> s_kind (the_server i w) \<in> {WebSocketTcpServer, HttpTcpServer}"

text \<open>The server whose clients a pass of the thread of server \<open>i\<close> works on.\<close>

definition served_by :: "nat \<Rightarrow> 'a world_scheme \<Rightarrow> nat" where
  "served_by i w = (if on_lws i w then context_user (trace w) (class_context (s_kind (the_server i w)) w) else i)"

lemma touches_static:
  assumes "touches A w v"
  shows "class_context kind v = class_context kind w" "context_user (trace v) = context_user (trace w)"
    "i < length (servers w) \<Longrightarrow> served_by i v = served_by i w"
  using assms touches_kinds(2) [OF assms] by (simp_all add: touches_def class_context_def served_by_def)

context base_listener
begin

lemma touches_callback_websocket:
  assumes "callback_websocket k up c v = Inr w'" "touches {context_user (trace w) (ws_context w)} w v"
  shows "touches {context_user (trace w) (ws_context w)} w w'"
proof -
  have "context_user (trace v) (ws_context v) = context_user (trace w) (ws_context w)"
    using assms(2) by (simp add: touches_def)
  with assms touches_ws_switch show ?thesis
    by (auto simp: callback_websocket_def Let_def split: if_splits intro: touches_trans)
qed

lemma touches_callback_http:
  assumes "callback_http k up c v = Inr w'" "touches {context_user (trace w) (http_context w)} w v"
  shows "touches {context_user (trace w) (http_context w)} w w'"
proof -
  have "context_user (trace v) (http_context v) = context_user (trace w) (http_context w)"
    using assms(2) by (simp add: touches_def)
  with assms touches_http_switch show ?thesis
    by (auto simp: callback_http_def Let_def split: if_splits intro: touches_trans)
qed

lemma touches_ws_iteration:
  "ws_iteration k up i w = Inr w' \<Longrightarrow> touches {context_user (trace w) (ws_context w)} w w'"
  unfolding ws_iteration_def sys_def Let_def
  by (auto elim!: rfold_invariant intro: touches_callback_websocket touches_observe)

lemma touches_http_iteration:
  "http_iteration k up i w = Inr w' \<Longrightarrow> touches {context_user (trace w) (http_context w)} w w'"
  unfolding http_iteration_def sys_def Let_def
  by (auto elim!: rfold_invariant intro: touches_callback_http touches_observe)

lemma touches_server_pass:
  assumes "server_pass debug k up i w = Inr w'"
  shows "touches {served_by i w} w w'"
  using assms touches_ws_iteration touches_http_iteration touches_epoll_iteration touches_udp_iteration
  by (cases "s_kind (the_server i w)") (auto simp: server_pass_def served_by_def class_context_def)

end

text \<open>The servers that are served at all; every step of the program works on their tables only.\<close>

definition served :: "'a world_scheme \<Rightarrow> nat set" where
  "served w = (\<lambda>i. served_by i w) ` {..< length (servers w)}"

lemma touches_served: "touches A w v \<Longrightarrow> served v = served w"
  using touches_kinds(1) touches_static(3) by (fastforce simp: served_def)

lemma touches_sys_step:
  assumes "sys_step debug k app w w'"
  shows "touches (served w) w w'"
  using assms
proof cases
  case (enter i)
  then show ?thesis by (auto simp: thread_entry_def intro!: touches_upd)
next
  case (pass i)
  then show ?thesis
    by (intro touches_mono [OF dispatcher.touches_server_pass [OF pass(4)]]) (simp add: served_def)
next
  case (leave i)
  then show ?thesis
    by (auto simp: thread_exit_def server_finish_def sys_def Let_def intro!: touches_upd touches_observe)
next
  case (signal sig)
  then show ?thesis using calm_touches calm_process_signal by blast
next
  case (call c)
  then show ?thesis using calm_touches calm_run_api by blast
qed

lemma touches_reachable: "reachable debug k app w v \<Longrightarrow> touches (served w) w v"
  unfolding reachable_def
proof (induction rule: rtranclp_induct)
  case (step v x)
  then show ?case using touches_sys_step [of debug k app v x] touches_served touches_trans by metis
qed simp

section \<open>What \<open>init\<close> does with the contexts\<close>

lemma touches_unlink: "touches A w v \<Longrightarrow> touches A w (unlink_stale k p v)"
  by (auto simp: unlink_stale_def sys_def Let_def intro!: touches_observe)

lemma touches_tcp:
  "tcp_create_epoll k i w = (ok, w') \<Longrightarrow> touches A w w'"
  "tcp_socket k fam failed i w = (ok, w') \<Longrightarrow> touches A w w'"
  "inet_tcp_listen k port i w = (ok, w') \<Longrightarrow> touches A w w'"
  "unix_tcp_listen k sun i w = (ok, w') \<Longrightarrow> touches A w w'"
  by (auto simp: tcp_create_epoll_def tcp_socket_def inet_tcp_listen_def unix_tcp_listen_def tcp_epoll_add_def
      sys_def Let_def split: if_splits intro!: touches_intros)

lemma touches_inet_tcp_init:
  assumes "inet_tcp_init k i w = Inr (True, w')"
  shows "touches A w w'"
proof -
  from assms obtain w1 w2 port where run: "tcp_create_epoll k i w = (True, w1)"
    "tcp_socket k AF_INET (\<lambda>fd. fd < 0) i w1 = (True, w2)"
    "inet_tcp_listen k port i (snd (sys k (Set_Reuse_Addr (s_server_fd (the_server i w2))) w2)) = (True, w')"
    by (auto simp: inet_tcp_init_def sys_def Let_def split: prod.splits if_splits)
  have "touches A w2 (snd (sys k (Set_Reuse_Addr (s_server_fd (the_server i w2))) w2))"
    by (simp add: sys_def Let_def touches_observe)
  then show ?thesis
    using touches_tcp(1) [OF run(1)] touches_tcp(2) [OF run(2)] touches_tcp(3) [OF run(3)]
    by (metis touches_trans)
qed

lemma touches_unix_tcp_init:
  assumes "unix_tcp_init k i w = Inr (True, w')"
  shows "touches A w w'"
proof -
  from assms obtain w1 w2 sun where run: "tcp_create_epoll k i w = (True, w1)"
    "tcp_socket k AF_UNIX (\<lambda>fd. fd = -1) i (unlink_stale k (s_bind (the_server i w1)) w1) = (True, w2)"
    "unix_tcp_listen k sun i w2 = (True, w')"
    by (auto simp: unix_tcp_init_def Let_def split: prod.splits if_splits)
  have "touches A w1 (unlink_stale k (s_bind (the_server i w1)) w1)" by (simp add: touches_unlink)
  then show ?thesis
    using touches_tcp(1) [OF run(1)] touches_tcp(2) [OF run(2)] touches_tcp(4) [OF run(3)]
    by (metis touches_trans)
qed

lemma touches_udp_init:
  "inet_udp_init k i w = Inr (ok, w') \<Longrightarrow> touches A w w'"
  "unix_udp_init k i w = Inr (ok, w') \<Longrightarrow> touches A w w'"
  by (auto simp: inet_udp_init_def unix_udp_init_def sys_def Let_def split: if_splits
      intro!: touches_intros touches_unlink)

text \<open>A successful \<open>init\<close> of a server on libwebsockets makes a context and puts it into the static member.\<close>

definition takes_over :: "nat \<Rightarrow> 'a world_scheme \<Rightarrow> 'a world_scheme \<Rightarrow> bool" where
  "takes_over i w v \<longleftrightarrow> (\<exists>p. p \<noteq> 0 \<and> p \<notin> live_contexts (trace w)
     \<and> live_contexts (trace v) = insert p (live_contexts (trace w))
     \<and> context_user (trace v) = (context_user (trace w))(p := i)
     \<and> (\<forall>kind \<in> {WebSocketTcpServer, HttpTcpServer}.
          class_context kind v = (if kind = s_kind (the_server i w) then p else class_context kind w))
     \<and> servers v = servers w)"

lemma li_user_create [simp]: "li_user (lws_create_info i s port ps secure plain) = i"
  by (simp add: lws_create_info_def)

lemma takes_overI:
  assumes "p = r_ptr (k (trace w) (Lws_Create_Context info))" "p \<noteq> 0" "fresh_contexts k" "li_user info = i"
    and "live_contexts (trace v) = insert p (live_contexts (trace w))"
    and "context_user (trace v) = (context_user (trace w))(p := i)"
    and "s_kind (the_server i w) = WebSocketTcpServer \<and> ws_context v = p \<and> http_context v = http_context w
       \<or> s_kind (the_server i w) = HttpTcpServer \<and> http_context v = p \<and> ws_context v = ws_context w"
    and "servers v = servers w"
  shows "takes_over i w v"
  using assms unfolding takes_over_def fresh_contexts_def class_context_def by auto

lemma takes_over_ws:
  assumes k: "fresh_contexts k" and kind: "s_kind (the_server i w) = WebSocketTcpServer"
    and run: "ws_init k i w = Inr (True, v)"
  shows "takes_over i w v"
proof -
  obtain port where port: "stoi (s_bind (the_server i w)) = Inr port"
    using run by (auto simp: ws_init_def)
  define info where "info = lws_create_info i (the_server i w) port (s_protocols (the_server i w))
      ws_secure_options LWS_SERVER_OPTION_EXPLICIT_VHOSTS"
  define r where "r = k (trace w) (Lws_Create_Context info)"
  have "r_ptr r \<noteq> 0"
    using run by (simp add: ws_init_def port sys_def Let_def r_def flip: info_def split: if_splits)
  then have v: "\<exists>vhost r'. v = (observe (Call (Lws_Create_Vhost (r_ptr r) info) r')
      ((observe (Call (Lws_Create_Context info) r) w)\<lparr>ws_context := r_ptr r\<rparr>))\<lparr>ws_vhost := vhost\<rparr>"
    using run by (auto simp: ws_init_def port sys_def Let_def r_def simp flip: info_def)
  then show ?thesis
    using k kind \<open>r_ptr r \<noteq> 0\<close> by (intro takes_overI [of "r_ptr r" k w info])
      (auto simp: r_def info_def context_user_def fun_eq_iff)
qed

lemma takes_over_http:
  assumes k: "fresh_contexts k" and kind: "s_kind (the_server i w) = HttpTcpServer"
    and run: "http_init k i w = Inr (True, v)"
  shows "takes_over i w v"
proof -
  obtain port where port: "stoi (s_bind (the_server i w)) = Inr port"
    using run by (auto simp: http_init_def)
  define info where "info = lws_create_info i (the_server i w) port (s_protocols (the_server i w)) http_secure_options 0"
  define r where "r = k (trace w) (Lws_Create_Context info)"
  have "r_ptr r \<noteq> 0 \<and> v = (observe (Call (Lws_Create_Context info) r) w)\<lparr>http_context := r_ptr r\<rparr>"
    using run by (auto simp: http_init_def port sys_def Let_def r_def simp flip: info_def)
  then show ?thesis
    using k kind by (intro takes_overI [of "r_ptr r" k w info]) (auto simp: r_def info_def fun_eq_iff)
qed

lemma server_init_contexts:
  assumes "fresh_contexts k" "server_init k i w = Inr (True, v)"
  shows "if on_lws i w then takes_over i w v else touches {} w v"
  using assms takes_over_ws [OF assms(1)] takes_over_http [OF assms(1)] touches_inet_tcp_init touches_unix_tcp_init
    touches_udp_init
  by (auto simp: server_init_def split: server_kind.splits)

text \<open>
  After \<open>init\<close> of several servers, each server on libwebsockets has a live context of its own, and the static
  member is that of the last of its class.
\<close>

definition of_class :: "server_kind \<Rightarrow> 'a world_scheme \<Rightarrow> nat list \<Rightarrow> nat list" where
  "of_class kind w is = filter (\<lambda>i. s_kind (the_server i w) = kind) is"

definition contexts_of :: "nat list \<Rightarrow> 'a world_scheme \<Rightarrow> bool" where
  "contexts_of is w \<longleftrightarrow> (\<forall>i \<in> set is. on_lws i w \<longrightarrow>
       (\<exists>p \<in> live_contexts (trace w). context_user (trace w) p = i))
   \<and> (\<forall>kind \<in> {WebSocketTcpServer, HttpTcpServer}. of_class kind w is \<noteq> [] \<longrightarrow>
       class_context kind w \<in> live_contexts (trace w)
       \<and> context_user (trace w) (class_context kind w) = last (of_class kind w is))"

lemma contexts_of_same:
  assumes "touches A w v" "\<forall>j \<in> set is. j < length (servers w)"
  shows "contexts_of is v = contexts_of is w" "of_class kind v is = of_class kind w is"
proof -
  have kind: "s_kind (the_server j v) = s_kind (the_server j w)" if "j \<in> set is" for j
    using touches_kinds(2) [OF assms(1)] assms(2) that by blast
  then show cls: "of_class kind v is = of_class kind w is" for kind
    by (auto simp: of_class_def intro: filter_cong)
  have "live_contexts (trace v) = live_contexts (trace w)" using assms(1) by (simp add: touches_def)
  with touches_static(1,2) [OF assms(1)] kind cls show "contexts_of is v = contexts_of is w"
    unfolding contexts_of_def by (simp cong: ball_cong)
qed

lemma of_class_snoc: "of_class kind w (is @ [i]) = of_class kind w is @ (if s_kind (the_server i w) = kind then [i] else [])"
  by (simp add: of_class_def)

lemma contexts_of_over:
  assumes c: "contexts_of is w" and lws: "on_lws i w" and t: "takes_over i w v"
  shows "contexts_of (is @ [i]) v"
proof -
  from t obtain p where p: "p \<noteq> 0" "p \<notin> live_contexts (trace w)" "live_contexts (trace v) = insert p (live_contexts (trace w))"
    "context_user (trace v) = (context_user (trace w))(p := i)"
    "\<And>kind. kind \<in> {WebSocketTcpServer, HttpTcpServer} \<Longrightarrow>
       class_context kind v = (if kind = s_kind (the_server i w) then p else class_context kind w)"
    by (auto simp: takes_over_def)
  have kinds: "the_server j v = the_server j w" "of_class kind v js = of_class kind w js" for j kind js
    using t by (auto simp: takes_over_def the_server_def of_class_def)
  have "\<exists>p \<in> live_contexts (trace v). context_user (trace v) p = j" if "j \<in> set (is @ [i])" "on_lws j v" for j
  proof (cases "j = i")
    case False
    then have "j \<in> set is" "on_lws j w" using that by (auto simp: kinds)
    then obtain q where "q \<in> live_contexts (trace w)" "context_user (trace w) q = j"
      using c unfolding contexts_of_def by blast
    with p(2-4) show ?thesis by (intro bexI [of _ q]) auto
  qed (use p(3,4) in auto)
  moreover have "class_context kind v \<in> live_contexts (trace v)
     \<and> context_user (trace v) (class_context kind v) = last (of_class kind v (is @ [i]))"
    if kind: "kind \<in> {WebSocketTcpServer, HttpTcpServer}" "of_class kind v (is @ [i]) \<noteq> []" for kind
  proof (cases "kind = s_kind (the_server i w)")
    case False
    then have "class_context kind w \<in> live_contexts (trace w)
       \<and> context_user (trace w) (class_context kind w) = last (of_class kind w is)"
      using c kind unfolding contexts_of_def kinds of_class_snoc by auto
    with False p(2-5) kind(1) show ?thesis by (auto simp: kinds of_class_snoc)
  qed (use p(3-5) kind(1) in \<open>auto simp: kinds of_class_snoc\<close>)
  ultimately show ?thesis by (simp add: contexts_of_def)
qed

lemma contexts_of_step:
  assumes c: "contexts_of is w" and bound: "\<forall>j \<in> set (is @ [i]). j < length (servers w)"
    and step: "if on_lws i w then takes_over i w v else touches {} w v"
  shows "contexts_of (is @ [i]) v" "length (servers v) = length (servers w)"
    "j < length (servers w) \<Longrightarrow> s_clients (the_server j v) = s_clients (the_server j w)"
proof -
  show "contexts_of (is @ [i]) v"
  proof (cases "on_lws i w")
    case False
    then have "contexts_of (is @ [i]) w"
      using c by (auto simp: contexts_of_def of_class_snoc)
    then show ?thesis using contexts_of_same(1) [of "{}" w v "is @ [i]"] bound step False by simp
  qed (use step contexts_of_over [OF c] in simp)
  show "length (servers v) = length (servers w)"
    using step touches_kinds(1) by (auto simp: takes_over_def split: if_splits)
  show "s_clients (the_server j v) = s_clients (the_server j w)" if "j < length (servers w)"
    using step that by (auto simp: takes_over_def touches_def the_server_def split: if_splits)
qed

lemma contexts_after_init:
  assumes "fresh_contexts k" "init_all k js w = Inr (True, w')" "contexts_of is w"
    and "\<forall>j \<in> set (is @ js). j < length (servers w)"
  shows "contexts_of (is @ js) w' \<and> length (servers w') = length (servers w)
    \<and> (\<forall>j < length (servers w). s_clients (the_server j w') = s_clients (the_server j w))"
  using assms
proof (induction js arbitrary: "is" w)
  case (Cons j js)
  from Cons.prems(2) obtain v where v: "server_init k j w = Inr (True, v)" "init_all k js v = Inr (True, w')"
    by (auto split: if_splits)
  have "\<forall>l \<in> set (is @ [j]). l < length (servers w)" using Cons.prems(4) by simp
  note s = contexts_of_step [OF Cons.prems(3) this server_init_contexts [OF Cons.prems(1) v(1)]]
  from Cons.IH [OF Cons.prems(1) v(2) s(1)] Cons.prems(4) s(2,3) show ?case by simp
qed simp

section \<open>The program\<close>

lemma touches_program [simp]:
  "touches A u (w\<lparr>m_interceptor := p, signals := s\<rparr>) = touches A u w" "touches A u (w\<lparr>m_run := b\<rparr>) = touches A u w"
  for w :: "'b aworld_scheme"
  by (simp_all add: touches_def the_server_def)

lemma init_contexts:
  assumes k: "fresh_contexts (e_kernel env)" and new: "m_server_factory w = 0" "\<not> f_exists w"
    and run: "any_init env catchable w = Inr (True, w1)"
  shows "contexts_of [0 ..< length (servers w1)] w1 \<and> (\<forall>j < length (servers w1). s_clients (the_server j w1) = [])"
proof -
  let ?w = "factory_addEventListener ANYSERVER ((newServerFactory w)\<lparr>m_server_factory := FACTORY_PTR\<rparr>)"
  from run new obtain v where v: "factory_init env (m_config_file ?w) ?w = Inr (True, v)"
    and w1: "\<exists>p s. w1 = v\<lparr>m_interceptor := p, signals := s\<rparr>"
    by (auto simp: any_init_def factory_getInstance_def Let_def newServerFactory_def factory_addEventListener_def
        split: if_splits prod.splits)
  obtain ok c where "init_configuration (e_double env) (e_files env) (m_config_file ?w) (m_configuration ?w) = (ok, c)"
    by fastforce
  with v obtain x where cr: "create_servers env (c_capabilities c) (server_infos c)
      (?w\<lparr>m_configuration := c, the_logger := configure_logger c (the_logger ?w)\<rparr>) = Inr (True, x)"
    and all: "init_all (e_kernel env) [0 ..< length (servers x)] x = Inr (True, v)"
    by (auto simp: factory_init_def Let_def split: if_splits)
  have "list_all2 (made_from (e_hash env) (c_capabilities c)) (filter creates (server_infos c)) (servers x)"
    using create_servers_run [OF cr] by (simp add: factory_addEventListener_def newServerFactory_def)
  then have x: "s_clients (the_server j x) = []" if "j < length (servers x)" for j
    using that by (auto simp: list_all2_conv_all_nth made_from_def the_server_def)
  have "contexts_of [] x" by (simp add: contexts_of_def of_class_def)
  from contexts_after_init [OF k all this] x
  have "contexts_of [0 ..< length (servers v)] v \<and> (\<forall>j < length (servers v). s_clients (the_server j v) = [])" by simp
  with w1 show ?thesis by (auto simp: contexts_of_def of_class_def the_server_def class_context_def)
qed

lemma touches_start:
  assumes "any_start k w = Inr (ok, w')"
  shows "touches A w w'"
proof -
  have "touches A w v" if "start_all k is w = (b, v)" for "is" b v
    using that
  proof (induction "is" arbitrary: w)
    case (Cons i "is")
    obtain c x where x: "server_start k i w = (c, x)" by fastforce
    then have "touches A w x"
      by (auto simp: server_start_def inet_tcp_start_def unix_tcp_start_def inet_udp_start_def unix_udp_start_def
          ws_start_def http_start_def start_thread_def sys_def Let_def split: server_kind.splits if_splits intro!: touches_intros)
    with Cons x show ?case by (auto split: if_splits intro: touches_trans)
  qed simp
  with assms show ?thesis
    by (auto simp: any_start_def on_factory_def factory_start_def split: if_splits prod.splits)
qed

text \<open>The clients of a server that no thread serves stay as they are.\<close>

lemma unserved:
  assumes c: "contexts_of [0 ..< length (servers w)] w" and kind: "kind \<in> {WebSocketTcpServer, HttpTcpServer}"
    and j: "j \<in> set (of_class kind w [0 ..< length (servers w)])" "j \<noteq> last (of_class kind w [0 ..< length (servers w)])"
  shows "j \<notin> served w"
proof
  let ?all = "[0 ..< length (servers w)]"
  assume "j \<in> served w"
  then obtain i where i: "i < length (servers w)" "served_by i w = j" by (auto simp: served_def)
  have jk: "s_kind (the_server j w) = kind" using j(1) by (simp add: of_class_def)
  show False
  proof (cases "on_lws i w")
    case True
    define K where "K = s_kind (the_server i w)"
    have K: "K \<in> {WebSocketTcpServer, HttpTcpServer}" "i \<in> set (of_class K w ?all)"
      using True i(1) by (auto simp: K_def of_class_def)
    then have ne: "of_class K w ?all \<noteq> []" by auto
    have "j = last (of_class K w ?all)"
      using c K(1) ne i(2) True unfolding contexts_of_def served_by_def K_def by auto
    moreover have "s_kind (the_server (last (of_class K w ?all)) w) = K"
      using last_in_set [OF ne] by (simp add: of_class_def)
    ultimately show False using jk j(2) by simp
  next
    case False
    with i jk kind show False by (auto simp: served_by_def)
  qed
qed

text \<open>Every state of a program that was initialised and started.\<close>

lemma contexts_of_program:
  assumes k: "fresh_contexts (e_kernel env)" and new: "m_server_factory w = 0" "\<not> f_exists w"
    and run: "any_init env catchable w = Inr (True, w1)" "any_start (e_kernel env) w1 = Inr (ok, w2)"
      "reachable debug (e_kernel env) app w2 v"
    and kind: "kind \<in> {WebSocketTcpServer, HttpTcpServer}"
  shows "contexts_of [0 ..< length (servers v)] v"
    "j \<in> set (of_class kind v [0 ..< length (servers v)]) \<Longrightarrow> j \<noteq> last (of_class kind v [0 ..< length (servers v)]) \<Longrightarrow>
     s_clients (the_server j v) = []"
proof -
  note i = init_contexts [OF k new run(1)]
  have "touches (served w1) w1 w2" using run(2) by (rule touches_start)
  moreover from this have "touches (served w1) w2 v"
    using touches_reachable [OF run(3)] touches_served by metis
  ultimately have t: "touches (served w1) w1 v" by (rule touches_trans)
  note len = touches_kinds(1) [OF t]
  have all: "\<forall>j \<in> set [0 ..< length (servers w1)]. j < length (servers w1)" by simp
  show "contexts_of [0 ..< length (servers v)] v"
    using i contexts_of_same(1) [OF t all] by (simp add: len)
  assume "j \<in> set (of_class kind v [0 ..< length (servers v)])" "j \<noteq> last (of_class kind v [0 ..< length (servers v)])"
  then have "j \<in> set (of_class kind w1 [0 ..< length (servers w1)])" "j \<notin> served w1"
    using unserved [OF conjunct1 [OF i] kind] contexts_of_same(2) [OF t all] by (simp_all add: len)
  then show "s_clients (the_server j v) = []"
    using t i by (auto simp: touches_def of_class_def)
qed

text \<open>The destructors of HTTP servers.\<close>

lemma http_destructors:
  assumes "\<forall>i \<in> set is. i < length (servers w) \<and> s_kind (the_server i w) = HttpTcpServer"
  shows "\<exists>w'. rfold (server_destroy k) is w = Inr w'
     \<and> (\<exists>rs. length rs = length is
          \<and> trace w' = trace w @ List.map (Call (Lws_Context_Destroy (http_context w))) rs)"
  using assms
proof (induction "is" arbitrary: w)
  case (Cons i "is")
  let ?r = "k (trace w) (Lws_Context_Destroy (http_context w))"
  let ?v = "observe (Call (Lws_Context_Destroy (http_context w)) ?r) (clear_run i w)"
  have run: "server_destroy k i w = Inr ?v"
    using Cons.prems by (simp add: server_destroy_def http_destroy_def http_stop_def clear_run_def sys_def Let_def)
  have "s_kind (the_server j ?v) = s_kind (the_server j w)" if "j < length (servers w)" for j
    using that by (cases "j = i") (simp_all add: clear_run_def the_server_def upd_server_def)
  then obtain w' rs where "rfold (server_destroy k) is ?v = Inr w'" "length rs = length is"
    "trace w' = trace ?v @ List.map (Call (Lws_Context_Destroy (http_context ?v))) rs"
    using Cons.IH [of ?v] Cons.prems by (auto simp: clear_run_def)
  then show ?case
    by (intro exI [of _ w'] conjI exI [of _ "?r # rs"]) (simp_all add: run clear_run_def)
qed simp

end
