(* ===== verification/Json_Store.thy ===== *)
theory Json_Store
  imports Json_Value
begin

text \<open>
  \<open>Json::Value\<close> as it is stored (external/json/jsoncpp.cpp): arrays and objects are one and the same
  sorted map from \<open>CZString\<close>, a string may be a null pointer, integers have 64 bits. The operations of
  the class on this representation - construction, comparison, conversions, lookups and changes of
  arrays and objects - with their exceptions.
\<close>

section \<open>\<open>CZString\<close>, the key of the map\<close>

text \<open>
  A key is an index (\<open>cstr_\<close> is null) or a string. Keys of different kinds do not meet in one map; the
  order puts indices first.
\<close>

datatype czstring = CZ_Index nat | CZ_String string

fun CZString_less :: "czstring \<Rightarrow> czstring \<Rightarrow> bool" where
  "CZString_less (CZ_Index i) (CZ_Index j) = (i < j)"
| "CZString_less (CZ_Index i) (CZ_String t) = True"
| "CZString_less (CZ_String s) (CZ_Index j) = False"
| "CZString_less (CZ_String s) (CZ_String t) = key_less s t"

fun CZString_equal :: "czstring \<Rightarrow> czstring \<Rightarrow> bool" where
  "CZString_equal (CZ_Index i) (CZ_Index j) = (i = j)"
| "CZString_equal (CZ_String s) (CZ_String t) = (length s = length t \<and> s = t)"
| "CZString_equal _ _ = False"

fun CZString_index :: "czstring \<Rightarrow> nat" where
  "CZString_index (CZ_Index i) = i"
| "CZString_index (CZ_String s) = 0"

fun CZString_data :: "czstring \<Rightarrow> string" where
  "CZString_data (CZ_String s) = s"
| "CZString_data (CZ_Index i) = []"

lemma CZString_equal_iff [simp]: "CZString_equal a b \<longleftrightarrow> a = b"
  by (cases "(a, b)" rule: CZString_equal.cases) auto

instantiation czstring :: linorder
begin

definition less_czstring :: "czstring \<Rightarrow> czstring \<Rightarrow> bool" where
  "less_czstring a b = CZString_less a b"

definition less_eq_czstring :: "czstring \<Rightarrow> czstring \<Rightarrow> bool" where
  "less_eq_czstring a b \<longleftrightarrow> a = b \<or> CZString_less a b"

instance
proof
  fix a b c :: czstring
  have irrefl: "\<not> CZString_less x x" for x by (cases x) simp_all
  have trans: "CZString_less x y \<Longrightarrow> CZString_less y z \<Longrightarrow> CZString_less x z" for x y z
    by (cases x; cases y; cases z) (auto intro: key_less_trans)
  have total: "CZString_less x y \<or> x = y \<or> CZString_less y x" for x y
    using key_less_total by (cases x; cases y) auto
  show "(a < b) = (a \<le> b \<and> \<not> b \<le> a)"
    using irrefl trans by (auto simp: less_czstring_def less_eq_czstring_def)
  show "a \<le> a" by (simp add: less_eq_czstring_def)
  show "a \<le> b \<Longrightarrow> b \<le> c \<Longrightarrow> a \<le> c" using trans by (auto simp: less_eq_czstring_def)
  show "a \<le> b \<Longrightarrow> b \<le> a \<Longrightarrow> a = b" using trans irrefl by (auto simp: less_eq_czstring_def)
  show "a \<le> b \<or> b \<le> a" using total by (auto simp: less_eq_czstring_def)
qed

end

lemma czstring_less_simps [simp]:
  "CZ_Index i < CZ_Index j \<longleftrightarrow> i < j" "CZ_Index i < CZ_String t" "\<not> CZ_String s < CZ_Index j"
  "CZ_String s < CZ_String t \<longleftrightarrow> key_less s t"
  by (simp_all add: less_czstring_def)

section \<open>The map\<close>

fun m_put :: "'k::linorder \<Rightarrow> 'v \<Rightarrow> ('k \<times> 'v) list \<Rightarrow> ('k \<times> 'v) list" where
  "m_put k v [] = [(k, v)]"
| "m_put k v ((k', v') # m) =
     (if k = k' then (k, v) # m else if k < k' then (k, v) # (k', v') # m else (k', v') # m_put k v m)"

definition m_erase :: "'k \<Rightarrow> ('k \<times> 'v) list \<Rightarrow> ('k \<times> 'v) list" where
  "m_erase k m = filter (\<lambda>(k', v). k' \<noteq> k) m"

definition m_sorted :: "('k::linorder \<times> 'v) list \<Rightarrow> bool" where
  "m_sorted m \<longleftrightarrow> sorted_wrt (<) (List.map fst m)"

named_theorems map_simps

lemma map_of_put [map_simps]: "map_of (m_put k v m) = (map_of m)(k \<mapsto> v)"
  by (induction m) (auto simp: fun_eq_iff)

lemma map_of_erase [map_simps]: "map_of (m_erase k m) = (map_of m)(k := None)"
  by (induction m) (auto simp: m_erase_def fun_eq_iff)

lemma dom_put [map_simps]: "fst ` set (m_put k v m) = insert k (fst ` set m)"
  by (induction k v m rule: m_put.induct) (simp_all add: insert_commute)

lemma set_put: "set (m_put k v m) \<subseteq> insert (k, v) (set m)"
  by (induction k v m rule: m_put.induct) auto

lemma m_sorted_put [map_simps]: "m_sorted m \<Longrightarrow> m_sorted (m_put k v m)"
  by (induction k v m rule: m_put.induct) (auto simp: m_sorted_def dom_put)

lemma m_sorted_erase [map_simps]: "m_sorted m \<Longrightarrow> m_sorted (m_erase k m)"
  by (induction m) (auto simp: m_sorted_def m_erase_def)

lemma dom_erase [map_simps]: "fst ` set (m_erase k m) = fst ` set m - {k}"
  by (force simp: m_erase_def)

lemma m_sorted_distinct: "m_sorted m \<Longrightarrow> distinct (List.map fst m)"
  by (simp add: m_sorted_def strict_sorted_iff)

section \<open>Values\<close>

datatype jvalue =
    VNull
  | VInt int
  | VUInt nat
  | VReal "64 word"
  | VString "bytes option"
  | VBool bool
  | VArray "(czstring \<times> jvalue) list"
  | VObject "(czstring \<times> jvalue) list"

datatype value_type = NullType | IntType | UIntType | RealType | StringType | BooleanType | ArrayType | ObjectType

text \<open>The enumerators' numbers, which \<open>operator<\<close> subtracts.\<close>

fun type_number :: "value_type \<Rightarrow> nat" where
  "type_number NullType = 0"
| "type_number IntType = 1"
| "type_number UIntType = 2"
| "type_number RealType = 3"
| "type_number StringType = 4"
| "type_number BooleanType = 5"
| "type_number ArrayType = 6"
| "type_number ObjectType = 7"

fun Value_type :: "jvalue \<Rightarrow> value_type" where
  "Value_type VNull = NullType"
| "Value_type (VInt i) = IntType"
| "Value_type (VUInt n) = UIntType"
| "Value_type (VReal d) = RealType"
| "Value_type (VString s) = StringType"
| "Value_type (VBool b) = BooleanType"
| "Value_type (VArray m) = ArrayType"
| "Value_type (VObject m) = ObjectType"

text \<open>
  What is used of the machine's doubles: the comparisons, the conversion from integers, \<open>modf\<close> (no
  fractional part), and the integer a double in range is cut to.
\<close>

record c_math =
  m_parse :: "string \<Rightarrow> 64 word option"
  m_format :: "64 word \<Rightarrow> string"
  d_le :: "64 word \<Rightarrow> 64 word \<Rightarrow> bool"
  d_less :: "64 word \<Rightarrow> 64 word \<Rightarrow> bool"
  d_eq :: "64 word \<Rightarrow> 64 word \<Rightarrow> bool"
  d_of_int :: "int \<Rightarrow> 64 word"
  d_integral :: "64 word \<Rightarrow> bool"
  d_trunc :: "64 word \<Rightarrow> int"

definition minInt_v :: int where "minInt_v = - (2 ^ 31)"
definition maxInt_v :: int where "maxInt_v = 2 ^ 31 - 1"
definition maxUInt_v :: int where "maxUInt_v = 2 ^ 32 - 1"
definition minInt64_v :: int where "minInt64_v = - (2 ^ 63)"
definition maxInt64_v :: int where "maxInt64_v = 2 ^ 63 - 1"
definition maxUInt64_v :: int where "maxUInt64_v = 2 ^ 64 - 1"

definition InRange :: "c_math \<Rightarrow> 64 word \<Rightarrow> int \<Rightarrow> int \<Rightarrow> bool" where
  "InRange cm d mn mx \<longleftrightarrow> d_le cm (d_of_int cm mn) d \<and> d_le cm d (d_of_int cm mx)"

text \<open>The casts to the integer types.\<close>

definition to_Int :: "int \<Rightarrow> int" where "to_Int i = sint (word_of_int i :: 32 word)"
definition to_UInt :: "int \<Rightarrow> int" where "to_UInt i = uint (word_of_int i :: 32 word)"
definition to_Int64 :: "int \<Rightarrow> int" where "to_Int64 i = sint (word_of_int i :: 64 word)"
definition to_UInt64 :: "int \<Rightarrow> int" where "to_UInt64 i = uint (word_of_int i :: 64 word)"

section \<open>Construction\<close>

text \<open>
  A new string value has no characters, not even an empty array of them: its pointer is null.
\<close>

fun Value_of_type :: "c_math \<Rightarrow> value_type \<Rightarrow> jvalue" where
  "Value_of_type cm NullType = VNull"
| "Value_of_type cm IntType = VInt 0"
| "Value_of_type cm UIntType = VUInt 0"
| "Value_of_type cm RealType = VReal (d_of_int cm 0)"
| "Value_of_type cm StringType = VString None"
| "Value_of_type cm ArrayType = VArray []"
| "Value_of_type cm ObjectType = VObject []"
| "Value_of_type cm BooleanType = VBool False"

section \<open>Predicates\<close>

definition IsIntegral :: "c_math \<Rightarrow> 64 word \<Rightarrow> bool" where
  "IsIntegral cm d = d_integral cm d"

definition Value_isNull :: "jvalue \<Rightarrow> bool" where "Value_isNull v \<longleftrightarrow> Value_type v = NullType"
definition Value_isBool :: "jvalue \<Rightarrow> bool" where "Value_isBool v \<longleftrightarrow> Value_type v = BooleanType"
definition Value_isString :: "jvalue \<Rightarrow> bool" where "Value_isString v \<longleftrightarrow> Value_type v = StringType"
definition Value_isArray :: "jvalue \<Rightarrow> bool" where "Value_isArray v \<longleftrightarrow> Value_type v = ArrayType"
definition Value_isObject :: "jvalue \<Rightarrow> bool" where "Value_isObject v \<longleftrightarrow> Value_type v = ObjectType"

definition Value_isInt :: "c_math \<Rightarrow> jvalue \<Rightarrow> bool" where
  "Value_isInt cm v = (case v of
      VInt i \<Rightarrow> minInt_v \<le> i \<and> i \<le> maxInt_v
    | VUInt n \<Rightarrow> int n \<le> maxInt_v
    | VReal d \<Rightarrow> d_le cm (d_of_int cm minInt_v) d \<and> d_le cm d (d_of_int cm maxInt_v) \<and> IsIntegral cm d
    | _ \<Rightarrow> False)"

definition Value_isUInt :: "c_math \<Rightarrow> jvalue \<Rightarrow> bool" where
  "Value_isUInt cm v = (case v of
      VInt i \<Rightarrow> 0 \<le> i \<and> to_UInt64 i \<le> maxUInt_v
    | VUInt n \<Rightarrow> int n \<le> maxUInt_v
    | VReal d \<Rightarrow> d_le cm (d_of_int cm 0) d \<and> d_le cm d (d_of_int cm maxUInt_v) \<and> IsIntegral cm d
    | _ \<Rightarrow> False)"

text \<open>The largest 64-bit numbers are no doubles: the bound is the next power of two, and excluded.\<close>

definition Value_isInt64 :: "c_math \<Rightarrow> jvalue \<Rightarrow> bool" where
  "Value_isInt64 cm v = (case v of
      VInt i \<Rightarrow> True
    | VUInt n \<Rightarrow> int n \<le> maxInt64_v
    | VReal d \<Rightarrow> d_le cm (d_of_int cm minInt64_v) d \<and> d_less cm d (d_of_int cm maxInt64_v) \<and> IsIntegral cm d
    | _ \<Rightarrow> False)"

definition Value_isUInt64 :: "c_math \<Rightarrow> jvalue \<Rightarrow> bool" where
  "Value_isUInt64 cm v = (case v of
      VInt i \<Rightarrow> 0 \<le> i
    | VUInt n \<Rightarrow> True
    | VReal d \<Rightarrow> d_le cm (d_of_int cm 0) d \<and> d_less cm d (d_of_int cm maxUInt64_v) \<and> IsIntegral cm d
    | _ \<Rightarrow> False)"

definition Value_isIntegral :: "c_math \<Rightarrow> jvalue \<Rightarrow> bool" where
  "Value_isIntegral cm v \<longleftrightarrow> Value_isInt64 cm v \<or> Value_isUInt64 cm v"

definition Value_isDouble :: "c_math \<Rightarrow> jvalue \<Rightarrow> bool" where
  "Value_isDouble cm v \<longleftrightarrow> Value_type v = RealType \<or> Value_isIntegral cm v"

definition Value_isNumeric :: "c_math \<Rightarrow> jvalue \<Rightarrow> bool" where
  "Value_isNumeric cm v \<longleftrightarrow> Value_isIntegral cm v \<or> Value_isDouble cm v"

section \<open>Conversions\<close>

definition getString :: "jvalue \<Rightarrow> bytes option" where
  "getString v = (case v of VString (Some s) \<Rightarrow> Some s | _ \<Rightarrow> None)"

definition asCString :: "jvalue \<Rightarrow> json_error + bytes option" where
  "asCString v = (case v of VString s \<Rightarrow> Inr s | _ \<Rightarrow> Inl LogicError)"

definition Value_asString :: "c_math \<Rightarrow> jvalue \<Rightarrow> json_error + string" where
  "Value_asString cm v = (case v of
      VNull \<Rightarrow> Inr []
    | VString s \<Rightarrow> Inr (case s of None \<Rightarrow> [] | Some x \<Rightarrow> x)
    | VBool b \<Rightarrow> Inr (if b then ''true'' else ''false'')
    | VInt i \<Rightarrow> Inr (valueToString_int i)
    | VUInt n \<Rightarrow> Inr (valueToString_uint n)
    | VReal d \<Rightarrow> Inr (m_format cm d)
    | _ \<Rightarrow> Inl LogicError)"

definition Value_asInt :: "c_math \<Rightarrow> jvalue \<Rightarrow> json_error + int" where
  "Value_asInt cm v = (case v of
      VInt i \<Rightarrow> if Value_isInt cm v then Inr (to_Int i) else Inl LogicError
    | VUInt n \<Rightarrow> if Value_isInt cm v then Inr (to_Int (int n)) else Inl LogicError
    | VReal d \<Rightarrow> if InRange cm d minInt_v maxInt_v then Inr (to_Int (d_trunc cm d)) else Inl LogicError
    | VNull \<Rightarrow> Inr 0
    | VBool b \<Rightarrow> Inr (if b then 1 else 0)
    | _ \<Rightarrow> Inl LogicError)"

definition Value_asUInt :: "c_math \<Rightarrow> jvalue \<Rightarrow> json_error + int" where
  "Value_asUInt cm v = (case v of
      VInt i \<Rightarrow> if Value_isUInt cm v then Inr (to_UInt i) else Inl LogicError
    | VUInt n \<Rightarrow> if Value_isUInt cm v then Inr (to_UInt (int n)) else Inl LogicError
    | VReal d \<Rightarrow> if InRange cm d 0 maxUInt_v then Inr (to_UInt (d_trunc cm d)) else Inl LogicError
    | VNull \<Rightarrow> Inr 0
    | VBool b \<Rightarrow> Inr (if b then 1 else 0)
    | _ \<Rightarrow> Inl LogicError)"

definition Value_asInt64 :: "c_math \<Rightarrow> jvalue \<Rightarrow> json_error + int" where
  "Value_asInt64 cm v = (case v of
      VInt i \<Rightarrow> Inr (to_Int64 i)
    | VUInt n \<Rightarrow> if Value_isInt64 cm v then Inr (to_Int64 (int n)) else Inl LogicError
    | VReal d \<Rightarrow> if InRange cm d minInt64_v maxInt64_v then Inr (to_Int64 (d_trunc cm d)) else Inl LogicError
    | VNull \<Rightarrow> Inr 0
    | VBool b \<Rightarrow> Inr (if b then 1 else 0)
    | _ \<Rightarrow> Inl LogicError)"

definition Value_asUInt64 :: "c_math \<Rightarrow> jvalue \<Rightarrow> json_error + int" where
  "Value_asUInt64 cm v = (case v of
      VInt i \<Rightarrow> if Value_isUInt64 cm v then Inr (to_UInt64 i) else Inl LogicError
    | VUInt n \<Rightarrow> Inr (to_UInt64 (int n))
    | VReal d \<Rightarrow> if InRange cm d 0 maxUInt64_v then Inr (to_UInt64 (d_trunc cm d)) else Inl LogicError
    | VNull \<Rightarrow> Inr 0
    | VBool b \<Rightarrow> Inr (if b then 1 else 0)
    | _ \<Rightarrow> Inl LogicError)"

definition asLargestInt :: "c_math \<Rightarrow> jvalue \<Rightarrow> json_error + int" where
  "asLargestInt cm v = Value_asInt64 cm v"

definition asLargestUInt :: "c_math \<Rightarrow> jvalue \<Rightarrow> json_error + int" where
  "asLargestUInt cm v = Value_asUInt64 cm v"

definition asDouble :: "c_math \<Rightarrow> jvalue \<Rightarrow> json_error + 64 word" where
  "asDouble cm v = (case v of
      VInt i \<Rightarrow> Inr (d_of_int cm i)
    | VUInt n \<Rightarrow> Inr (d_of_int cm (int n))
    | VReal d \<Rightarrow> Inr d
    | VNull \<Rightarrow> Inr (d_of_int cm 0)
    | VBool b \<Rightarrow> Inr (if b then d_of_int cm 1 else d_of_int cm 0)
    | _ \<Rightarrow> Inl LogicError)"

definition Value_asBool :: "c_math \<Rightarrow> jvalue \<Rightarrow> json_error + bool" where
  "Value_asBool cm v = (case v of
      VBool b \<Rightarrow> Inr b
    | VNull \<Rightarrow> Inr False
    | VInt i \<Rightarrow> Inr (i \<noteq> 0)
    | VUInt n \<Rightarrow> Inr (n \<noteq> 0)
    | VReal d \<Rightarrow> Inr (\<not> d_eq cm d (d_of_int cm 0))
    | _ \<Rightarrow> Inl LogicError)"

definition isConvertibleTo :: "c_math \<Rightarrow> value_type \<Rightarrow> jvalue \<Rightarrow> bool" where
  "isConvertibleTo cm other v = (case other of
      NullType \<Rightarrow>
        Value_isNumeric cm v \<and> (case asDouble cm v of Inr d \<Rightarrow> d_eq cm d (d_of_int cm 0) | Inl e \<Rightarrow> False)
        \<or> v = VBool False \<or> (Value_type v = StringType \<and> Value_asString cm v = Inr [])
        \<or> v = VArray [] \<or> v = VObject [] \<or> Value_type v = NullType
    | IntType \<Rightarrow> Value_isInt cm v
        \<or> (case v of VReal d \<Rightarrow> InRange cm d minInt_v maxInt_v | _ \<Rightarrow> False)
        \<or> Value_type v = BooleanType \<or> Value_type v = NullType
    | UIntType \<Rightarrow> Value_isUInt cm v
        \<or> (case v of VReal d \<Rightarrow> InRange cm d 0 maxUInt_v | _ \<Rightarrow> False)
        \<or> Value_type v = BooleanType \<or> Value_type v = NullType
    | RealType \<Rightarrow> Value_isNumeric cm v \<or> Value_type v = BooleanType \<or> Value_type v = NullType
    | BooleanType \<Rightarrow> Value_isNumeric cm v \<or> Value_type v = BooleanType \<or> Value_type v = NullType
    | StringType \<Rightarrow> Value_isNumeric cm v \<or> Value_type v = BooleanType \<or> Value_type v = StringType
        \<or> Value_type v = NullType
    | ArrayType \<Rightarrow> Value_type v = ArrayType \<or> Value_type v = NullType
    | ObjectType \<Rightarrow> Value_type v = ObjectType \<or> Value_type v = NullType)"

section \<open>Comparison\<close>

text \<open>
  \<open>std::lexicographical_compare\<close> and the comparison of pairs; \<open>lt\<close> compares the values. Both ask it in
  both directions.
\<close>

fun lex_less :: "('a \<Rightarrow> 'a \<Rightarrow> bool) \<Rightarrow> 'a list \<Rightarrow> 'a list \<Rightarrow> bool" where
  "lex_less lt xs [] = False"
| "lex_less lt [] (y # ys) = True"
| "lex_less lt (x # xs) (y # ys) =
     (if lt x y then True else if lt y x then False else lex_less lt xs ys)"

definition pair_less :: "('b \<Rightarrow> 'b \<Rightarrow> bool) \<Rightarrow> 'a::linorder \<times> 'b \<Rightarrow> 'a \<times> 'b \<Rightarrow> bool" where
  "pair_less lt p q \<longleftrightarrow> fst p < fst q \<or> (\<not> fst q < fst p \<and> lt (snd p) (snd q))"

lemma lex_less_cong [fundef_cong]:
  assumes "xs = xs'" "ys = ys'" "\<And>x y. x \<in> set xs' \<Longrightarrow> y \<in> set ys' \<Longrightarrow> f x y = g x y"
    and "\<And>x y. x \<in> set xs' \<Longrightarrow> y \<in> set ys' \<Longrightarrow> f y x = g y x"
  shows "lex_less f xs ys = lex_less g xs' ys'"
  unfolding assms(1,2) using assms(3,4)
  by (induction f xs' ys' rule: lex_less.induct) auto

lemma pair_less_cong [fundef_cong]:
  "p = p' \<Longrightarrow> q = q' \<Longrightarrow> f (snd p') (snd q') = g (snd p') (snd q') \<Longrightarrow> pair_less f p q = pair_less g p' q'"
  by (simp add: pair_less_def)

lemma entry_size: "(k, x) \<in> set m \<Longrightarrow> size x < size_list (size_prod (\<lambda>_. 0) size) m"
  by (induction m) auto

text \<open>The difference of two sizes, narrowed to \<open>int\<close>.\<close>

definition size_delta :: "nat \<Rightarrow> nat \<Rightarrow> int" where
  "size_delta m n = sint (word_of_int (int m - int n) :: 32 word)"

function Value_less :: "c_math \<Rightarrow> jvalue \<Rightarrow> jvalue \<Rightarrow> bool" where
  "Value_less cm v w =
     (if Value_type v \<noteq> Value_type w then type_number (Value_type v) < type_number (Value_type w)
      else case (v, w) of
        (VInt i, VInt j) \<Rightarrow> i < j
      | (VUInt m, VUInt n) \<Rightarrow> m < n
      | (VReal d, VReal e) \<Rightarrow> d_less cm d e
      | (VBool b, VBool c) \<Rightarrow> \<not> b \<and> c
      | (VString s, VString t) \<Rightarrow> (case (s, t) of
            (Some x, Some y) \<Rightarrow> key_less x y | (_, Some y) \<Rightarrow> True | (_, None) \<Rightarrow> False)
      | (VArray m, VArray n) \<Rightarrow> if size_delta (length m) (length n) \<noteq> 0 then size_delta (length m) (length n) < 0
          else lex_less (pair_less (Value_less cm)) m n
      | (VObject m, VObject n) \<Rightarrow> if size_delta (length m) (length n) \<noteq> 0 then size_delta (length m) (length n) < 0
          else lex_less (pair_less (Value_less cm)) m n
      | _ \<Rightarrow> False)"
  by pat_completeness auto
termination
  by (relation "measure (\<lambda>(cm, v, w). size v + size w)") (auto dest!: entry_size)

declare Value_less.simps [simp del]

definition Value_le :: "c_math \<Rightarrow> jvalue \<Rightarrow> jvalue \<Rightarrow> bool" where
  "Value_le cm v w \<longleftrightarrow> \<not> Value_less cm w v"

definition Value_ge :: "c_math \<Rightarrow> jvalue \<Rightarrow> jvalue \<Rightarrow> bool" where
  "Value_ge cm v w \<longleftrightarrow> \<not> Value_less cm v w"

definition Value_greater :: "c_math \<Rightarrow> jvalue \<Rightarrow> jvalue \<Rightarrow> bool" where
  "Value_greater cm v w \<longleftrightarrow> Value_less cm w v"

definition Value_compare :: "c_math \<Rightarrow> jvalue \<Rightarrow> jvalue \<Rightarrow> int" where
  "Value_compare cm v w = (if Value_less cm v w then -1 else if Value_greater cm v w then 1 else 0)"

text \<open>Two null string pointers are equal; a null pointer and a string of no characters are not.\<close>

function Value_equal :: "c_math \<Rightarrow> jvalue \<Rightarrow> jvalue \<Rightarrow> bool" where
  "Value_equal cm v w = (case (v, w) of
      (VNull, VNull) \<Rightarrow> True
    | (VInt i, VInt j) \<Rightarrow> i = j
    | (VUInt m, VUInt n) \<Rightarrow> m = n
    | (VReal d, VReal e) \<Rightarrow> d_eq cm d e
    | (VBool b, VBool c) \<Rightarrow> b = c
    | (VString s, VString t) \<Rightarrow> (case (s, t) of
          (Some x, Some y) \<Rightarrow> length x = length y \<and> x = y | _ \<Rightarrow> s = t)
    | (VArray m, VArray n) \<Rightarrow> length m = length n
        \<and> list_all2 (\<lambda>p q. CZString_equal (fst p) (fst q) \<and> Value_equal cm (snd p) (snd q)) m n
    | (VObject m, VObject n) \<Rightarrow> length m = length n
        \<and> list_all2 (\<lambda>p q. CZString_equal (fst p) (fst q) \<and> Value_equal cm (snd p) (snd q)) m n
    | _ \<Rightarrow> False)"
  by pat_completeness auto
termination
  by (relation "measure (\<lambda>(cm, v, w). size v + size w)") (auto dest!: entry_size)

declare Value_equal.simps [simp del]

section \<open>Arrays and objects: lookups\<close>

text \<open>
  The size of an array is its highest index plus 1, as a 32-bit number; the map may hold fewer entries.
\<close>

definition array_size :: "(czstring \<times> 'v) list \<Rightarrow> nat" where
  "array_size m = (if m \<noteq> [] then (CZString_index (fst (last m)) + 1) mod 2 ^ 32 else 0)"

definition Value_size :: "jvalue \<Rightarrow> nat" where
  "Value_size v = (case v of VArray m \<Rightarrow> array_size m | VObject m \<Rightarrow> length m mod 2 ^ 32 | _ \<Rightarrow> 0)"

definition Value_empty :: "jvalue \<Rightarrow> bool" where
  "Value_empty v = (if Value_isNull v \<or> Value_isArray v \<or> Value_isObject v then Value_size v = 0 else False)"

definition Value_elem :: "nat \<Rightarrow> jvalue \<Rightarrow> json_error + jvalue" where
  "Value_elem i v = (case v of
      VNull \<Rightarrow> Inr VNull
    | VArray m \<Rightarrow> Inr (case map_of m (CZ_Index i) of None \<Rightarrow> VNull | Some x \<Rightarrow> x)
    | _ \<Rightarrow> Inl LogicError)"

text \<open>The default is for an index without an entry; an entry that is null is returned.\<close>

definition Value_get_index :: "nat \<Rightarrow> jvalue \<Rightarrow> jvalue \<Rightarrow> json_error + jvalue" where
  "Value_get_index i d v = (case v of
      VNull \<Rightarrow> Inr d
    | VArray m \<Rightarrow> Inr (case map_of m (CZ_Index i) of None \<Rightarrow> d | Some x \<Rightarrow> x)
    | _ \<Rightarrow> Inl LogicError)"

definition isValidIndex :: "nat \<Rightarrow> jvalue \<Rightarrow> bool" where
  "isValidIndex i v \<longleftrightarrow> i < Value_size v"

definition Value_find :: "string \<Rightarrow> jvalue \<Rightarrow> json_error + jvalue option" where
  "Value_find key v = (case v of
      VNull \<Rightarrow> Inr None
    | VObject m \<Rightarrow> Inr (map_of m (CZ_String key))
    | _ \<Rightarrow> Inl LogicError)"

definition Value_member :: "string \<Rightarrow> jvalue \<Rightarrow> json_error + jvalue" where
  "Value_member key v = rbind (Value_find key v) (\<lambda>r. Inr (case r of None \<Rightarrow> VNull | Some x \<Rightarrow> x))"

definition Value_get :: "string \<Rightarrow> jvalue \<Rightarrow> jvalue \<Rightarrow> json_error + jvalue" where
  "Value_get key d v = rbind (Value_find key v) (\<lambda>r. Inr (case r of None \<Rightarrow> d | Some x \<Rightarrow> x))"

definition isMember :: "string \<Rightarrow> jvalue \<Rightarrow> json_error + bool" where
  "isMember key v = rbind (Value_find key v) (\<lambda>r. Inr (r \<noteq> None))"

definition getMemberNames :: "jvalue \<Rightarrow> json_error + string list" where
  "getMemberNames v = (case v of
      VNull \<Rightarrow> Inr []
    | VObject m \<Rightarrow> Inr (List.map (\<lambda>(k, x). CZString_data k) m)
    | _ \<Rightarrow> Inl LogicError)"

section \<open>Arrays and objects: changes\<close>

text \<open>
  The two subscripts on a value that can be changed: null becomes an array or an object, and a missing
  entry is made. The result is the entry, and the value with it; what is assigned to the reference
  replaces the entry.
\<close>

definition slot :: "czstring \<Rightarrow> (czstring \<times> jvalue) list \<Rightarrow> jvalue \<times> (czstring \<times> jvalue) list" where
  "slot k m = (case map_of m k of Some x \<Rightarrow> (x, m) | None \<Rightarrow> (VNull, m_put k VNull m))"

definition Value_index :: "nat \<Rightarrow> jvalue \<Rightarrow> json_error + jvalue \<times> jvalue" where
  "Value_index i v = (case v of
      VNull \<Rightarrow> (let (x, m) = slot (CZ_Index i) [] in Inr (x, VArray m))
    | VArray m \<Rightarrow> (let (x, m) = slot (CZ_Index i) m in Inr (x, VArray m))
    | _ \<Rightarrow> Inl LogicError)"

definition Value_resolveReference :: "string \<Rightarrow> jvalue \<Rightarrow> json_error + jvalue \<times> jvalue" where
  "Value_resolveReference key v = (case v of
      VNull \<Rightarrow> (let (x, m) = slot (CZ_String key) [] in Inr (x, VObject m))
    | VObject m \<Rightarrow> (let (x, m) = slot (CZ_String key) m in Inr (x, VObject m))
    | _ \<Rightarrow> Inl LogicError)"

definition assign_entry :: "czstring \<Rightarrow> jvalue \<Rightarrow> jvalue \<Rightarrow> jvalue" where
  "assign_entry k x v = (case v of VArray m \<Rightarrow> VArray (m_put k x m) | VObject m \<Rightarrow> VObject (m_put k x m) | _ \<Rightarrow> v)"

definition Value_append :: "jvalue \<Rightarrow> jvalue \<Rightarrow> json_error + jvalue" where
  "Value_append x v = (let n = Value_size v in
     rbind (Value_index n v) (\<lambda>(_, v). Inr (assign_entry (CZ_Index n) x v)))"

definition Value_clear :: "jvalue \<Rightarrow> json_error + jvalue" where
  "Value_clear v = (case v of
      VNull \<Rightarrow> Inr VNull | VArray m \<Rightarrow> Inr (VArray []) | VObject m \<Rightarrow> Inr (VObject []) | _ \<Rightarrow> Inl LogicError)"

text \<open>
  Shrinking erases the indices from the new size on, and then asserts that the size is what was asked
  for.
\<close>

definition resize_array :: "nat \<Rightarrow> (czstring \<times> jvalue) list \<Rightarrow> json_error + (czstring \<times> jvalue) list" where
  "resize_array n m =
     (let oldSize = array_size m in
      if n = 0 then Inr []
      else if n > oldSize then Inr (snd (slot (CZ_Index (n - 1)) m))
      else (let m = fold (\<lambda>i. m_erase (CZ_Index i)) [n ..< oldSize] m in
            if array_size m = n then Inr m else Inl LogicError))"

definition Value_resize :: "nat \<Rightarrow> jvalue \<Rightarrow> json_error + jvalue" where
  "Value_resize n v = (case v of
      VNull \<Rightarrow> rbind (resize_array n []) (\<lambda>m. Inr (VArray m))
    | VArray m \<Rightarrow> rbind (resize_array n m) (\<lambda>m. Inr (VArray m))
    | _ \<Rightarrow> Inl LogicError)"

text \<open>The result, the value that was removed when there was one, and the changed value.\<close>

definition Value_removeMember_into :: "string \<Rightarrow> jvalue \<Rightarrow> jvalue option \<times> jvalue" where
  "Value_removeMember_into key v = (case v of
      VObject m \<Rightarrow> (case map_of m (CZ_String key) of
          None \<Rightarrow> (None, v) | Some x \<Rightarrow> (Some x, VObject (m_erase (CZ_String key) m)))
    | _ \<Rightarrow> (None, v))"

definition Value_removeMember :: "string \<Rightarrow> jvalue \<Rightarrow> json_error + jvalue \<times> jvalue" where
  "Value_removeMember key v = (case v of
      VNull \<Rightarrow> Inr (VNull, v)
    | VObject m \<Rightarrow> (let (r, w) = Value_removeMember_into key v
                     in Inr (case r of None \<Rightarrow> VNull | Some x \<Rightarrow> x, w))
    | _ \<Rightarrow> Inl LogicError)"

text \<open>The overload on \<open>std::string\<close> passes the name on as a C string.\<close>

definition Value_removeMember_string :: "string \<Rightarrow> jvalue \<Rightarrow> json_error + jvalue \<times> jvalue" where
  "Value_removeMember_string key v = Value_removeMember (c_str key) v"

text \<open>The subscripts on \<open>int\<close>.\<close>

definition Value_index_int :: "int \<Rightarrow> jvalue \<Rightarrow> json_error + jvalue \<times> jvalue" where
  "Value_index_int i v = (if 0 \<le> i then Value_index (nat i) v else Inl LogicError)"

definition Value_elem_int :: "int \<Rightarrow> jvalue \<Rightarrow> json_error + jvalue" where
  "Value_elem_int i v = (if 0 \<le> i then Value_elem (nat i) v else Inl LogicError)"

text \<open>
  The entries behind the index move down by one, entry by entry (a missing one is made on the way), and
  the last is erased. \<open>oldSize - 1\<close> is a 32-bit number.
\<close>

definition shift_entry :: "nat \<Rightarrow> (czstring \<times> jvalue) list \<Rightarrow> (czstring \<times> jvalue) list" where
  "shift_entry i m = (let (x, m) = slot (CZ_Index (i + 1)) m in m_put (CZ_Index i) x m)"

definition Value_removeIndex :: "nat \<Rightarrow> jvalue \<Rightarrow> jvalue option \<times> jvalue" where
  "Value_removeIndex i v = (case v of
      VArray m \<Rightarrow> (case map_of m (CZ_Index i) of
          None \<Rightarrow> (None, v)
        | Some x \<Rightarrow> (let last = (array_size m + (2 ^ 32 - 1)) mod 2 ^ 32
                      in (Some x, VArray (m_erase (CZ_Index last) (fold shift_entry [i ..< last] m)))))
    | _ \<Rightarrow> (None, v))"

section \<open>The invariant of the representation\<close>

text \<open>
  Integers in their 64 bits; the map of an array has indices as keys, that of an object strings, sorted,
  each once. The largest index is left out, as the size of the array would wrap to 0.
\<close>

fun index_key :: "czstring \<Rightarrow> bool" where
  "index_key (CZ_Index i) = (i < 2 ^ 32 - 1)"
| "index_key (CZ_String s) = False"

fun string_key :: "czstring \<Rightarrow> bool" where
  "string_key (CZ_Index i) = False"
| "string_key (CZ_String s) = True"

fun value_ok :: "jvalue \<Rightarrow> bool" where
  "value_ok (VInt i) = (- (2 ^ 63) \<le> i \<and> i < 2 ^ 63)"
| "value_ok (VUInt n) = (n < 2 ^ 64)"
| "value_ok (VArray m) = (m_sorted m \<and> list_all (\<lambda>(k, x). index_key k \<and> value_ok x) m)"
| "value_ok (VObject m) = (m_sorted m \<and> list_all (\<lambda>(k, x). string_key k \<and> value_ok x) m)"
| "value_ok _ = True"

text \<open>What the two kinds of maps share: sorted, with good keys and values.\<close>

definition entries_ok :: "(czstring \<Rightarrow> bool) \<Rightarrow> (czstring \<times> jvalue) list \<Rightarrow> bool" where
  "entries_ok P m \<longleftrightarrow> m_sorted m \<and> list_all (\<lambda>(k, x). P k \<and> value_ok x) m"

lemma value_ok_entries: "value_ok (VArray m) = entries_ok index_key m" "value_ok (VObject m) = entries_ok string_key m"
  by (simp_all add: entries_ok_def)

lemma entries_ok_simps [simp]: "entries_ok P []"
  by (simp add: entries_ok_def m_sorted_def)

lemma entries_ok_put: "entries_ok P m \<Longrightarrow> P k \<Longrightarrow> value_ok x \<Longrightarrow> entries_ok P (m_put k x m)"
  using set_put [of k x m] by (auto simp: entries_ok_def list_all_iff m_sorted_put)

lemma entries_ok_erase: "entries_ok P m \<Longrightarrow> entries_ok P (m_erase k m)"
  by (auto simp: entries_ok_def m_sorted_erase) (auto simp: list_all_iff m_erase_def)

lemma entries_ok_find: "entries_ok P m \<Longrightarrow> map_of m k = Some x \<Longrightarrow> value_ok x"
  by (auto simp: entries_ok_def list_all_iff dest!: map_of_SomeD)

lemma entries_ok_slot:
  assumes "entries_ok P m" "P k" "slot k m = (x, m')"
  shows "value_ok x" "entries_ok P m'"
  using assms entries_ok_find [OF assms(1), of k] entries_ok_put [OF assms(1,2), of VNull]
  by (auto simp: slot_def split: option.splits)

lemma entries_ok_fold:
  assumes "\<And>i m. i \<in> set is \<Longrightarrow> entries_ok P m \<Longrightarrow> entries_ok P (f i m)" "entries_ok P m"
  shows "entries_ok P (fold f is m)"
  using assms by (induction "is" arbitrary: m) auto

lemma sorted_le_last: "sorted xs \<Longrightarrow> x \<in> set xs \<Longrightarrow> x \<le> last xs"
  by (induction xs) auto

lemma array_size_bound:
  assumes "entries_ok index_key m" "(CZ_Index i, x) \<in> set m"
  shows "i < array_size m" "array_size m < 2 ^ 32"
proof -
  have ne: "m \<noteq> []" using assms(2) by auto
  then have l: "last m \<in> set m" by simp
  with assms(1) have "index_key (fst (last m))" by (auto simp: entries_ok_def list_all_iff)
  then obtain j where j: "fst (last m) = CZ_Index j" "j < 2 ^ 32 - 1" by (cases "fst (last m)") auto
  then have sz: "array_size m = j + 1" using ne by (simp add: array_size_def)
  have "CZ_Index i \<le> CZ_Index j"
  proof -
    have "sorted (List.map fst m)" using assms(1) by (simp add: entries_ok_def m_sorted_def strict_sorted_iff)
    moreover have "CZ_Index i \<in> set (List.map fst m)" using assms(2) by force
    moreover have "last (List.map fst m) = CZ_Index j" using j(1) ne by (simp add: last_map)
    ultimately show ?thesis using sorted_le_last by metis
  qed
  then have "i \<le> j" by (auto simp: less_eq_czstring_def)
  with sz j(2) show "i < array_size m" "array_size m < 2 ^ 32" by simp_all
qed

lemma array_size_less: "entries_ok index_key m \<Longrightarrow> array_size m < 2 ^ 32"
  by (simp add: array_size_def)

text \<open>Every operation that changes a value keeps the invariant.\<close>

lemma Value_index_ok:
  assumes "value_ok v" "i < 2 ^ 32 - 1" "Value_index i v = Inr (x, v')"
  shows "value_ok x" "value_ok v'"
  using assms entries_ok_slot [of index_key _ "CZ_Index i" x] entries_ok_slot [of index_key "[]" "CZ_Index i" x]
  by (auto simp: Value_index_def value_ok_entries simp del: value_ok.simps(3,4)
      split: jvalue.splits prod.splits)

lemma Value_resolveReference_ok:
  assumes "value_ok v" "Value_resolveReference key v = Inr (x, v')"
  shows "value_ok x" "value_ok v'"
  using assms entries_ok_slot [of string_key _ "CZ_String key" x] entries_ok_slot [of string_key "[]" "CZ_String key" x]
  by (auto simp: Value_resolveReference_def value_ok_entries simp del: value_ok.simps(3,4)
      split: jvalue.splits prod.splits)

lemma assign_entry_ok:
  assumes "value_ok v" "value_ok x" "\<And>m. v = VArray m \<Longrightarrow> index_key k" "\<And>m. v = VObject m \<Longrightarrow> string_key k"
  shows "value_ok (assign_entry k x v)"
  using assms entries_ok_put
  by (cases v) (simp_all add: assign_entry_def value_ok_entries del: value_ok.simps(3,4))

lemma Value_append_ok:
  assumes "value_ok v" "value_ok x" "Value_size v < 2 ^ 32 - 1" "Value_append x v = Inr v'"
  shows "value_ok v'"
proof -
  let ?n = "Value_size v"
  from assms(4) obtain y u where u: "Value_index ?n v = Inr (y, u)" "v' = assign_entry (CZ_Index ?n) x u"
    by (auto simp: Value_append_def Let_def)
  have "\<exists>m. u = VArray m" using u(1) by (auto simp: Value_index_def Let_def split: jvalue.splits prod.splits)
  with Value_index_ok(2) [OF assms(1,3) u(1)] u(2) assms(2,3) show ?thesis by (auto intro!: assign_entry_ok)
qed

lemma Value_clear_ok: "value_ok v \<Longrightarrow> Value_clear v = Inr v' \<Longrightarrow> value_ok v'"
  by (auto simp: Value_clear_def m_sorted_def split: jvalue.splits)

lemma resize_array_ok:
  assumes "entries_ok index_key m" "n < 2 ^ 32" "resize_array n m = Inr m'"
  shows "entries_ok index_key m'"
proof -
  have "entries_ok index_key (fold (\<lambda>i. m_erase (CZ_Index i)) [n ..< array_size m] m)"
    using assms(1) by (intro entries_ok_fold entries_ok_erase)
  moreover have "entries_ok index_key (snd (slot (CZ_Index (n - 1)) m))" if "n \<noteq> 0"
    using entries_ok_slot(2) [OF assms(1), of "CZ_Index (n - 1)"] assms(2) that
    by (cases "slot (CZ_Index (n - 1)) m") simp
  ultimately show ?thesis using assms(3) by (auto simp: resize_array_def Let_def split: if_splits)
qed

lemma Value_resize_ok:
  assumes "value_ok v" "n < 2 ^ 32" "Value_resize n v = Inr v'"
  shows "value_ok v'"
  using assms resize_array_ok [of _ n] resize_array_ok [of "[]" n]
  by (auto simp: Value_resize_def value_ok_entries simp del: value_ok.simps(3,4) split: jvalue.splits)

lemma Value_removeMember_ok:
  assumes "value_ok v"
  shows "value_ok (snd (Value_removeMember_into key v))"
    "fst (Value_removeMember_into key v) = Some x \<Longrightarrow> value_ok x"
    "Value_removeMember key v = Inr (y, v') \<Longrightarrow> value_ok y \<and> value_ok v'"
proof -
  have find: "map_of m (CZ_String key) = Some z \<Longrightarrow> v = VObject m \<Longrightarrow> value_ok z" for m z
    using assms entries_ok_find [of string_key m] by (simp add: value_ok_entries del: value_ok.simps(4))
  show 1: "value_ok (snd (Value_removeMember_into key v))"
    using assms entries_ok_erase
    by (auto simp: Value_removeMember_into_def value_ok_entries simp del: value_ok.simps(3,4)
        split: jvalue.splits option.splits)
  show "value_ok x" if "fst (Value_removeMember_into key v) = Some x"
    using that find by (auto simp: Value_removeMember_into_def split: jvalue.splits option.splits)
  show "value_ok y \<and> value_ok v'" if "Value_removeMember key v = Inr (y, v')"
    using that assms find 1
    by (auto simp: Value_removeMember_def Value_removeMember_into_def Let_def split: jvalue.splits option.splits)
qed

lemma shift_entry_ok: "i < 2 ^ 32 - 2 \<Longrightarrow> entries_ok index_key m \<Longrightarrow> entries_ok index_key (shift_entry i m)"
proof -
  assume i: "i < 2 ^ 32 - 2" and m: "entries_ok index_key m"
  obtain x m' where s: "slot (CZ_Index (i + 1)) m = (x, m')" by fastforce
  have "value_ok x" "entries_ok index_key m'" using entries_ok_slot [OF m _ s] i by simp_all
  then show ?thesis using i s entries_ok_put [of index_key m' "CZ_Index i" x] by (simp add: shift_entry_def)
qed

lemma Value_removeIndex_ok:
  assumes "value_ok v" "Value_removeIndex i v = (r, v')"
  shows "value_ok v'" "r = Some x \<Longrightarrow> value_ok x"
proof -
  have *: "value_ok v' \<and> (r = Some x \<longrightarrow> value_ok x)"
  proof (cases "\<exists>m y. v = VArray m \<and> map_of m (CZ_Index i) = Some y")
    case True
    then obtain m y where m: "v = VArray m" "map_of m (CZ_Index i) = Some y" by blast
    have ok: "entries_ok index_key m" using assms(1) by (simp add: m(1) value_ok_entries del: value_ok.simps)
    have sz: "i < array_size m" "array_size m < 2 ^ 32"
      using array_size_bound [OF ok map_of_SomeD [OF m(2)]] by simp_all
    let ?last = "(array_size m + (2 ^ 32 - 1)) mod 2 ^ 32"
    have last: "?last = array_size m - 1"
    proof -
      have "array_size m + (2 ^ 32 - 1) = (array_size m - 1) + 2 ^ 32" using sz(1) by simp
      then show ?thesis using sz(2) by (simp only: mod_add_self2) simp
    qed
    have "entries_ok index_key (fold shift_entry [i ..< ?last] m)"
      unfolding last by (rule entries_ok_fold [OF shift_entry_ok ok]) (use sz in auto)
    then have "value_ok (VArray (m_erase (CZ_Index ?last) (fold shift_entry [i ..< ?last] m)))"
      by (simp add: value_ok_entries entries_ok_erase del: value_ok.simps)
    with assms(2) m entries_ok_find [OF ok m(2)] show ?thesis by (auto simp: Value_removeIndex_def Let_def)
  next
    case False
    with assms show ?thesis by (auto simp: Value_removeIndex_def split: jvalue.splits option.splits)
  qed
  then show "value_ok v'" "r = Some x \<Longrightarrow> value_ok x" by simp_all
qed

text \<open>
  The changes as one step, for sequences of them: an assignment through a subscript, and the other
  operations. The bounds are those of the 32-bit indices.
\<close>

datatype value_op =
    AssignIndex nat jvalue | AssignMember string jvalue | Append jvalue | Clear | Resize nat
  | RemoveMember string | RemoveIndex nat

fun value_step :: "value_op \<Rightarrow> jvalue \<Rightarrow> json_error + jvalue" where
  "value_step (AssignIndex i x) v = rbind (Value_index i v) (\<lambda>(_, v). Inr (assign_entry (CZ_Index i) x v))"
| "value_step (AssignMember k x) v = rbind (Value_resolveReference k v) (\<lambda>(_, v). Inr (assign_entry (CZ_String k) x v))"
| "value_step (Append x) v = Value_append x v"
| "value_step Clear v = Value_clear v"
| "value_step (Resize n) v = Value_resize n v"
| "value_step (RemoveMember k) v = rbind (Value_removeMember k v) (\<lambda>(_, v). Inr v)"
| "value_step (RemoveIndex i) v = Inr (snd (Value_removeIndex i v))"

fun op_ok :: "value_op \<Rightarrow> jvalue \<Rightarrow> bool" where
  "op_ok (AssignIndex i x) v = (i < 2 ^ 32 - 1 \<and> value_ok x)"
| "op_ok (AssignMember k x) v = value_ok x"
| "op_ok (Append x) v = (value_ok x \<and> Value_size v < 2 ^ 32 - 1)"
| "op_ok (Resize n) v = (n < 2 ^ 32)"
| "op_ok _ v = True"

fun ops_ok :: "value_op list \<Rightarrow> jvalue \<Rightarrow> bool" where
  "ops_ok [] v = True"
| "ops_ok (p # ps) v = (op_ok p v \<and> (case value_step p v of Inl e \<Rightarrow> True | Inr w \<Rightarrow> ops_ok ps w))"

lemma assign_index_ok:
  assumes "value_ok v" "i < 2 ^ 32 - 1" "value_ok x" "Value_index i v = Inr (y, u)"
  shows "value_ok (assign_entry (CZ_Index i) x u)"
proof (rule assign_entry_ok [OF Value_index_ok(2) [OF assms(1,2,4)] assms(3)])
  show "index_key (CZ_Index i)" using assms(2) by simp
  show "string_key (CZ_Index i)" if "u = VObject m" for m
    using that assms(4) by (auto simp: Value_index_def Let_def split: jvalue.splits prod.splits)
qed

lemma assign_member_ok:
  assumes "value_ok v" "value_ok x" "Value_resolveReference k v = Inr (y, u)"
  shows "value_ok (assign_entry (CZ_String k) x u)"
proof (rule assign_entry_ok [OF Value_resolveReference_ok(2) [OF assms(1,3)] assms(2)])
  show "index_key (CZ_String k)" if "u = VArray m" for m
    using that assms(3) by (auto simp: Value_resolveReference_def Let_def split: jvalue.splits prod.splits)
  show "string_key (CZ_String k)" by simp
qed

lemma value_step_ok:
  assumes "value_ok v" "op_ok p v" "value_step p v = Inr w"
  shows "value_ok w"
proof (cases p)
  case (AssignIndex i x)
  with assms assign_index_ok [of v i x] show ?thesis by auto
next
  case (AssignMember k x)
  with assms assign_member_ok [of v x k] show ?thesis by auto
next
  case (Append x)
  with assms show ?thesis using Value_append_ok [OF assms(1), of x w] by simp
next
  case Clear
  with assms show ?thesis using Value_clear_ok [OF assms(1), of w] by simp
next
  case (Resize n)
  with assms show ?thesis using Value_resize_ok [OF assms(1), of n w] by simp
next
  case (RemoveMember k)
  with assms show ?thesis using Value_removeMember_ok(3) [OF assms(1), of k _ w] by auto
next
  case (RemoveIndex i)
  with assms Value_removeIndex_ok(1) [of v i "fst (Value_removeIndex i v)" w] show ?thesis by (simp add: prod_eq_iff)
qed

lemma value_steps_ok: "value_ok v \<Longrightarrow> ops_ok ps v \<Longrightarrow> rfold value_step ps v = Inr w \<Longrightarrow> value_ok w"
proof (induction ps arbitrary: v)
  case (Cons p ps)
  then obtain u where "value_step p v = Inr u" "rfold value_step ps u = Inr w" by auto
  with Cons value_step_ok [of v p u] show ?case by simp
qed simp

lemma Value_of_type_ok: "value_ok (Value_of_type cm t)"
  by (cases t) (simp_all add: m_sorted_def)

section \<open>Arrays without gaps are lists\<close>

definition arr :: "'v list \<Rightarrow> (czstring \<times> 'v) list" where
  "arr xs = zip (List.map CZ_Index [0 ..< length xs]) xs"

lemma arr_snoc: "arr (xs @ [x]) = arr xs @ [(CZ_Index (length xs), x)]"
  by (simp add: arr_def)

lemma arr_length [simp]: "length (arr xs) = length xs"
  by (simp add: arr_def)

lemma arr_find [simp]: "map_of (arr xs) (CZ_Index i) = (if i < length xs then Some (xs ! i) else None)"
proof (induction xs rule: rev_induct)
  case (snoc x xs)
  then show ?case by (auto simp: arr_snoc map_add_def nth_append split: option.splits)
qed (simp add: arr_def)

lemma arr_keys: "(k, x) \<in> set (arr xs) \<Longrightarrow> \<exists>i < length xs. k = CZ_Index i"
  by (auto simp: arr_def set_zip)

lemma arr_size: "length xs < 2 ^ 32 \<Longrightarrow> array_size (arr xs) = length xs"
  by (cases xs rule: rev_cases) (simp_all add: array_size_def arr_snoc, simp add: arr_def)

lemma m_put_last: "(\<And>k' x. (k', x) \<in> set m \<Longrightarrow> k' < k) \<Longrightarrow> m_put k v m = m @ [(k, v)]"
proof (induction m)
  case (Cons e m)
  obtain k' x where e: "e = (k', x)" by (cases e)
  with Cons.prems [of k' x] have "k' < k" by simp
  with Cons e show ?case by auto
qed simp

lemma arr_put_end: "m_put (CZ_Index (length xs)) x (arr xs) = arr (xs @ [x])"
  using m_put_last [of "arr xs" "CZ_Index (length xs)" x] arr_keys by (fastforce simp: arr_snoc)

lemma m_put_append:
  "(\<And>k' y. (k', y) \<in> set m \<Longrightarrow> k' < k) \<Longrightarrow> m_put k v (m @ (k, w) # m') = m @ (k, v) # m'"
proof (induction m)
  case (Cons e m)
  obtain k' y where e: "e = (k', y)" by (cases e)
  with Cons.prems [of k' y] have "k' < k" by simp
  with Cons e show ?case by auto
qed simp

lemma arr_put: "i < length xs \<Longrightarrow> m_put (CZ_Index i) x (arr xs) = arr (xs[i := x])"
proof (induction xs rule: rev_induct)
  case (snoc y ys)
  have append: "m_put k v (m @ [(l, w)]) = m_put k v m @ [(l, w)]" if "k \<in> fst ` set m" for k v m and l :: czstring and w :: 'a
    using that by (induction k v m rule: m_put.induct) auto
  show ?case
  proof (cases "i = length ys")
    case True
    then show ?thesis using m_put_append [of "arr ys" "CZ_Index i" x y "[]"] arr_keys by (fastforce simp: arr_snoc)
  next
    case False
    with snoc have "i < length ys" by simp
    moreover from this have "map_of (arr ys) (CZ_Index i) \<noteq> None" by simp
    then have "CZ_Index i \<in> fst ` set (arr ys)" by (simp only: map_of_eq_None_iff) simp
    ultimately show ?thesis using snoc.IH append arr_snoc [of "ys[i := x]" y] by (simp add: arr_snoc list_update_append)
  qed
qed simp

lemma arr_erase_end: "m_erase (CZ_Index (length xs)) (arr (xs @ [x])) = arr xs"
  using arr_keys by (fastforce simp: arr_snoc m_erase_def intro: filter_True)

lemma arr_append: "arr (xs @ ys) = arr xs @ zip (List.map CZ_Index [length xs ..< length xs + length ys]) ys"
proof -
  have "[0 ..< length xs + length ys] = [0 ..< length xs] @ [length xs ..< length xs + length ys]"
    by (rule upt_add_eq_append) simp
  then show ?thesis by (simp add: arr_def)
qed

lemma fold_erase: "fold (\<lambda>i. m_erase (CZ_Index i)) is m = filter (\<lambda>(k, x). k \<notin> CZ_Index ` set is) m"
  by (induction "is" arbitrary: m) (auto simp: m_erase_def intro: filter_cong)

lemma arr_take:
  assumes "n \<le> length xs"
  shows "fold (\<lambda>i. m_erase (CZ_Index i)) [n ..< length xs] (arr xs) = arr (take n xs)"
proof -
  let ?P = "\<lambda>(k, x). k \<notin> CZ_Index ` {n ..< length xs}"
  have "arr xs = arr (take n xs) @ zip (List.map CZ_Index [n ..< length xs]) (drop n xs)"
    using arr_append [of "take n xs" "drop n xs"] assms by simp
  moreover have "filter ?P (arr (take n xs)) = arr (take n xs)"
    using assms arr_keys [of _ _ "take n xs"] by (fastforce intro: filter_True)
  moreover have "filter ?P (zip (List.map CZ_Index [n ..< length xs]) (drop n xs)) = []"
    by (auto simp: filter_empty_conv set_zip)
  ultimately show ?thesis unfolding fold_erase by (metis filter_append append_Nil2 set_upt)
qed

lemma arr_shift:
  assumes "i + 1 < length xs"
  shows "shift_entry i (arr xs) = arr (xs[i := xs ! (i + 1)])"
  using assms by (simp add: shift_entry_def slot_def arr_put)

lemma shift_down:
  "i < length xs \<Longrightarrow> fold shift_entry [i ..< length xs - 1] (arr xs) = arr (take i xs @ drop (Suc i) xs @ [last xs])"
proof (induction "length xs - Suc i" arbitrary: i xs)
  case 0
  then have "i = length xs - 1" "xs \<noteq> []" by auto
  then show ?case by (cases xs rule: rev_cases) simp_all
next
  case (Suc n)
  then have i: "i + 1 < length xs" by linarith
  let ?xs = "xs[i := xs ! (i + 1)]"
  have "[i ..< length xs - 1] = i # [Suc i ..< length ?xs - 1]" using i by (simp add: upt_conv_Cons)
  then have "fold shift_entry [i ..< length xs - 1] (arr xs) = fold shift_entry [Suc i ..< length ?xs - 1] (arr ?xs)"
    using arr_shift [OF i] by simp
  also have "\<dots> = arr (take (Suc i) ?xs @ drop (Suc (Suc i)) ?xs @ [last ?xs])"
    using Suc.hyps i by (intro Suc.hyps(1)) auto
  also have "take (Suc i) ?xs = take i xs @ [xs ! (i + 1)]" using i by (simp add: take_Suc_conv_app_nth)
  also have "drop (Suc (Suc i)) ?xs = drop (Suc (Suc i)) xs" by simp
  also have "last ?xs = last xs" using i by (cases "xs = []") (auto simp: last_conv_nth)
  also have "(take i xs @ [xs ! (i + 1)]) @ drop (Suc (Suc i)) xs @ [last xs] = take i xs @ drop (Suc i) xs @ [last xs]"
    using i by (simp add: Cons_nth_drop_Suc)
  finally show ?case .
qed

text \<open>
  On such arrays the operations are those of lists; growing by more than one leaves a gap, after which
  shrinking to a size inside the gap fails.
\<close>

lemma array_elem:
  "Value_size (VArray (arr xs)) = length xs mod 2 ^ 32"
  "Value_elem i (VArray (arr xs)) = Inr (if i < length xs then xs ! i else VNull)"
  by (cases xs rule: rev_cases) (simp_all add: Value_size_def Value_elem_def array_size_def arr_snoc, simp add: arr_def)

lemma array_append:
  assumes "length xs < 2 ^ 32"
  shows "Value_append x (VArray (arr xs)) = Inr (VArray (arr (xs @ [x])))"
proof -
  have "m_put (CZ_Index (length xs)) x (arr (xs @ [VNull])) = arr (xs @ [x])"
    using arr_put [of "length xs" "xs @ [VNull]" x] by simp
  with assms show ?thesis
    by (simp add: Value_append_def Value_size_def arr_size Value_index_def slot_def arr_put_end assign_entry_def)
qed

lemma array_resize_down:
  assumes "length xs < 2 ^ 32" "n \<le> length xs"
  shows "Value_resize n (VArray (arr xs)) = Inr (VArray (arr (take n xs)))"
  using assms arr_take [of n xs] arr_size [of xs] arr_size [of "take n xs"]
  by (auto simp: Value_resize_def resize_array_def Let_def arr_def min_def)

lemma array_resize_gap:
  assumes "length xs + 1 < n" "n < 2 ^ 32"
  shows "\<exists>v. Value_resize n (VArray (arr xs)) = Inr v \<and> Value_size v = n
     \<and> (\<forall>j. length xs < j \<and> j < n \<longrightarrow> Value_resize j v = Inl LogicError)"
proof -
  let ?m = "arr xs @ [(CZ_Index (n - 1), VNull)]"
  have len: "array_size (arr xs) = length xs" using assms by (intro arr_size) simp
  have "m_put (CZ_Index (n - 1)) VNull (arr xs) = ?m"
    using assms arr_keys by (fastforce intro: m_put_last)
  then have v: "Value_resize n (VArray (arr xs)) = Inr (VArray ?m)"
    using assms len by (simp add: Value_resize_def resize_array_def slot_def)
  have sz: "array_size ?m = n" using assms by (simp add: array_size_def)
  have "Value_resize j (VArray ?m) = Inl LogicError" if j: "length xs < j" "j < n" for j
  proof -
    have "filter (\<lambda>(k, x). k \<notin> CZ_Index ` set [j ..< n]) (arr xs) = arr xs"
      using j arr_keys [of _ _ xs] by (fastforce intro: filter_True)
    then have "fold (\<lambda>i. m_erase (CZ_Index i)) [j ..< n] ?m = arr xs"
      using j unfolding fold_erase by simp
    then show ?thesis using j sz len by (simp add: Value_resize_def resize_array_def)
  qed
  with v sz show ?thesis by (simp add: Value_size_def)
qed

lemma array_removeIndex:
  assumes "length xs < 2 ^ 32"
  shows "Value_removeIndex i (VArray (arr xs))
     = (if i < length xs then (Some (xs ! i), VArray (arr (take i xs @ drop (Suc i) xs))) else (None, VArray (arr xs)))"
proof (cases "i < length xs")
  case True
  let ?ys = "take i xs @ drop (Suc i) xs"
  have "(length xs + (2 ^ 32 - 1)) mod 2 ^ 32 = length xs - 1"
  proof -
    have "length xs + (2 ^ 32 - 1) = (length xs - 1) + 2 ^ 32" using True by simp
    then show ?thesis using assms by (simp only: mod_add_self2) simp
  qed
  moreover have "m_erase (CZ_Index (length xs - 1)) (arr (?ys @ [last xs])) = arr ?ys"
    using arr_erase_end [of ?ys "last xs"] True by simp
  ultimately show ?thesis using True assms shift_down [OF True] by (simp add: Value_removeIndex_def arr_size Let_def)
qed (simp add: Value_removeIndex_def)

section \<open>Objects are maps\<close>

lemma object_assign:
  assumes "Value_resolveReference key v = Inr (x, v')"
  shows "Value_find k (assign_entry (CZ_String key) y v') = (if k = key then Inr (Some y) else Value_find k v)"
  using assms by (auto simp: Value_resolveReference_def slot_def Value_find_def assign_entry_def map_of_put
      split: jvalue.splits option.splits)

lemma object_remove:
  assumes "Value_removeMember key v = Inr (x, v')"
  shows "Value_find k v' = (if k = key then Inr None else Value_find k v)" "Value_member key v = Inr x"
  using assms by (auto simp: Value_removeMember_def Value_removeMember_into_def Let_def Value_find_def Value_member_def
      map_of_erase split: jvalue.splits option.splits if_splits)

lemma object_names:
  assumes "value_ok v" "getMemberNames v = Inr ns"
  shows "sorted_wrt key_less ns" "k \<in> set ns \<longleftrightarrow> isMember k v = Inr True"
proof -
  have "sorted_wrt key_less ns \<and> (k \<in> set ns \<longleftrightarrow> isMember k v = Inr True)"
  proof (cases v)
    case (VObject m)
    have str: "string_key c" if "(c, x) \<in> set m" for c x using that assms(1) by (auto simp: VObject list_all_iff)
    have ns: "ns = List.map (CZString_data \<circ> fst) m" using assms(2) by (simp add: getMemberNames_def VObject comp_def split_def)
    have less: "key_less (CZString_data a) (CZString_data b)" if "a < b" "string_key a" "string_key b" for a b
      using that by (cases a; cases b) simp_all
    have "sorted_wrt (\<lambda>p q. fst p < fst q) m" using assms(1) by (simp add: VObject m_sorted_def sorted_wrt_map)
    then have "sorted_wrt (\<lambda>p q. key_less (CZString_data (fst p)) (CZString_data (fst q))) m"
      by (rule sorted_wrt_mono_rel [rotated]) (use str less in \<open>metis prod.collapse\<close>)
    moreover have "k \<in> set ns \<longleftrightarrow> CZ_String k \<in> fst ` set m"
    proof
      assume "k \<in> set ns"
      then obtain c x where "(c, x) \<in> set m" "k = CZString_data c" using ns by auto
      moreover from this(2) str [OF this(1)] have "c = CZ_String k" by (cases c) simp_all
      ultimately show "CZ_String k \<in> fst ` set m" by force
    next
      assume "CZ_String k \<in> fst ` set m"
      then show "k \<in> set ns" using ns by force
    qed
    ultimately show ?thesis using map_of_eq_None_iff [of m "CZ_String k"]
      by (auto simp: ns sorted_wrt_map isMember_def Value_find_def VObject)
  qed (use assms in \<open>auto simp: getMemberNames_def isMember_def Value_find_def\<close>)
  then show "sorted_wrt key_less ns" "k \<in> set ns \<longleftrightarrow> isMember k v = Inr True" by simp_all
qed

section \<open>The values of the configuration are stored ones\<close>

text \<open>
  The value a program reads: gaps of an array and null strings do not show, an object is the list of its
  members. Json_Value works on these.
\<close>

fun json_of :: "jvalue \<Rightarrow> json" where
  "json_of VNull = nullValue"
| "json_of (VInt i) = intValue i"
| "json_of (VUInt n) = uintValue n"
| "json_of (VReal d) = realValue d"
| "json_of (VString s) = stringValue (case s of None \<Rightarrow> [] | Some x \<Rightarrow> x)"
| "json_of (VBool b) = booleanValue b"
| "json_of (VArray m) = arrayValue (let m' = List.map (\<lambda>(k, x). (k, json_of x)) m
     in List.map (\<lambda>i. case map_of m' (CZ_Index i) of None \<Rightarrow> nullValue | Some x \<Rightarrow> x) [0 ..< array_size m'])"
| "json_of (VObject m) = objectValue (List.map (\<lambda>(k, x). (CZString_data k, json_of x)) m)"

definition base_double :: "c_math \<Rightarrow> c_double" where
  "base_double cm = \<lparr>parse_double = m_parse cm, format_double = m_format cm,
     double_to_uint = (\<lambda>d. if InRange cm d 0 maxUInt_v then Some (word_of_int (d_trunc cm d)) else None),
     double_nonzero = (\<lambda>d. \<not> d_eq cm d (d_of_int cm 0))\<rparr>"

lemma map_of_json: "map_of (List.map (\<lambda>(k, x). (k, f x)) m) k = map_option f (map_of m k)"
  by (induction m) auto

lemma array_size_map [simp]: "array_size (List.map (\<lambda>(k, x). (k, f x)) m) = array_size m"
  by (cases m rule: rev_cases) (auto simp: array_size_def split: prod.split)

lemma map_of_data:
  "list_all (\<lambda>(k, x). string_key k) m \<Longrightarrow>
   map_of (List.map (\<lambda>(k, x). (CZString_data k, f x)) m) s = map_option f (map_of m (CZ_String s))"
proof (induction m)
  case (Cons e m)
  obtain k x where "e = (k, x)" by (cases e)
  with Cons show ?case by (cases k) auto
qed simp

lemma insert_data:
  "list_all (\<lambda>(k, x). string_key k) m \<Longrightarrow>
   obj_insert s (f x) (List.map (\<lambda>(k, x). (CZString_data k, f x)) m)
     = List.map (\<lambda>(k, x). (CZString_data k, f x)) (m_put (CZ_String s) x m)"
proof (induction m)
  case (Cons e m)
  obtain k y where "e = (k, y)" by (cases e)
  with Cons show ?case by (cases k) auto
qed simp

lemma object_keys: "value_ok (VObject m) \<Longrightarrow> list_all (\<lambda>(k, x). string_key k) m"
  by (auto simp: list_all_iff)

lemma stored_find:
  assumes "value_ok v"
  shows "json_find key (json_of v) = map_sum id (map_option json_of) (Value_find key v)"
  using assms map_of_data [OF object_keys, of _ json_of key]
  by (cases v) (simp_all add: json_find_def Value_find_def del: value_ok.simps(4))

lemma stored_lookup:
  assumes "value_ok v"
  shows "member key (json_of v) = map_sum id json_of (Value_member key v)"
    "json_get key (json_of d) (json_of v) = map_sum id json_of (Value_get key d v)"
  by (cases "Value_find key v"; auto simp: member_def json_get_def Value_member_def Value_get_def stored_find [OF assms]
      split: option.splits)+

lemma stored_elem:
  assumes "value_ok v"
  shows "json_elem i (json_of v) = map_sum id json_of (Value_elem i v)"
proof (cases v)
  case (VArray m)
  have "i < array_size m" if "map_of m (CZ_Index i) = Some x" for x
    using assms array_size_bound(1) [OF _ map_of_SomeD [OF that]] by (simp add: VArray value_ok_entries del: value_ok.simps)
  then show ?thesis
    by (cases "map_of m (CZ_Index i)") (auto simp: VArray json_elem_def Value_elem_def Let_def map_of_json)
qed (simp_all add: json_elem_def Value_elem_def)

lemma stored_size: "(\<And>m. v = VObject m \<Longrightarrow> length m < 2 ^ 32) \<Longrightarrow> json_size (json_of v) = Value_size v"
  by (cases v) (simp_all add: json_size_def Value_size_def Let_def)

lemma stored_resolve:
  assumes "value_ok v"
  shows "resolveReference key (json_of v)
    = map_sum id (map_prod json_of json_of) (Value_resolveReference key v)"
proof (cases v)
  case (VObject m)
  have k: "list_all (\<lambda>(k, x). string_key k) m" using assms by (simp add: VObject object_keys del: value_ok.simps)
  show ?thesis using map_of_data [OF k, of json_of key] insert_data [OF k, of key json_of VNull]
    by (auto simp: VObject resolveReference_def Value_resolveReference_def slot_def split: option.splits)
qed (simp_all add: resolveReference_def Value_resolveReference_def slot_def)

lemma to_UInt64_nat: "0 \<le> i \<Longrightarrow> i < 2 ^ 64 \<Longrightarrow> to_UInt64 i = i"
  by (simp add: to_UInt64_def uint_word_of_int take_bit_int_eq_self)

lemma stored_conversions:
  assumes "value_ok v"
  shows "asString (base_double cm) (json_of v) = Value_asString cm v"
    "asUInt (base_double cm) (json_of v) = map_sum id word_of_int (Value_asUInt cm v)"
    "asBool (base_double cm) (json_of v) = Value_asBool cm v"
    "isNull (json_of v) = Value_isNull v"
proof -
  show "asString (base_double cm) (json_of v) = Value_asString cm v"
    "asBool (base_double cm) (json_of v) = Value_asBool cm v" "isNull (json_of v) = Value_isNull v"
    by (cases v; simp add: asString_def Value_asString_def asBool_def Value_asBool_def isNull_def Value_isNull_def
        base_double_def)+
  have [simp]: "to_UInt64 i = i" if "0 \<le> i" "i < 2 ^ 63" for i
    using that by (intro to_UInt64_nat) simp_all
  have [simp]: "word_of_int (to_UInt i) = (word_of_int i :: 32 word)" for i
    by (simp add: to_UInt_def)
  show "asUInt (base_double cm) (json_of v) = map_sum id word_of_int (Value_asUInt cm v)"
    using assms
    by (cases v) (auto simp: asUInt_def Value_asUInt_def Value_isUInt_def maxUInt_v_def base_double_def)
qed

section \<open>Conversions\<close>

text \<open>A value is convertible to a type exactly when the conversion throws no exception.\<close>

lemma integers_numeric: "Value_isNumeric cm (VInt i)" "Value_isNumeric cm (VUInt n)" "Value_isNumeric cm (VReal d)"
  by (simp_all add: Value_isNumeric_def Value_isIntegral_def Value_isDouble_def Value_isInt64_def Value_isUInt64_def)

lemma not_numeric: "\<not> Value_isNumeric cm VNull" "\<not> Value_isNumeric cm (VString s)" "\<not> Value_isNumeric cm (VBool b)"
  "\<not> Value_isNumeric cm (VArray m)" "\<not> Value_isNumeric cm (VObject m)"
  by (simp_all add: Value_isNumeric_def Value_isIntegral_def Value_isDouble_def Value_isInt64_def Value_isUInt64_def)

lemma convertible_iff:
  "isConvertibleTo cm IntType v \<longleftrightarrow> (\<exists>i. Value_asInt cm v = Inr i)"
  "isConvertibleTo cm UIntType v \<longleftrightarrow> (\<exists>i. Value_asUInt cm v = Inr i)"
  "isConvertibleTo cm RealType v \<longleftrightarrow> (\<exists>d. asDouble cm v = Inr d)"
  "isConvertibleTo cm BooleanType v \<longleftrightarrow> (\<exists>b. Value_asBool cm v = Inr b)"
  "isConvertibleTo cm StringType v \<longleftrightarrow> (\<exists>s. Value_asString cm v = Inr s)"
  by (cases v; simp add: isConvertibleTo_def Value_asInt_def Value_asUInt_def asDouble_def Value_asBool_def
      Value_asString_def Value_isInt_def Value_isUInt_def InRange_def integers_numeric not_numeric; blast)+

lemma casts_exact:
  "minInt_v \<le> i \<Longrightarrow> i \<le> maxInt_v \<Longrightarrow> to_Int i = i" "0 \<le> i \<Longrightarrow> i \<le> maxUInt_v \<Longrightarrow> to_UInt i = i"
  "minInt64_v \<le> i \<Longrightarrow> i \<le> maxInt64_v \<Longrightarrow> to_Int64 i = i" "0 \<le> i \<Longrightarrow> i \<le> maxUInt64_v \<Longrightarrow> to_UInt64 i = i"
  by (simp_all add: to_Int_def to_UInt_def to_Int64_def to_UInt64_def minInt_v_def maxInt_v_def maxUInt_v_def
      minInt64_v_def maxInt64_v_def maxUInt64_v_def sint_sbintrunc' signed_take_bit_int_eq_self uint_word_of_int
      take_bit_int_eq_self)

text \<open>The number of a value of an integer type.\<close>

definition number_of :: "jvalue \<Rightarrow> int option" where
  "number_of v = (case v of VInt i \<Rightarrow> Some i | VUInt n \<Rightarrow> Some (int n) | _ \<Rightarrow> None)"

lemma integer_conversions:
  assumes "value_ok v" "number_of v = Some n"
  shows "Value_asInt cm v = (if minInt_v \<le> n \<and> n \<le> maxInt_v then Inr n else Inl LogicError)"
    "Value_asUInt cm v = (if 0 \<le> n \<and> n \<le> maxUInt_v then Inr n else Inl LogicError)"
    "Value_asInt64 cm v = (if minInt64_v \<le> n \<and> n \<le> maxInt64_v then Inr n else Inl LogicError)"
    "Value_asUInt64 cm v = (if 0 \<le> n \<and> n \<le> maxUInt64_v then Inr n else Inl LogicError)"
proof -
  have w: "to_UInt64 n = n" if "0 \<le> n" using that assms
    by (intro to_UInt64_nat) (auto simp: number_of_def split: jvalue.splits)
  have r: "minInt64_v \<le> n" "n \<le> maxUInt64_v" "v = VInt n \<Longrightarrow> n \<le> maxInt64_v"
    using assms by (auto simp: number_of_def minInt64_v_def maxUInt64_v_def maxInt64_v_def split: jvalue.splits)
  show "Value_asInt cm v = (if minInt_v \<le> n \<and> n \<le> maxInt_v then Inr n else Inl LogicError)"
    "Value_asUInt cm v = (if 0 \<le> n \<and> n \<le> maxUInt_v then Inr n else Inl LogicError)"
    "Value_asInt64 cm v = (if minInt64_v \<le> n \<and> n \<le> maxInt64_v then Inr n else Inl LogicError)"
    "Value_asUInt64 cm v = (if 0 \<le> n \<and> n \<le> maxUInt64_v then Inr n else Inl LogicError)"
    using assms w r casts_exact [of n]
    by (cases v; auto simp: number_of_def Value_asInt_def Value_asUInt_def Value_asInt64_def Value_asUInt64_def
        Value_isInt_def Value_isUInt_def Value_isInt64_def Value_isUInt64_def minInt_v_def minInt64_v_def)+
qed

end
