(* ===== verification/Json_Order.thy ===== *)
theory Json_Order
  imports Json_Store
begin

text \<open>
  \<open>Json::Value\<close>'s comparisons: \<open>operator<\<close> is a strict weak order whose equivalence is \<open>operator==\<close>,
  which is what \<open>std::map\<close>, sorting and \<open>compare\<close> ask of it. The hypothesis is the same contract for
  the machine's doubles, on those that occur: it holds of the numbers and fails for NaN.
\<close>

section \<open>Strict weak orders\<close>

locale weak_order =
  fixes S :: "'a set" and lt :: "'a \<Rightarrow> 'a \<Rightarrow> bool" and eq :: "'a \<Rightarrow> 'a \<Rightarrow> bool"
  assumes irrefl: "x \<in> S \<Longrightarrow> \<not> lt x x"
    and trans: "x \<in> S \<Longrightarrow> y \<in> S \<Longrightarrow> z \<in> S \<Longrightarrow> lt x y \<Longrightarrow> lt y z \<Longrightarrow> lt x z"
    and eq_iff: "x \<in> S \<Longrightarrow> y \<in> S \<Longrightarrow> eq x y \<longleftrightarrow> \<not> lt x y \<and> \<not> lt y x"
    and eq_trans: "x \<in> S \<Longrightarrow> y \<in> S \<Longrightarrow> z \<in> S \<Longrightarrow> eq x y \<Longrightarrow> eq y z \<Longrightarrow> eq x z"
begin

lemma asym: "x \<in> S \<Longrightarrow> y \<in> S \<Longrightarrow> lt x y \<Longrightarrow> \<not> lt y x"
  using irrefl trans by blast

lemma less_eq_trans: "x \<in> S \<Longrightarrow> y \<in> S \<Longrightarrow> z \<in> S \<Longrightarrow> lt x y \<Longrightarrow> eq y z \<Longrightarrow> lt x z"
  by (metis eq_iff eq_trans trans)

lemma eq_less_trans: "x \<in> S \<Longrightarrow> y \<in> S \<Longrightarrow> z \<in> S \<Longrightarrow> eq x y \<Longrightarrow> lt y z \<Longrightarrow> lt x z"
  by (metis eq_iff eq_trans trans)

lemma trichotomy: "x \<in> S \<Longrightarrow> y \<in> S \<Longrightarrow> lt x y \<or> eq x y \<or> lt y x"
  using eq_iff by blast

text \<open>The lexicographic order of the lists over the set, and its equivalence.\<close>

lemma lex_irrefl: "set xs \<subseteq> S \<Longrightarrow> \<not> lex_less lt xs xs"
  by (induction xs) (simp_all add: irrefl)

lemma lex_eq:
  "set xs \<subseteq> S \<Longrightarrow> set ys \<subseteq> S \<Longrightarrow> list_all2 eq xs ys \<longleftrightarrow> \<not> lex_less lt xs ys \<and> \<not> lex_less lt ys xs"
proof (induction xs arbitrary: ys)
  case Nil
  then show ?case by (cases ys) simp_all
next
  case (Cons x xs)
  then show ?case by (cases ys) (auto simp: eq_iff)
qed

lemma lex_trans:
  "set xs \<subseteq> S \<Longrightarrow> set ys \<subseteq> S \<Longrightarrow> set zs \<subseteq> S \<Longrightarrow> lex_less lt xs ys \<Longrightarrow> lex_less lt ys zs \<Longrightarrow> lex_less lt xs zs"
proof (induction xs arbitrary: ys zs)
  case Nil
  then show ?case by (cases ys; cases zs) simp_all
next
  case (Cons x xs)
  from Cons.prems obtain y ys' z zs' where yz: "ys = y # ys'" "zs = z # zs'" by (cases ys; cases zs) auto
  have S: "x \<in> S" "y \<in> S" "z \<in> S" using Cons.prems yz by auto
  consider "lt x y" | "eq x y" "lex_less lt xs ys'"
    using Cons.prems(4) yz S eq_iff by (auto split: if_splits)
  moreover consider "lt y z" | "eq y z" "lex_less lt ys' zs'"
    using Cons.prems(5) yz S eq_iff by (auto split: if_splits)
  ultimately consider "lt x z" | "eq x z" "lex_less lt xs ys'" "lex_less lt ys' zs'"
    by (metis S trans less_eq_trans eq_less_trans eq_trans)
  then show ?case
  proof cases
    case 2
    then have "lex_less lt xs zs'" using Cons.IH [of ys' zs'] Cons.prems yz by simp
    with 2 S yz show ?thesis by (simp add: eq_iff)
  qed (simp add: yz)
qed

lemma lex_eq_trans:
  "set xs \<subseteq> S \<Longrightarrow> set ys \<subseteq> S \<Longrightarrow> set zs \<subseteq> S \<Longrightarrow> list_all2 eq xs ys \<Longrightarrow> list_all2 eq ys zs \<Longrightarrow> list_all2 eq xs zs"
proof (induction xs arbitrary: ys zs)
  case (Cons x xs)
  from Cons.prems obtain y ys' z zs' where yz: "ys = y # ys'" "zs = z # zs'" by (cases ys; cases zs) auto
  with Cons show ?case using eq_trans [of x y z] by auto
qed simp

end

lemmas wo_irrefl = weak_order.irrefl
lemmas wo_trans = weak_order.trans
lemmas wo_eq_iff = weak_order.eq_iff
lemmas wo_eq_trans = weak_order.eq_trans

lemma weak_order_lists:
  assumes "weak_order S lt eq"
  shows "weak_order {xs. set xs \<subseteq> S} (lex_less lt) (list_all2 eq)"
  using weak_order.lex_irrefl [OF assms] weak_order.lex_trans [OF assms] weak_order.lex_eq [OF assms]
    weak_order.lex_eq_trans [OF assms]
  by unfold_locales blast+

lemma weak_order_pairs:
  fixes lt :: "'b \<Rightarrow> 'b \<Rightarrow> bool"
  assumes "weak_order S lt eq"
  shows "weak_order {p :: 'a::linorder \<times> 'b. snd p \<in> S} (pair_less lt) (\<lambda>p q. fst p = fst q \<and> eq (snd p) (snd q))"
proof
  note wo = wo_irrefl [OF assms] wo_trans [OF assms] wo_eq_iff [OF assms] wo_eq_trans [OF assms]
  let ?eq = "\<lambda>p q :: 'a \<times> 'b. fst p = fst q \<and> eq (snd p) (snd q)"
  fix p q r :: "'a \<times> 'b"
  assume S: "p \<in> {p. snd p \<in> S}" "q \<in> {p. snd p \<in> S}" "r \<in> {p. snd p \<in> S}"
  show "\<not> pair_less lt p p" using S wo(1) by (simp add: pair_less_def)
  show "pair_less lt p q \<Longrightarrow> pair_less lt q r \<Longrightarrow> pair_less lt p r"
    using S wo(2) [of "snd p" "snd q" "snd r"] by (auto simp: pair_less_def)
  show "?eq p q \<longleftrightarrow> \<not> pair_less lt p q \<and> \<not> pair_less lt q p"
    using S wo(3) [of "snd p" "snd q"] by (auto simp: pair_less_def)
  show "?eq p q \<Longrightarrow> ?eq q r \<Longrightarrow> ?eq p r" using S wo(4) [of "snd p" "snd q" "snd r"] by simp
qed

text \<open>Values are compared by a number first, and within the number by the relation.\<close>

lemma weak_order_rank:
  fixes f :: "'a \<Rightarrow> nat"
  assumes "\<And>n. weak_order {x \<in> S. f x = n} lt eq"
    and lt: "\<And>x y. x \<in> S \<Longrightarrow> y \<in> S \<Longrightarrow> f x \<noteq> f y \<Longrightarrow> lt x y \<longleftrightarrow> f x < f y"
    and eq: "\<And>x y. x \<in> S \<Longrightarrow> y \<in> S \<Longrightarrow> eq x y \<Longrightarrow> f x = f y"
  shows "weak_order S lt eq"
proof
  note wo = wo_irrefl [OF assms(1)] wo_trans [OF assms(1)] wo_eq_iff [OF assms(1)] wo_eq_trans [OF assms(1)]
  fix x y z assume S: "x \<in> S" "y \<in> S" "z \<in> S"
  show "\<not> lt x x" using wo(1) [of x "f x"] S by simp
  show "lt x z" if "lt x y" "lt y z"
  proof -
    have "f x \<le> f y" "f y \<le> f z" using lt S that by (metis le_refl nat_less_le)+
    then consider "f x < f z" | "f x = f y" "f y = f z" by linarith
    then show ?thesis using lt [of x z] wo(2) [of x "f x" y z] S that by cases auto
  qed
  show "eq x y \<longleftrightarrow> \<not> lt x y \<and> \<not> lt y x"
    using wo(3) [of x "f x" y] lt [of x y] lt [of y x] eq [of x y] S by (cases "f x = f y") auto
  show "eq x z" if "eq x y" "eq y z"
    using wo(4) [of x "f x" y z] eq [of x y] eq [of y z] S that by simp
qed

lemma weak_order_on:
  assumes "weak_order S lt eq" "T \<subseteq> f ` S"
    and "\<And>x y. x \<in> S \<Longrightarrow> y \<in> S \<Longrightarrow> lt' (f x) (f y) = lt x y"
    and "\<And>x y. x \<in> S \<Longrightarrow> y \<in> S \<Longrightarrow> eq' (f x) (f y) = eq x y"
  shows "weak_order T lt' eq'"
proof
  fix x y z assume "x \<in> T" "y \<in> T" "z \<in> T"
  then obtain a b c where [simp]: "x = f a" "y = f b" "z = f c" "a \<in> S" "b \<in> S" "c \<in> S" using assms(2) by blast
  note wo = wo_irrefl [OF assms(1)] wo_trans [OF assms(1)] wo_eq_iff [OF assms(1)] wo_eq_trans [OF assms(1)]
  show "\<not> lt' x x" by (simp add: assms(3) wo(1))
  show "lt' x y \<Longrightarrow> lt' y z \<Longrightarrow> lt' x z" using wo(2) [of a b c] by (simp add: assms(3))
  show "eq' x y \<longleftrightarrow> \<not> lt' x y \<and> \<not> lt' y x" by (simp add: assms(3,4) wo(3))
  show "eq' x y \<Longrightarrow> eq' y z \<Longrightarrow> eq' x z" using wo(4) [of a b c] by (simp add: assms(4))
qed

lemma weak_order_subset: "weak_order S lt eq \<Longrightarrow> T \<subseteq> S \<Longrightarrow> weak_order T lt eq"
  by (erule weak_order_on [where f = id]) auto

lemma weak_order_linorder: "weak_order S (<) (=)" for S :: "'a::linorder set"
  by unfold_locales auto

section \<open>The order of values\<close>

text \<open>
  The values compared: their maps have fewer than $2^{31}$ entries, so that the narrowed difference of two
  sizes keeps its sign, and their doubles lie in a set on which the machine's comparisons are an order.
\<close>

fun comparable :: "64 word set \<Rightarrow> jvalue \<Rightarrow> bool" where
  "comparable D (VReal d) = (d \<in> D)"
| "comparable D (VArray m) = (length m < 2 ^ 31 \<and> list_all (\<lambda>(k, x). comparable D x) m)"
| "comparable D (VObject m) = (length m < 2 ^ 31 \<and> list_all (\<lambda>(k, x). comparable D x) m)"
| "comparable D _ = True"

lemma size_delta_less:
  "m < 2 ^ 31 \<Longrightarrow> n < 2 ^ 31 \<Longrightarrow> size_delta m n = int m - int n"
  unfolding size_delta_def sint_sbintrunc' by (intro signed_take_bit_int_eq_self) simp_all

definition entry_equal :: "c_math \<Rightarrow> czstring \<times> jvalue \<Rightarrow> czstring \<times> jvalue \<Rightarrow> bool" where
  "entry_equal cm p q \<longleftrightarrow> fst p = fst q \<and> Value_equal cm (snd p) (snd q)"

definition map_less :: "c_math \<Rightarrow> (czstring \<times> jvalue) list \<Rightarrow> (czstring \<times> jvalue) list \<Rightarrow> bool" where
  "map_less cm m n = (if size_delta (length m) (length n) \<noteq> 0 then size_delta (length m) (length n) < 0
     else lex_less (pair_less (Value_less cm)) m n)"

definition map_equal :: "c_math \<Rightarrow> (czstring \<times> jvalue) list \<Rightarrow> (czstring \<times> jvalue) list \<Rightarrow> bool" where
  "map_equal cm m n \<longleftrightarrow> list_all2 (entry_equal cm) m n"

text \<open>The comparisons type by type.\<close>

lemma less_types: "Value_type v \<noteq> Value_type w \<Longrightarrow> Value_less cm v w \<longleftrightarrow> type_number (Value_type v) < type_number (Value_type w)"
  by (simp add: Value_less.simps)

lemma equal_types: "Value_equal cm v w \<Longrightarrow> Value_type v = Value_type w"
  by (cases v; cases w) (simp_all add: Value_equal.simps)

lemma less_same_type:
  "\<not> Value_less cm VNull VNull" "Value_less cm (VInt i) (VInt j) = (i < j)"
  "Value_less cm (VUInt a) (VUInt b) = (a < b)" "Value_less cm (VReal d) (VReal e) = d_less cm d e"
  "Value_less cm (VBool p) (VBool q) = (p < q)"
  "Value_less cm (VArray m) (VArray n) = map_less cm m n" "Value_less cm (VObject m) (VObject n) = map_less cm m n"
  by (simp_all add: Value_less.simps map_less_def)

lemma less_strings:
  "Value_less cm (VString s) (VString t) = (case (s, t) of (Some x, Some y) \<Rightarrow> key_less x y | (None, Some y) \<Rightarrow> True | _ \<Rightarrow> False)"
  by (simp add: Value_less.simps split: option.splits)

lemma equal_same_type:
  "Value_equal cm VNull VNull" "Value_equal cm (VInt i) (VInt j) = (i = j)"
  "Value_equal cm (VUInt a) (VUInt b) = (a = b)" "Value_equal cm (VReal d) (VReal e) = d_eq cm d e"
  "Value_equal cm (VBool p) (VBool q) = (p = q)" "Value_equal cm (VString s) (VString t) = (s = t)"
  by (auto simp: Value_equal.simps split: option.splits)

lemma equal_maps:
  "Value_equal cm (VArray m) (VArray n) = map_equal cm m n" "Value_equal cm (VObject m) (VObject n) = map_equal cm m n"
proof -
  have "(\<lambda>p q. CZString_equal (fst p) (fst q) \<and> Value_equal cm (snd p) (snd q)) = entry_equal cm"
    by (simp add: fun_eq_iff entry_equal_def)
  then show "Value_equal cm (VArray m) (VArray n) = map_equal cm m n"
    "Value_equal cm (VObject m) (VObject n) = map_equal cm m n"
    by (subst Value_equal.simps; auto simp: map_equal_def list_all2_lengthD)+
qed

text \<open>Maps are compared by their sizes, and by their entries when the sizes are equal.\<close>

lemma maps_ordered:
  assumes "weak_order S (Value_less cm) (Value_equal cm)"
  shows "weak_order {m. length m < 2 ^ 31 \<and> snd ` set m \<subseteq> S} (map_less cm) (map_equal cm)"
proof (rule weak_order_rank [where f = length])
  let ?M = "{m. length m < 2 ^ 31 \<and> snd ` set m \<subseteq> S}"
  have e: "(\<lambda>p q. fst p = fst q \<and> Value_equal cm (snd p) (snd q)) = entry_equal cm"
    by (simp add: fun_eq_iff entry_equal_def)
  have wo: "weak_order {m. set m \<subseteq> {p. snd p \<in> S}} (lex_less (pair_less (Value_less cm)))
      (list_all2 (\<lambda>p q. fst p = fst q \<and> Value_equal cm (snd p) (snd q)))"
    by (intro weak_order_lists weak_order_pairs assms)
  show "weak_order {m \<in> ?M. length m = n} (map_less cm) (map_equal cm)" for n
    by (rule weak_order_on [where f = id, OF weak_order_subset [OF wo, of "{m \<in> ?M. length m = n}"]])
      (auto simp: map_less_def map_equal_def e size_delta_less)
  show "map_less cm m n \<longleftrightarrow> length m < length n" if "m \<in> ?M" "n \<in> ?M" "length m \<noteq> length n" for m n
    using that by (simp add: map_less_def size_delta_less)
  show "length m = length n" if "map_equal cm m n" for m n
    using that by (simp add: map_equal_def list_all2_lengthD)
qed

text \<open>A string without characters comes after the null pointer.\<close>

definition opt_less :: "bytes option \<Rightarrow> bytes option \<Rightarrow> bool" where
  "opt_less s t = (case (s, t) of (Some x, Some y) \<Rightarrow> key_less x y | (None, Some y) \<Rightarrow> True | _ \<Rightarrow> False)"

lemma opt_less_trans: "opt_less a b \<Longrightarrow> opt_less b c \<Longrightarrow> opt_less a c"
  by (cases a; cases b; cases c) (auto simp: opt_less_def intro: key_less_trans)

lemma opt_less_total: "opt_less a b \<or> a = b \<or> opt_less b a"
  using key_less_total by (cases a; cases b) (auto simp: opt_less_def)

lemma strings_ordered: "weak_order UNIV opt_less (=)"
proof
  have irrefl: "\<not> opt_less x x" for x by (cases x) (simp_all add: opt_less_def)
  then show "\<not> opt_less x x" for x .
  show "x = y \<longleftrightarrow> \<not> opt_less x y \<and> \<not> opt_less y x" for x y
    using irrefl opt_less_total by metis
qed (auto intro: opt_less_trans)

lemma type_number_bound: "type_number t < 8"
  by (cases t) simp_all

lemma type_numbers:
  "type_number t = 0 \<longleftrightarrow> t = NullType" "type_number t = 1 \<longleftrightarrow> t = IntType" "type_number t = 2 \<longleftrightarrow> t = UIntType"
  "type_number t = 3 \<longleftrightarrow> t = RealType" "type_number t = 4 \<longleftrightarrow> t = StringType" "type_number t = 5 \<longleftrightarrow> t = BooleanType"
  "type_number t = 6 \<longleftrightarrow> t = ArrayType" "type_number t = 7 \<longleftrightarrow> t = ObjectType"
  by (cases t; simp)+

lemma type_number_inj: "type_number s = type_number t \<Longrightarrow> s = t"
  by (cases s; cases t) simp_all

lemma type_cases:
  "Value_type v = NullType \<longleftrightarrow> v = VNull" "Value_type v = IntType \<longleftrightarrow> v \<in> range VInt"
  "Value_type v = UIntType \<longleftrightarrow> v \<in> range VUInt" "Value_type v = RealType \<longleftrightarrow> v \<in> range VReal"
  "Value_type v = StringType \<longleftrightarrow> v \<in> range VString" "Value_type v = BooleanType \<longleftrightarrow> v \<in> range VBool"
  "Value_type v = ArrayType \<longleftrightarrow> v \<in> range VArray" "Value_type v = ObjectType \<longleftrightarrow> v \<in> range VObject"
  by (cases v; auto)+

text \<open>The values of one type, given that the entries of their maps are ordered.\<close>

lemma type_ordered:
  assumes "weak_order D (d_less cm) (d_eq cm)" "weak_order S (Value_less cm) (Value_equal cm)"
    and "\<And>v. v \<in> T \<Longrightarrow> Value_type v = t \<and> comparable D v"
    and "\<And>m k x. VArray m \<in> T \<or> VObject m \<in> T \<Longrightarrow> (k, x) \<in> set m \<Longrightarrow> x \<in> S"
  shows "weak_order T (Value_less cm) (Value_equal cm)"
proof -
  let ?M = "{m. length m < 2 ^ 31 \<and> snd ` set m \<subseteq> S}"
  note M = maps_ordered [OF assms(2)]
  have sub: "\<And>v. v \<in> T \<Longrightarrow> Value_type v = t" "\<And>v. v \<in> T \<Longrightarrow> comparable D v" using assms(3) by auto
  show ?thesis
  proof (cases t)
    case NullType
    have "T \<subseteq> (\<lambda>_. VNull) ` {0 :: nat}" using sub(1) by (auto simp: NullType type_cases)
    then show ?thesis by (rule weak_order_on [OF weak_order_linorder]) (simp_all add: less_same_type equal_same_type)
  next
    case IntType
    have "T \<subseteq> VInt ` UNIV" using sub(1) by (auto simp: IntType type_cases)
    then show ?thesis by (rule weak_order_on [OF weak_order_linorder]) (simp_all add: less_same_type equal_same_type)
  next
    case UIntType
    have "T \<subseteq> VUInt ` UNIV" using sub(1) by (auto simp: UIntType type_cases)
    then show ?thesis by (rule weak_order_on [OF weak_order_linorder]) (simp_all add: less_same_type equal_same_type)
  next
    case RealType
    have "T \<subseteq> VReal ` D" using sub by (fastforce simp: RealType type_cases)
    then show ?thesis by (rule weak_order_on [OF assms(1)]) (simp_all add: less_same_type equal_same_type)
  next
    case StringType
    have "T \<subseteq> VString ` UNIV" using sub(1) by (auto simp: StringType type_cases)
    then show ?thesis
      by (rule weak_order_on [OF strings_ordered]) (simp_all add: less_strings opt_less_def equal_same_type)
  next
    case BooleanType
    have "T \<subseteq> VBool ` UNIV" using sub(1) by (auto simp: BooleanType type_cases)
    then show ?thesis by (rule weak_order_on [OF weak_order_linorder]) (simp_all add: less_same_type equal_same_type)
  next
    case ArrayType
    have "T \<subseteq> VArray ` ?M"
    proof
      fix v assume v: "v \<in> T"
      with sub(1) obtain m where m: "v = VArray m" by (auto simp: ArrayType type_cases)
      with v sub(2) [of v] assms(4) [of m] have "m \<in> ?M" by auto
      with m show "v \<in> VArray ` ?M" by simp
    qed
    then show ?thesis by (rule weak_order_on [OF M]) (simp_all add: less_same_type equal_maps)
  next
    case ObjectType
    have "T \<subseteq> VObject ` ?M"
    proof
      fix v assume v: "v \<in> T"
      with sub(1) obtain m where m: "v = VObject m" by (auto simp: ObjectType type_cases)
      with v sub(2) [of v] assms(4) [of m] have "m \<in> ?M" by auto
      with m show "v \<in> VObject ` ?M" by simp
    qed
    then show ?thesis by (rule weak_order_on [OF M]) (simp_all add: less_same_type equal_maps)
  qed
qed

lemma values_ordered_below:
  assumes "weak_order D (d_less cm) (d_eq cm)"
  shows "weak_order {v. comparable D v \<and> size v < n} (Value_less cm) (Value_equal cm)"
proof (induction n)
  case 0
  show ?case by unfold_locales simp_all
next
  case (Suc n)
  let ?S = "{v. comparable D v \<and> size v < Suc n}"
  have entries: "x \<in> {v. comparable D v \<and> size v < n}" if "VArray m \<in> ?S \<or> VObject m \<in> ?S" "(k, x) \<in> set m" for m k x
    using that
  proof (elim disjE)
    show "x \<in> {v. comparable D v \<and> size v < n}" if "VArray m \<in> ?S" "(k, x) \<in> set m"
      using that entry_size [OF that(2)] by (auto simp: list_all_iff)
    show "x \<in> {v. comparable D v \<and> size v < n}" if "VObject m \<in> ?S" "(k, x) \<in> set m"
      using that entry_size [OF that(2)] by (auto simp: list_all_iff)
  qed
  show ?case
  proof (rule weak_order_rank [where f = "\<lambda>v. type_number (Value_type v)"])
    show "weak_order {v \<in> ?S. type_number (Value_type v) = t} (Value_less cm) (Value_equal cm)" for t
    proof (cases "{v \<in> ?S. type_number (Value_type v) = t} = {}")
      case True
      show ?thesis unfolding True by unfold_locales simp_all
    next
      case False
      then obtain u where "type_number (Value_type u) = t" by blast
      then have "Value_type v = Value_type u" if "type_number (Value_type v) = t" for v
        using that type_number_inj by simp
      then show ?thesis by (intro type_ordered [OF assms Suc.IH, of _ "Value_type u"]) (use entries in auto)
    qed
    show "Value_less cm x y \<longleftrightarrow> type_number (Value_type x) < type_number (Value_type y)"
      if "type_number (Value_type x) \<noteq> type_number (Value_type y)" for x y
      using that by (intro less_types) auto
    show "type_number (Value_type x) = type_number (Value_type y)" if "Value_equal cm x y" for x y
      using equal_types [OF that] by simp
  qed
qed

theorem values_ordered:
  assumes "weak_order D (d_less cm) (d_eq cm)"
  shows "weak_order {v. comparable D v} (Value_less cm) (Value_equal cm)"
proof
  note wo = wo_irrefl [OF values_ordered_below [OF assms]] wo_trans [OF values_ordered_below [OF assms]]
    wo_eq_iff [OF values_ordered_below [OF assms]] wo_eq_trans [OF values_ordered_below [OF assms]]
  fix x y z assume "x \<in> {v. comparable D v}" "y \<in> {v. comparable D v}" "z \<in> {v. comparable D v}"
  then have S: "x \<in> {v. comparable D v \<and> size v < Suc (size x + size y + size z)}"
    "y \<in> {v. comparable D v \<and> size v < Suc (size x + size y + size z)}"
    "z \<in> {v. comparable D v \<and> size v < Suc (size x + size y + size z)}" by simp_all
  show "\<not> Value_less cm x x" by (rule wo(1) [OF S(1)])
  show "Value_less cm x y \<Longrightarrow> Value_less cm y z \<Longrightarrow> Value_less cm x z" by (rule wo(2) [OF S])
  show "Value_equal cm x y \<longleftrightarrow> \<not> Value_less cm x y \<and> \<not> Value_less cm y x" by (rule wo(3) [OF S(1,2)])
  show "Value_equal cm x y \<Longrightarrow> Value_equal cm y z \<Longrightarrow> Value_equal cm x z" by (rule wo(4) [OF S])
qed

text \<open>Without doubles the values are ordered on every machine.\<close>

interpretation keys: weak_order UNIV CZString_less CZString_equal
  by (rule weak_order_on [OF weak_order_linorder, of UNIV id UNIV]) (simp_all add: less_czstring_def)

interpretation plain: weak_order "{v. comparable {} v}" "Value_less cm" "Value_equal cm" for cm
  by (rule values_ordered, unfold_locales) simp_all

text \<open>\<open>compare\<close> is the sign of the order.\<close>

lemma compare_sign:
  assumes "weak_order D (d_less cm) (d_eq cm)" "comparable D v" "comparable D w"
  shows "Value_compare cm v w = (if Value_equal cm v w then 0 else if Value_less cm v w then -1 else 1)"
    "Value_compare cm w v = - Value_compare cm v w"
  using wo_eq_iff [OF values_ordered [OF assms(1)], of v w] weak_order.asym [OF values_ordered [OF assms(1)], of v w] assms(2,3)
  by (auto simp: Value_compare_def Value_greater_def)

end
