(* ===== verification/Json_Parsed.thy ===== *)
theory Json_Parsed
  imports Json_Store Json_Reader
begin

text \<open>
  What the reader makes can be stored: its integers have 64 bits, the members of its objects are sorted
  and distinct, and an array has at most as many elements as the document has characters.
\<close>

section \<open>The values the reader makes\<close>

fun json_fits :: "nat \<Rightarrow> json \<Rightarrow> bool" where
  "json_fits l (intValue i) = (- (2 ^ 63) \<le> i \<and> i < 2 ^ 63)"
| "json_fits l (uintValue n) = (n < 2 ^ 64)"
| "json_fits l (arrayValue vs) = (length vs \<le> l \<and> list_all (json_fits l) vs)"
| "json_fits l (objectValue ms) = (obj_sorted ms \<and> list_all (\<lambda>(k, v). json_fits l v) ms)"
| "json_fits l _ = True"

definition fitting :: "nat \<Rightarrow> (string \<Rightarrow> json parsed) \<Rightarrow> bool" where
  "fitting l rv \<longleftrightarrow> (\<forall>s v r. length s \<le> l \<longrightarrow> rv s = Parsed v r \<longrightarrow> json_fits l v)"

lemma fittingD: "fitting l rv \<Longrightarrow> length s \<le> l \<Longrightarrow> rv s = Parsed v r \<Longrightarrow> json_fits l v"
  by (auto simp: fitting_def)

lemma decodeNumber_fits: "decodeNumber cd tk = Some v \<Longrightarrow> json_fits l v"
proof (cases "take 1 tk = ''-''")
  case True
  have "w \<le> maxLargestInt + 1" if "decode_digits (maxLargestInt + 1) 0 (drop 1 tk) = Some w" for w
    using that by (rule decode_digits_bound) simp
  with True show "decodeNumber cd tk = Some v \<Longrightarrow> json_fits l v"
    by (fastforce simp: decodeNumber_def maxLargestInt_def split: option.splits if_splits)
next
  case False
  have "w \<le> maxLargestUInt" if "decode_digits maxLargestUInt 0 tk = Some w" for w
    using that by (rule decode_digits_bound) simp
  with False show "decodeNumber cd tk = Some v \<Longrightarrow> json_fits l v"
    by (fastforce simp: decodeNumber_def maxLargestUInt_def maxInt_def split: option.splits if_splits)
qed

lemma object_fits_insert:
  assumes "json_fits l (objectValue ms)" "json_fits l v"
  shows "json_fits l (objectValue (obj_insert k v ms))"
  using assms set_obj_insert [of k v ms] by (auto simp: obj_sorted_insert list_all_iff)

lemma read_members_fits:
  assumes "reads rv" "fitting l rv"
  shows "length s \<le> l \<Longrightarrow> json_fits l (objectValue ms) \<Longrightarrow> read_members rv n name ms s = Parsed v r \<Longrightarrow> json_fits l v"
proof (induction n arbitrary: name ms s)
  case (Suc n)
  obtain ty tk r0 where t: "skipCommentTokens s = (ty, tk, r0)" by (cases "skipCommentTokens s")
  show ?case
  proof (cases "ty = tokenObjectEnd \<and> name = []")
    case True
    with t Suc.prems(2,3) show ?thesis by auto
  next
    case False
    with t Suc.prems(3) obtain nm where nm: "ty = tokenString" "decodeString tk = Some nm"
      by (auto split: if_splits option.splits)
    obtain colon tk2 r2 where c: "readToken r0 = (colon, tk2, r2)" by (cases "readToken r0")
    have colon: "colon = tokenMemberSeparator" using t nm c Suc.prems(3) by (auto split: if_splits)
    then obtain x r3 where x: "rv r2 = Parsed x r3" using t nm c Suc.prems(3) by (auto split: parsed.splits)
    have l2: "length r2 \<le> l"
      using skipComment_length [OF t] readToken_length(1) [OF c] Suc.prems(1) by linarith
    obtain comma tk4 r4 where k: "readToken r3 = (comma, tk4, r4)" by (cases "readToken r3")
    obtain t5 tk5 r5 where q: "skipCommentTokens r4 = (t5, tk5, r5)" by (cases "skipCommentTokens r4")
    have ls: "length r4 \<le> l" "length r5 \<le> l"
      using readsD(1) [OF assms(1) x] l2 readToken_length(1) [OF k] skipComment_length [OF q] by linarith+
    note ok = object_fits_insert [OF Suc.prems(2) fittingD [OF assms(2) l2 x], of nm]
    from Suc.prems(3) t nm c colon x k q
    have "v = objectValue (obj_insert nm x ms) \<or> (\<exists>u \<in> {r4, r5}. read_members rv n nm (obj_insert nm x ms) u = Parsed v r)"
      by (auto simp: Let_def split: if_splits)
    with Suc.IH [OF _ ok] ls ok show ?thesis by (auto simp del: json_fits.simps)
  qed
qed simp

lemma read_elements_fits:
  assumes "reads rv" "fitting l rv"
  shows "length vs + length s \<le> l \<Longrightarrow> list_all (json_fits l) vs \<Longrightarrow> read_elements rv n vs s = Parsed v r \<Longrightarrow> json_fits l v"
proof (induction n arbitrary: vs s)
  case (Suc n)
  then obtain x q where x: "rv s = Parsed x q" by (auto split: parsed.splits)
  obtain ty tk q' where t: "skipCommentTokens q = (ty, tk, q')" by (cases "skipCommentTokens q")
  have l: "length (vs @ [x]) + length q' \<le> l" "length s \<le> l"
    using readsD(1) [OF assms(1) x] skipComment_length [OF t] Suc.prems(1) by simp_all
  moreover have ok: "list_all (json_fits l) (vs @ [x])" using fittingD [OF assms(2) l(2) x] Suc.prems(2) by simp
  ultimately show ?case using Suc.IH [OF l(1) ok] Suc.prems(3) x t by (auto split: if_splits)
qed simp

lemma readObject_fits: "reads rv \<Longrightarrow> fitting l rv \<Longrightarrow> length s \<le> l \<Longrightarrow> readObject rv s = Parsed v r \<Longrightarrow> json_fits l v"
  using read_members_fits [of rv l s "[]"] by (simp add: readObject_def del: read_members.simps)

lemma readArray_fits:
  assumes "reads rv" "fitting l rv" "length s \<le> l" "readArray rv s = Parsed v r"
  shows "json_fits l v"
proof -
  have "length (skipSpaces s) \<le> l"
    using length_dropWhile_le [of json_space s] assms(3) unfolding skipSpaces_def by linarith
  with assms(4) read_elements_fits [OF assms(1,2), of "[]" "skipSpaces s"] show ?thesis
    by (auto simp: readArray_def Let_def simp del: read_elements.simps split: if_splits prod.splits)
qed

lemma readValue_fits: "fitting l (readValue cd d)"
proof (induction d)
  case 0
  then show ?case by (simp add: fitting_def)
next
  case (Suc d)
  have "json_fits l v" if "length s \<le> l" "readValue cd (Suc d) s = Parsed v r" for s v r
  proof -
    obtain ty tk q where t: "skipCommentTokens s = (ty, tk, q)" by (cases "skipCommentTokens s")
    have "length q \<le> l" using skipComment_length [OF t] that(1) by linarith
    with that(2) t show ?thesis
      using readObject_fits [OF readValue_reads Suc, of q] readArray_fits [OF readValue_reads Suc, of q] decodeNumber_fits
      by (cases ty) (auto split: option.splits)
  qed
  then show ?case by (simp add: fitting_def del: readValue.simps)
qed

section \<open>Storing them\<close>

text \<open>An array's map has one entry for every element, an object's one for every member.\<close>

fun store :: "json \<Rightarrow> jvalue" where
  "store nullValue = VNull"
| "store (intValue i) = VInt i"
| "store (uintValue n) = VUInt n"
| "store (realValue d) = VReal d"
| "store (stringValue s) = VString (Some s)"
| "store (booleanValue b) = VBool b"
| "store (arrayValue vs) = VArray (arr (List.map store vs))"
| "store (objectValue ms) = VObject (List.map (\<lambda>(k, v). (CZ_String k, store v)) ms)"

lemma arr_sorted: "m_sorted (arr xs)"
proof -
  have "sorted_wrt (<) (List.map CZ_Index [0 ..< n])" for n
    by (induction n) (auto simp: sorted_wrt_append)
  then show ?thesis by (simp add: m_sorted_def arr_def)
qed

lemma strings_sorted: "obj_sorted ms \<Longrightarrow> m_sorted (List.map (\<lambda>(k, v). (CZ_String k, f v)) ms)"
  by (induction ms) (force simp: m_sorted_def)+

lemma store_ok: "json_fits l j \<Longrightarrow> l < 2 ^ 32 \<Longrightarrow> value_ok (store j)"
proof (induction l j rule: json_fits.induct)
  case (3 l vs)
  have "index_key k \<and> value_ok x" if e: "(k, x) \<in> set (arr (List.map store vs))" for k x
  proof -
    from arr_keys [OF e] have "index_key k" using 3 by auto
    moreover have "x \<in> store ` set vs" using e by (auto simp: arr_def dest: set_zip_rightD)
    ultimately show ?thesis using 3 by (auto simp: list_all_iff)
  qed
  then show ?case by (auto simp: arr_sorted list_all_iff)
next
  case (4 l ms)
  then show ?case by (auto simp: strings_sorted list_all_iff)
qed simp_all

lemma json_of_store: "json_fits l j \<Longrightarrow> l < 2 ^ 32 \<Longrightarrow> json_of (store j) = j"
proof (induction l j rule: json_fits.induct)
  case (3 l vs)
  then have len: "length vs < 2 ^ 32" by simp
  have eq: "List.map (\<lambda>(k, x). (k, json_of x)) (arr (List.map store vs)) = arr (List.map (\<lambda>j. json_of (store j)) vs)"
    by (simp add: arr_def zip_map2 comp_def split_def)
  have "List.map (\<lambda>j. json_of (store j)) vs = vs" using 3 by (intro map_idI) (auto simp: list_all_iff)
  with eq len show ?case by (auto simp: Let_def arr_size intro: nth_equalityI)
next
  case (4 l ms)
  then have "json_of (store x) = x" if "(k, x) \<in> set ms" for k x using that by (auto simp: list_all_iff)
  then show ?case by (auto intro!: map_idI)
qed simp_all

end
