(* ===== verification/Json_Styled.thy ===== *)
theory Json_Styled
  imports Json_Store Json_Writer
begin

text \<open>
  The three styled writers of external/json/jsoncpp.cpp on stored values without comments:
  \<open>Json::StyledWriter\<close>, \<open>Json::StyledStreamWriter\<close> and \<open>BuiltStyledStreamWriter\<close> with its builder. They
  put members and nested elements on lines of their own, indented, and short arrays on one line. The
  three classes repeat the same methods; what differs between them is a record of parameters. What they
  write is a text of the value, so the reader reads it back - except that two of them cut a member name
  at its first zero byte, and that a string whose pointer is null is written as nothing.
\<close>

section \<open>The state and what the classes share\<close>

text \<open>
  The document of a stream writer is what it has put into the stream. \<open>indented\<close> is not used by
  \<open>StyledWriter\<close>.
\<close>

record styled =
  document :: string
  indentString :: string
  childValues :: "string list"
  addChildValues :: bool
  indented :: bool

definition rightMargin :: nat where "rightMargin = 74"

definition put :: "string \<Rightarrow> styled \<Rightarrow> styled" where
  "put s st = st\<lparr>document := document st @ s\<rparr>"

definition pushValue :: "string \<Rightarrow> styled \<Rightarrow> styled" where
  "pushValue s st = (if addChildValues st then st\<lparr>childValues := childValues st @ [s]\<rparr> else put s st)"

text \<open>
  A class: \<open>writeWithIndent\<close>, what a nested element of an array is put between, the unit of indentation,
  the texts of names, colons, null and doubles, whether arrays always have several lines, and the space
  inside the brackets of an array on one line.
\<close>

record writer_class =
  with_indent :: "string \<Rightarrow> styled \<Rightarrow> styled"
  before_element :: "styled \<Rightarrow> styled"
  after_element :: "styled \<Rightarrow> styled"
  indentation :: string
  quote_name :: "bytes \<Rightarrow> string"
  colonSymbol :: string
  nullSymbol :: string
  real_text :: "64 word \<Rightarrow> string"
  all_multiline :: bool
  bracket_space :: string

definition indent :: "writer_class \<Rightarrow> styled \<Rightarrow> styled" where
  "indent wc st = st\<lparr>indentString := indentString st @ indentation wc\<rparr>"

definition unindent :: "writer_class \<Rightarrow> styled \<Rightarrow> styled" where
  "unindent wc st = st\<lparr>indentString := take (length (indentString st) - length (indentation wc)) (indentString st)\<rparr>"

text \<open>
  The elements \<open>value[0]\<close>, ... of an array, a gap as null. The functions of the loops have \<open>writeValue\<close> as
  an argument.
\<close>

definition elements :: "(czstring \<times> jvalue) list \<Rightarrow> jvalue list" where
  "elements m = List.map (\<lambda>i. case map_of m (CZ_Index i) of None \<Rightarrow> VNull | Some x \<Rightarrow> x) [0 ..< array_size m]"

definition isMultineArray :: "(jvalue \<Rightarrow> styled \<Rightarrow> styled) \<Rightarrow> jvalue list \<Rightarrow> styled \<Rightarrow> bool \<times> styled" where
  "isMultineArray wv vs st =
     (let isMultiLine = ((length vs * 3) mod 2 ^ 32 \<ge> rightMargin
            \<or> list_ex (\<lambda>x. (Value_isArray x \<or> Value_isObject x) \<and> Value_size x > 0) vs);
          st = st\<lparr>childValues := []\<rparr>
      in if isMultiLine then (True, st)
         else (let st = fold wv vs (st\<lparr>addChildValues := True\<rparr>);
                   lineLength = (4 + (length vs - 1) * 2
                     + sum_list (List.map (\<lambda>i. length (childValues st ! i)) [0 ..< length vs])) mod 2 ^ 32
               in (lineLength \<ge> rightMargin, st\<lparr>addChildValues := False\<rparr>)))"

fun write_elements ::
  "writer_class \<Rightarrow> (jvalue \<Rightarrow> styled \<Rightarrow> styled) \<Rightarrow> bool \<Rightarrow> nat \<Rightarrow> jvalue list \<Rightarrow> styled \<Rightarrow> styled" where
  "write_elements wc wv hasChildValue index [] st = st"
| "write_elements wc wv hasChildValue index (x # xs) st =
     (let st = (if hasChildValue then with_indent wc (childValues st ! index) st
                else after_element wc (wv x (before_element wc st)))
      in if xs = [] then st else write_elements wc wv hasChildValue (index + 1) xs (put '','' st))"

fun write_on_line :: "string list \<Rightarrow> styled \<Rightarrow> styled" where
  "write_on_line [] st = st"
| "write_on_line (s # ss) st =
     (let st = put s st in if ss = [] then st else write_on_line ss (put '', '' st))"

definition writeArrayValue ::
  "writer_class \<Rightarrow> (jvalue \<Rightarrow> styled \<Rightarrow> styled) \<Rightarrow> jvalue list \<Rightarrow> styled \<Rightarrow> styled" where
  "writeArrayValue wc wv vs st =
     (if vs = [] then pushValue ''[]'' st
      else let (isMultiLine, st) = (if all_multiline wc then (True, st) else isMultineArray wv vs st) in
      if isMultiLine then
        (let st = indent wc (with_indent wc ''['' st);
             st = write_elements wc wv (childValues st \<noteq> []) 0 vs st
         in with_indent wc '']'' (unindent wc st))
      else (let st = put (''['' @ bracket_space wc) st;
                st = write_on_line (List.map (\<lambda>i. childValues st ! i) [0 ..< length vs]) st
            in put (bracket_space wc @ '']'') st))"

fun write_members ::
  "writer_class \<Rightarrow> (jvalue \<Rightarrow> styled \<Rightarrow> styled) \<Rightarrow> (czstring \<times> jvalue) list \<Rightarrow> styled \<Rightarrow> styled" where
  "write_members wc wv [] st = st"
| "write_members wc wv ((name, x) # ms) st =
     (let st = wv x (put (colonSymbol wc) (with_indent wc (quote_name wc (CZString_data name)) st))
      in if ms = [] then st else write_members wc wv ms (put '','' st))"

lemma write_elements_cong [fundef_cong]:
  assumes "wc = wc'" "hc = hc'" "i = i'" "vs = vs'" "st = st'" "\<And>x s. x \<in> set vs' \<Longrightarrow> wv x s = wv' x s"
  shows "write_elements wc wv hc i vs st = write_elements wc' wv' hc' i' vs' st'"
  unfolding assms(1-5) using assms(6)
  by (induction vs' arbitrary: i' st') (simp_all add: Let_def)

lemma write_members_cong [fundef_cong]:
  assumes "wc = wc'" "ms = ms'" "st = st'" "\<And>n x s. (n, x) \<in> set ms' \<Longrightarrow> wv x s = wv' x s"
  shows "write_members wc wv ms st = write_members wc' wv' ms' st'"
  unfolding assms(1-3) using assms(4)
proof (induction ms' arbitrary: st')
  case (Cons e ms)
  obtain n x where e: "e = (n, x)" by (cases e)
  have "wv x s = wv' x s" for s using Cons.prems [of n x] e by simp
  moreover have "write_members wc' wv ms s = write_members wc' wv' ms s" for s
    by (rule Cons.IH) (use Cons.prems in auto)
  ultimately show ?case by (simp add: e Let_def)
qed simp

lemma isMultineArray_cong [fundef_cong]:
  assumes "vs = vs'" "st = st'" "\<And>x s. x \<in> set vs' \<Longrightarrow> wv x s = wv' x s"
  shows "isMultineArray wv vs st = isMultineArray wv' vs' st'"
proof -
  have "fold wv vs' s = fold wv' vs' s" for s
    using assms(3) by (intro fold_cong) (auto simp: fun_eq_iff)
  then show ?thesis by (simp add: isMultineArray_def assms(1,2) Let_def)
qed

lemma writeArrayValue_cong [fundef_cong]:
  assumes "wc = wc'" "vs = vs'" "st = st'" "\<And>x s. x \<in> set vs' \<Longrightarrow> wv x s = wv' x s"
  shows "writeArrayValue wc wv vs st = writeArrayValue wc' wv' vs' st'"
  unfolding writeArrayValue_def assms(1-3)
  using isMultineArray_cong [of vs' vs' st' st' wv wv'] write_elements_cong [of wc' wc' _ _ _ _ vs' vs' _ _ wv wv'] assms(4)
  by (auto simp: Let_def split: prod.splits)

lemma elements_size: "x \<in> set (elements m) \<Longrightarrow> size x < size (VArray m)"
  by (auto simp: elements_def split: option.splits dest!: map_of_SomeD entry_size)

function styled_value :: "writer_class \<Rightarrow> jvalue \<Rightarrow> styled \<Rightarrow> styled" where
  "styled_value wc v st = (case v of
      VNull \<Rightarrow> pushValue (nullSymbol wc) st
    | VInt i \<Rightarrow> pushValue (valueToString_int i) st
    | VUInt n \<Rightarrow> pushValue (valueToString_uint n) st
    | VReal d \<Rightarrow> pushValue (real_text wc d) st
    | VString s \<Rightarrow> (case getString v of Some x \<Rightarrow> pushValue (valueToQuotedStringN x) st | None \<Rightarrow> pushValue [] st)
    | VBool b \<Rightarrow> pushValue (if b then ''true'' else ''false'') st
    | VArray m \<Rightarrow> writeArrayValue wc (styled_value wc) (elements m) st
    | VObject m \<Rightarrow>
        if m = [] then pushValue ''{}'' st
        else with_indent wc ''}'' (unindent wc
               (write_members wc (styled_value wc) m (indent wc (with_indent wc ''{'' st)))))"
  by pat_completeness auto
termination
  by (relation "measure (\<lambda>(wc, v, st). size v)") (auto dest!: elements_size entry_size)

declare styled_value.simps [simp del]

section \<open>The three writers\<close>

text \<open>
  \<open>StyledWriter\<close> looks at the end of the document to see whether it is indented already. A member name is
  passed to \<open>valueToQuotedString\<close> as a C string: its characters are those before the first zero byte.
\<close>

definition valueToQuotedString :: "bytes \<Rightarrow> string" where
  "valueToQuotedString v = (let s = c_str v in
     if \<not> list_ex (\<lambda>c. c \<in> set special_chars) s \<and> \<not> list_ex isControlCharacter s
     then CHR 0x22 # s @ [CHR 0x22]
     else CHR 0x22 # concat (List.map escape_char s) @ [CHR 0x22])"

definition Styled_writeIndent :: "styled \<Rightarrow> styled" where
  "Styled_writeIndent st =
     (if document st \<noteq> [] then
        if last (document st) = CHR '' '' then st
        else if last (document st) \<noteq> CHR 0x0A then put (CHR 0x0A # indentString st) st
        else put (indentString st) st
      else put (indentString st) st)"

definition StyledWriter :: "c_math \<Rightarrow> writer_class" where
  "StyledWriter cm =
     \<lparr>with_indent = (\<lambda>s st. put s (Styled_writeIndent st)), before_element = Styled_writeIndent, after_element = id,
      indentation = replicate 3 (CHR '' ''), quote_name = valueToQuotedString, colonSymbol = '' : '',
      nullSymbol = ''null'', real_text = m_format cm, all_multiline = False, bracket_space = '' ''\<rparr>"

definition new_styled :: styled where
  "new_styled = \<lparr>document = [], indentString = [], childValues = [], addChildValues = False, indented = True\<rparr>"

definition StyledWriter_write :: "c_math \<Rightarrow> jvalue \<Rightarrow> string" where
  "StyledWriter_write cm v = document (put [CHR 0x0A] (styled_value (StyledWriter cm) v new_styled))"

definition toStyledString :: "c_math \<Rightarrow> jvalue \<Rightarrow> string" where
  "toStyledString cm v = StyledWriter_write cm v"

text \<open>\<open>StyledStreamWriter\<close> remembers whether it has indented.\<close>

definition Stream_writeIndent :: "styled \<Rightarrow> styled" where
  "Stream_writeIndent st = put (CHR 0x0A # indentString st) st"

definition Stream_writeWithIndent :: "(styled \<Rightarrow> styled) \<Rightarrow> string \<Rightarrow> styled \<Rightarrow> styled" where
  "Stream_writeWithIndent wi s st =
     (let st = (if \<not> indented st then wi st else st) in (put s st)\<lparr>indented := False\<rparr>)"

definition Stream_before :: "(styled \<Rightarrow> styled) \<Rightarrow> styled \<Rightarrow> styled" where
  "Stream_before wi st = (if \<not> indented st then wi st else st)\<lparr>indented := True\<rparr>"

definition StyledStreamWriter :: "c_math \<Rightarrow> string \<Rightarrow> writer_class" where
  "StyledStreamWriter cm ind =
     \<lparr>with_indent = Stream_writeWithIndent Stream_writeIndent, before_element = Stream_before Stream_writeIndent,
      after_element = (\<lambda>st. st\<lparr>indented := False\<rparr>), indentation = ind, quote_name = valueToQuotedString,
      colonSymbol = '' : '', nullSymbol = ''null'', real_text = m_format cm, all_multiline = False,
      bracket_space = '' ''\<rparr>"

text \<open>\<open>writeValue\<close>, \<open>writeArrayValue\<close> and \<open>isMultineArray\<close> of this class: the common ones with its parameters.\<close>

definition Stream_writeValue :: "c_math \<Rightarrow> string \<Rightarrow> jvalue \<Rightarrow> styled \<Rightarrow> styled" where
  "Stream_writeValue cm ind v st = styled_value (StyledStreamWriter cm ind) v st"

definition StyledStreamWriter_write :: "c_math \<Rightarrow> string \<Rightarrow> jvalue \<Rightarrow> string" where
  "StyledStreamWriter_write cm ind v = document (put [CHR 0x0A] (Stream_writeValue cm ind v new_styled))"

text \<open>
  \<open>BuiltStyledStreamWriter\<close> drops the line breaks when its unit of indentation is empty. \<open>real\<close> is
  \<open>valueToString\<close> on doubles with the settings for special numbers and the precision.
\<close>

definition Built_writeIndent :: "string \<Rightarrow> styled \<Rightarrow> styled" where
  "Built_writeIndent ind st = (if ind \<noteq> [] then put (CHR 0x0A # indentString st) st else st)"

datatype comment_style = Style_None | Style_All

definition BuiltStyledStreamWriter ::
  "string \<Rightarrow> comment_style \<Rightarrow> string \<Rightarrow> string \<Rightarrow> (64 word \<Rightarrow> string) \<Rightarrow> writer_class" where
  "BuiltStyledStreamWriter ind cs colon null real =
     \<lparr>with_indent = Stream_writeWithIndent (Built_writeIndent ind), before_element = Stream_before (Built_writeIndent ind),
      after_element = (\<lambda>st. st\<lparr>indented := False\<rparr>), indentation = ind, quote_name = valueToQuotedStringN,
      colonSymbol = colon, nullSymbol = null, real_text = real, all_multiline = (cs = Style_All),
      bracket_space = (if ind \<noteq> [] then '' '' else [])\<rparr>"

text \<open>
  \<open>StreamWriterBuilder\<close>: the settings are a value; a wrong comment style throws. \<open>real\<close> gets the flag
  and the precision, at most 17.
\<close>

definition StreamWriter_setDefaults :: jvalue where
  "StreamWriter_setDefaults = VObject
     [(CZ_String ''commentStyle'', VString (Some ''All'')), (CZ_String ''dropNullPlaceholders'', VBool False),
      (CZ_String ''enableYAMLCompatibility'', VBool False), (CZ_String ''indentation'', VString (Some [CHR 0x09])),
      (CZ_String ''precision'', VInt 17), (CZ_String ''useSpecialFloats'', VBool False)]"

definition newStreamWriter :: "c_math \<Rightarrow> (bool \<Rightarrow> nat \<Rightarrow> 64 word \<Rightarrow> string) \<Rightarrow> jvalue \<Rightarrow> json_error + writer_class" where
  "newStreamWriter cm real settings =
     rbind (rbind (Value_member ''indentation'' settings) (Value_asString cm)) (\<lambda>indentation.
     rbind (rbind (Value_member ''commentStyle'' settings) (Value_asString cm)) (\<lambda>cs_str.
     rbind (rbind (Value_member ''enableYAMLCompatibility'' settings) (Value_asBool cm)) (\<lambda>eyc.
     rbind (rbind (Value_member ''dropNullPlaceholders'' settings) (Value_asBool cm)) (\<lambda>dnp.
     rbind (rbind (Value_member ''useSpecialFloats'' settings) (Value_asBool cm)) (\<lambda>usf.
     rbind (rbind (Value_member ''precision'' settings) (Value_asUInt cm)) (\<lambda>pre.
     rbind (if cs_str = ''All'' then Inr Style_All else if cs_str = ''None'' then Inr Style_None else Inl RuntimeError) (\<lambda>cs.
     let colon = (if eyc then '': '' else if indentation = [] then '':'' else '' : '');
         null = (if dnp then [] else ''null'')
     in Inr (BuiltStyledStreamWriter indentation cs colon null (real usf (min (nat pre) 17))))))))))"

definition Built_writeValue :: "writer_class \<Rightarrow> jvalue \<Rightarrow> styled \<Rightarrow> styled" where
  "Built_writeValue wc v st = styled_value wc v st"

definition Built_write :: "writer_class \<Rightarrow> jvalue \<Rightarrow> string" where
  "Built_write wc v = document (Built_writeValue wc v new_styled)"

definition writeString ::
  "c_math \<Rightarrow> (bool \<Rightarrow> nat \<Rightarrow> 64 word \<Rightarrow> string) \<Rightarrow> jvalue \<Rightarrow> jvalue \<Rightarrow> json_error + string" where
  "writeString cm real settings v = rbind (newStreamWriter cm real settings) (\<lambda>wc. Inr (Built_write wc v))"

end
