(* ===== verification/Json_Layout.thy ===== *)
theory Json_Layout
  imports Json_Styled
begin

text \<open>
  What the styled writers write is a text of the value. The contract of a writer class is a locale; its
  client is the common code, the providers are the three classes.
\<close>

section \<open>White space around lists\<close>

lemma absorb_front:
  assumes "list_all2 P vs ts" "vs \<noteq> []" "\<And>v t. P v t \<Longrightarrow> P v (w @ t)"
  shows "\<exists>ts'. list_all2 P vs ts' \<and> w @ intersperse ts = intersperse ts'"
proof -
  from assms(1,2) obtain v vs' t ts' where c: "vs = v # vs'" "ts = t # ts'" "P v t" "list_all2 P vs' ts'"
    by (cases vs; cases ts) auto
  have "w @ intersperse ts = intersperse ((w @ t) # ts')" using c by (cases ts') simp_all
  moreover have "list_all2 P vs ((w @ t) # ts')" using c assms(3) by simp
  ultimately show ?thesis by blast
qed

lemma absorb_back:
  assumes "list_all2 P vs ts" "vs \<noteq> []" "\<And>v t. P v t \<Longrightarrow> P v (t @ w)"
  shows "\<exists>ts'. list_all2 P vs ts' \<and> intersperse ts @ w = intersperse ts'"
  using assms(1,2)
proof (induction rule: list_all2_induct)
  case (Cons v vs t ts)
  show ?case
  proof (cases "vs = []")
    case True
    with Cons assms(3) show ?thesis by (intro exI [of _ "[t @ w]"]) auto
  next
    case False
    with Cons obtain us where us: "list_all2 P vs us" "intersperse ts @ w = intersperse us" by auto
    moreover from False us Cons.hyps have "us \<noteq> []" "ts \<noteq> []" by auto
    ultimately show ?thesis using Cons.hyps by (intro exI [of _ "t # us"]) (simp add: intersperse_Cons)
  qed
qed simp

lemma element_text_space: "spaces w \<Longrightarrow> spaces w' \<Longrightarrow> element_text v t \<Longrightarrow> element_text v (w @ t @ w')"
proof -
  assume "spaces w" "spaces w'" "element_text v t"
  then obtain w1 u w2 where t: "t = w1 @ u @ w2" "spaces w1" "spaces w2" "json_text v u" by (auto simp: element_text_def)
  have "element_text v ((w @ w1) @ u @ (w2 @ w'))"
    using t \<open>spaces w\<close> \<open>spaces w'\<close> by (intro element_textI) simp_all
  then show ?thesis by (simp add: t)
qed

lemma member_text_space: "spaces w \<Longrightarrow> spaces w' \<Longrightarrow> member_text m t \<Longrightarrow> member_text m (w @ t @ w')"
proof -
  assume "spaces w" "spaces w'" "member_text m t"
  then obtain w1 w2 w3 u w4 where t: "t = w1 @ valueToQuotedStringN (fst m) @ w2 @ '':'' @ w3 @ u @ w4"
      "spaces w1" "spaces w2" "spaces w3" "spaces w4" "json_text (snd m) u" by (auto simp: member_text_def)
  have "member_text (fst m, snd m) ((w @ w1) @ valueToQuotedStringN (fst m) @ w2 @ '':'' @ w3 @ u @ (w4 @ w'))"
    using t \<open>spaces w\<close> \<open>spaces w'\<close> by (intro member_textI) simp_all
  then show ?thesis by (simp add: t)
qed

lemma array_text_space:
  assumes "list_all2 element_text vs ts" "vs \<noteq> []" "spaces w" "spaces w'"
  shows "json_text (arrayValue vs) (''['' @ w @ intersperse ts @ w' @ '']'')"
proof -
  obtain us where us: "list_all2 element_text vs us" "w @ intersperse ts = intersperse us"
    using absorb_front [OF assms(1,2), of w] element_text_space [of w "[]"] assms(3) by auto
  obtain xs where xs: "list_all2 element_text vs xs" "intersperse us @ w' = intersperse xs"
    using absorb_back [OF us(1) assms(2), of w'] element_text_space [of "[]" w'] assms(4) by auto
  from text_array' [OF assms(2) xs(1)] show ?thesis using us(2) xs(2) by (metis append.assoc)
qed

lemma object_text_space:
  assumes "list_all2 member_text ms ts" "ms \<noteq> []" "obj_sorted ms" "spaces w"
  shows "json_text (objectValue ms) (''{'' @ intersperse ts @ w @ ''}'')"
proof -
  obtain us where us: "list_all2 member_text ms us" "intersperse ts @ w = intersperse us"
    using absorb_back [OF assms(1,2), of w] member_text_space [of "[]" w] assms(4) by auto
  from text_object' [OF assms(2,3) us(1)] show ?thesis using us(2) by (metis append.assoc)
qed

section \<open>What is written\<close>

text \<open>
  The values: stored well, with the integer types the reader would choose, no doubles, no null string
  pointers, and names that the class writes in full.
\<close>

fun writable :: "(bytes \<Rightarrow> bool) \<Rightarrow> jvalue \<Rightarrow> bool" where
  "writable name_ok (VInt i) = (- (2 ^ 63) \<le> i \<and> i \<le> int maxInt)"
| "writable name_ok (VUInt n) = (maxInt < n \<and> n \<le> maxLargestUInt)"
| "writable name_ok (VReal d) = False"
| "writable name_ok (VString s) = (s \<noteq> None)"
| "writable name_ok (VArray m) = (m_sorted m \<and> list_all (\<lambda>(k, x). index_key k \<and> writable name_ok x) m)"
| "writable name_ok (VObject m) = (m_sorted m \<and> length m < 2 ^ 32
     \<and> list_all (\<lambda>(k, x). string_key k \<and> name_ok (CZString_data k) \<and> writable name_ok x) m)"
| "writable name_ok _ = True"

text \<open>
  A state in which text can be written, and that a step has written a text. The flag is for the classes
  whose arrays always have several lines: their list of children stays empty.
\<close>

definition layout :: "bool \<Rightarrow> styled \<Rightarrow> bool" where
  "layout keep st \<longleftrightarrow> spaces (indentString st) \<and> \<not> addChildValues st \<and> (keep \<longrightarrow> childValues st = [])"

definition wrote :: "bool \<Rightarrow> string \<Rightarrow> styled \<Rightarrow> styled \<Rightarrow> bool" where
  "wrote keep t st st' \<longleftrightarrow> document st' = document st @ t \<and> indentString st' = indentString st
     \<and> \<not> addChildValues st' \<and> (keep \<longrightarrow> childValues st' = childValues st)"

lemma wrote_trans: "wrote k t st st' \<Longrightarrow> wrote k u st' st'' \<Longrightarrow> wrote k (t @ u) st st''"
  by (simp add: wrote_def)

lemma wrote_layout: "wrote k t st st' \<Longrightarrow> layout k st \<Longrightarrow> layout k st'"
  by (simp add: wrote_def layout_def)

lemma wrote_put: "layout k st \<Longrightarrow> wrote k s st (put s st)" "childValues (put s st) = childValues st"
  by (simp_all add: wrote_def layout_def put_def)

lemma json_of_array: "json_of (VArray m) = arrayValue (List.map json_of (elements m))"
  by (auto simp: Let_def elements_def map_of_json split: option.split)

lemma writable_elements: "writable P (VArray m) \<Longrightarrow> x \<in> set (elements m) \<Longrightarrow> writable P x"
  by (auto simp: elements_def list_all_iff split: option.splits dest!: map_of_SomeD)

lemma json_of_members: "json_of (VObject m) = objectValue (List.map (\<lambda>(k, x). (CZString_data k, json_of x)) m)"
  by simp

lemma members_sorted:
  "m_sorted m \<Longrightarrow> list_all (\<lambda>(k, x). string_key k) m \<Longrightarrow> obj_sorted (List.map (\<lambda>(k, x). (CZString_data k, f x)) m)"
proof (induction m)
  case (Cons e m)
  obtain k x where e: "e = (k, x)" by (cases e)
  with Cons.prems obtain s where s: "k = CZ_String s" by (cases k) auto
  have "key_less s (CZString_data k')" if "(k', y) \<in> set m" for k' y
    using that Cons.prems by (cases k') (auto simp: e s m_sorted_def list_all_iff)
  with Cons show ?case by (fastforce simp: e s m_sorted_def)
qed simp

locale styled_writer =
  fixes wc :: writer_class and name_ok :: "bytes \<Rightarrow> bool"
  assumes with_indent: "layout (all_multiline wc) st \<Longrightarrow> \<exists>w. spaces w \<and> wrote (all_multiline wc) (w @ s) st (with_indent wc s st)
      \<and> childValues (with_indent wc s st) = childValues st"
    and before_element: "layout (all_multiline wc) st \<Longrightarrow> \<exists>w. spaces w \<and> wrote (all_multiline wc) w st (before_element wc st)"
    and after_element: "layout (all_multiline wc) st \<Longrightarrow> wrote (all_multiline wc) [] st (after_element wc st)"
    and indentation: "spaces (indentation wc)"
    and bracket_space: "spaces (bracket_space wc)"
    and colon: "\<exists>w w'. colonSymbol wc = w @ '':'' @ w' \<and> spaces w \<and> spaces w'"
    and null: "nullSymbol wc = ''null''"
    and quote: "name_ok k \<Longrightarrow> quote_name wc k = valueToQuotedStringN k"
begin

lemma indent_layout: "layout (all_multiline wc) st \<Longrightarrow> layout (all_multiline wc) (indent wc st)"
  using indentation by (simp add: layout_def indent_def)

lemma unindent:
  assumes "wrote (all_multiline wc) t st st1" "wrote (all_multiline wc) u (indent wc st1) st2" "layout (all_multiline wc) st"
  shows "wrote (all_multiline wc) (t @ u) st (unindent wc st2)"
  using assms by (simp add: wrote_def layout_def indent_def unindent_def)

text \<open>A value that is pushed as one piece: everything but an array or object with entries.\<close>

lemma push_leaf:
  assumes "writable name_ok v" "\<not> ((Value_isArray v \<or> Value_isObject v) \<and> Value_size v > 0)"
  shows "\<exists>u. json_text (json_of v) u \<and> styled_value wc v st = pushValue u st"
proof (cases v)
  case (VArray m)
  with assms(2) have e: "elements m = []"
    by (simp add: Value_isArray_def Value_size_def elements_def)
  then show ?thesis using json_of_array [of m] text_empty_array [of "[]"]
    by (simp add: VArray styled_value.simps writeArrayValue_def) blast
next
  case (VObject m)
  with assms have "m = []" by (simp add: Value_isArray_def Value_isObject_def Value_size_def)
  then show ?thesis using text_empty_object [of "[]"] by (simp add: VObject styled_value.simps) blast
qed (use assms in \<open>auto simp: styled_value.simps getString_def json_text_simps null\<close>)

lemma push_leaves:
  assumes "\<And>v. v \<in> set vs \<Longrightarrow> writable name_ok v \<and> \<not> ((Value_isArray v \<or> Value_isObject v) \<and> Value_size v > 0)"
    and "addChildValues st"
  shows "\<exists>us. list_all2 (\<lambda>v u. json_text (json_of v) u) vs us
     \<and> fold (styled_value wc) vs st = st\<lparr>childValues := childValues st @ us\<rparr>"
  using assms
proof (induction vs arbitrary: st)
  case (Cons v vs)
  obtain u where u: "json_text (json_of v) u" "styled_value wc v st = st\<lparr>childValues := childValues st @ [u]\<rparr>"
    using push_leaf [of v st] Cons.prems by (auto simp: pushValue_def)
  obtain us where us: "list_all2 (\<lambda>v u. json_text (json_of v) u) vs us"
      "fold (styled_value wc) vs (st\<lparr>childValues := childValues st @ [u]\<rparr>) = st\<lparr>childValues := (childValues st @ [u]) @ us\<rparr>"
    using Cons.IH [of "st\<lparr>childValues := childValues st @ [u]\<rparr>"] Cons.prems by auto
  with u show ?case by (intro exI [of _ "u # us"]) simp
qed simp

text \<open>The loops, for elements whose writing is text.\<close>

definition writes_text :: "jvalue \<Rightarrow> bool" where
  "writes_text v \<longleftrightarrow> (\<forall>st. layout (all_multiline wc) st \<longrightarrow>
     (\<exists>w u. spaces w \<and> json_text (json_of v) u \<and> wrote (all_multiline wc) (w @ u) st (styled_value wc v st)))"

lemma write_elements_text:
  assumes "vs \<noteq> []" "\<And>v. v \<in> set vs \<Longrightarrow> writes_text v" "layout (all_multiline wc) st"
  shows "\<exists>ts. list_all2 element_text (List.map json_of vs) ts
     \<and> wrote (all_multiline wc) (intersperse ts) st (write_elements wc (styled_value wc) False i vs st)"
  using assms
proof (induction vs arbitrary: i st)
  case (Cons v vs)
  let ?b = "before_element wc st"
  let ?a = "after_element wc (styled_value wc v ?b)"
  obtain w where w: "spaces w" "wrote (all_multiline wc) w st ?b" using before_element [OF Cons.prems(3)] by blast
  note lb = wrote_layout [OF w(2) Cons.prems(3)]
  obtain w' u where u: "spaces w'" "json_text (json_of v) u" "wrote (all_multiline wc) (w' @ u) ?b (styled_value wc v ?b)"
    using Cons.prems(2) [of v] lb by (auto simp: writes_text_def)
  have a: "wrote (all_multiline wc) ((w @ w') @ u) st ?a"
    using wrote_trans [OF wrote_trans [OF w(2) u(3)] after_element [OF wrote_layout [OF u(3) lb]]] by simp
  have e: "element_text (json_of v) ((w @ w') @ u)"
    using element_textI [of "w @ w'" "[]" "json_of v" u] w(1) u(1,2) by simp
  show ?case
  proof (cases "vs = []")
    case True
    with a e show ?thesis by (intro exI [of _ "[(w @ w') @ u]"]) simp
  next
    case False
    note la = wrote_layout [OF a Cons.prems(3)]
    obtain ts where ts: "list_all2 element_text (List.map json_of vs) ts"
        "wrote (all_multiline wc) (intersperse ts) (put '','' ?a) (write_elements wc (styled_value wc) False (i + 1) vs (put '','' ?a))"
      using Cons.IH [of "put '','' ?a" "i + 1"] False Cons.prems(2) wrote_layout [OF wrote_put(1) [OF la] la] by auto
    have "ts \<noteq> []" using ts(1) False by auto
    with ts a e wrote_trans [OF wrote_trans [OF a wrote_put(1) [OF la]] ts(2)] False show ?thesis
      by (intro exI [of _ "((w @ w') @ u) # ts"]) (simp add: intersperse_Cons)
  qed
qed simp

lemma write_children_text:
  assumes "vs \<noteq> []" "layout (all_multiline wc) st" "list_all2 (\<lambda>v u. json_text (json_of v) u) vs us"
    and "childValues st = pre @ us" "i = length pre"
  shows "\<exists>ts. list_all2 element_text (List.map json_of vs) ts
     \<and> wrote (all_multiline wc) (intersperse ts) st (write_elements wc (styled_value wc) True i vs st)"
  using assms
proof (induction vs arbitrary: i st us pre)
  case (Cons v vs)
  then obtain u us' where us: "us = u # us'" "json_text (json_of v) u" "list_all2 (\<lambda>v u. json_text (json_of v) u) vs us'"
    by (cases us) auto
  have ch: "childValues st ! i = u" using Cons.prems us by simp
  let ?a = "with_indent wc u st"
  obtain w where w: "spaces w" "wrote (all_multiline wc) (w @ u) st ?a" "childValues ?a = childValues st"
    using with_indent [OF Cons.prems(2)] by blast
  have e: "element_text (json_of v) (w @ u)" using element_textI [of w "[]" "json_of v" u] w(1) us(2) by simp
  show ?case
  proof (cases "vs = []")
    case True
    with w e ch show ?thesis by (intro exI [of _ "[w @ u]"]) simp
  next
    case False
    note la = wrote_layout [OF w(2) Cons.prems(2)]
    have "\<exists>ts. list_all2 element_text (List.map json_of vs) ts
        \<and> wrote (all_multiline wc) (intersperse ts) (put '','' ?a) (write_elements wc (styled_value wc) True (i + 1) vs (put '','' ?a))"
      by (rule Cons.IH [of _ us' "pre @ [u]"])
        (use False us w Cons.prems wrote_layout [OF wrote_put(1) [OF la] la] wrote_put(2) in simp_all)
    then obtain ts where ts: "list_all2 element_text (List.map json_of vs) ts"
        "wrote (all_multiline wc) (intersperse ts) (put '','' ?a) (write_elements wc (styled_value wc) True (i + 1) vs (put '','' ?a))" by blast
    have "ts \<noteq> []" using ts(1) False by auto
    with ts w(2) e ch wrote_trans [OF wrote_trans [OF w(2) wrote_put(1) [OF la]] ts(2)] False show ?thesis
      by (intro exI [of _ "(w @ u) # ts"]) (simp add: intersperse_Cons)
  qed
qed simp

lemma write_on_line_text:
  assumes "vs \<noteq> []" "layout (all_multiline wc) st" "list_all2 (\<lambda>v u. json_text (json_of v) u) vs us"
  shows "\<exists>ts. list_all2 element_text (List.map json_of vs) ts \<and> wrote (all_multiline wc) (intersperse ts) st (write_on_line us st)"
  using assms
proof (induction vs arbitrary: st us)
  case (Cons v vs)
  then obtain u us' where us: "us = u # us'" "json_text (json_of v) u" "list_all2 (\<lambda>v u. json_text (json_of v) u) vs us'"
    by (cases us) auto
  have e: "element_text (json_of v) u" using element_textI [of "[]" "[]" "json_of v" u] us(2) by simp
  note w1 = wrote_put(1) [OF Cons.prems(2), of u]
  show ?case
  proof (cases "vs = []")
    case True
    with us e w1 show ?thesis by (intro exI [of _ "[u]"]) simp
  next
    case False
    let ?a = "put '', '' (put u st)"
    note w2 = wrote_trans [OF w1 wrote_put(1) [OF wrote_layout [OF w1 Cons.prems(2)], of "'', ''"]]
    obtain ts where ts: "list_all2 element_text (List.map json_of vs) ts" "wrote (all_multiline wc) (intersperse ts) ?a (write_on_line us' ?a)"
      using Cons.IH [OF False wrote_layout [OF w2 Cons.prems(2)] us(3)] by blast
    obtain xs where xs: "list_all2 element_text (List.map json_of vs) xs" "'' '' @ intersperse ts = intersperse xs"
      using absorb_front [OF ts(1), of "'' ''"] False element_text_space [of "'' ''" "[]"] by (auto simp: json_space_def)
    have "xs \<noteq> []" "us' \<noteq> []" using xs(1) us(3) False by auto
    moreover have "wrote (all_multiline wc) (u @ '','' @ intersperse xs) st (write_on_line us' ?a)"
      using wrote_trans [OF w2 ts(2)] xs(2) by simp
    ultimately show ?thesis using e xs(1) us(1) by (intro exI [of _ "u # xs"]) (simp add: intersperse_Cons)
  qed
qed simp

lemma isMultineArray_text:
  assumes "\<And>v. v \<in> set vs \<Longrightarrow> writable name_ok v" "\<not> addChildValues st"
  shows "\<exists>b cv. isMultineArray (styled_value wc) vs st = (b, st\<lparr>childValues := cv\<rparr>)
     \<and> (cv = [] \<and> b \<or> list_all2 (\<lambda>v u. json_text (json_of v) u) vs cv)"
proof (cases "(length vs * 3) mod 2 ^ 32 \<ge> rightMargin
      \<or> list_ex (\<lambda>x. (Value_isArray x \<or> Value_isObject x) \<and> Value_size x > 0) vs")
  case True
  then show ?thesis by (auto simp: isMultineArray_def Let_def)
next
  case False
  let ?st = "st\<lparr>childValues := [], addChildValues := True\<rparr>"
  obtain us where us: "list_all2 (\<lambda>v u. json_text (json_of v) u) vs us" "fold (styled_value wc) vs ?st = ?st\<lparr>childValues := us\<rparr>"
    using push_leaves [of vs ?st] assms(1) False by (auto simp: list_ex_iff)
  moreover have "st\<lparr>childValues := us, addChildValues := False\<rparr> = st\<lparr>childValues := us\<rparr>" using assms(2) by (cases st) simp
  ultimately have "snd (isMultineArray (styled_value wc) vs st) = st\<lparr>childValues := us\<rparr>"
    using False us(2) by (simp add: isMultineArray_def Let_def)
  with us(1) show ?thesis
    by (intro exI [of _ "fst (isMultineArray (styled_value wc) vs st)"] exI [of _ us]) (simp add: prod_eq_iff)
qed

lemma set_children: "\<not> k \<Longrightarrow> layout k st \<Longrightarrow> layout k (st\<lparr>childValues := cv\<rparr>)"
  "\<not> k \<Longrightarrow> wrote k t (st\<lparr>childValues := cv\<rparr>) st' \<Longrightarrow> wrote k t st st'"
  by (simp_all add: layout_def wrote_def)

text \<open>An array on several lines, from the bracket on.\<close>

lemma multiline_text:
  assumes "vs \<noteq> []" "layout (all_multiline wc) st" "\<And>v. v \<in> set vs \<Longrightarrow> writes_text v"
    and "childValues st = [] \<or> list_all2 (\<lambda>v u. json_text (json_of v) u) vs (childValues st)"
  shows "\<exists>w u. spaces w \<and> json_text (arrayValue (List.map json_of vs)) u
     \<and> wrote (all_multiline wc) (w @ u) st (with_indent wc '']'' (unindent wc
           (write_elements wc (styled_value wc) (childValues (indent wc (with_indent wc ''['' st)) \<noteq> []) 0 vs
              (indent wc (with_indent wc ''['' st)))))"
proof -
  let ?a = "with_indent wc ''['' st" and ?k = "all_multiline wc"
  obtain w where w: "spaces w" "wrote ?k (w @ ''['') st ?a" "childValues ?a = childValues st"
    using with_indent [OF assms(2)] by blast
  note la = indent_layout [OF wrote_layout [OF w(2) assms(2)]]
  have ch: "childValues (indent wc ?a) = childValues st" using w(3) by (simp add: indent_def)
  let ?b = "write_elements wc (styled_value wc) (childValues st \<noteq> []) 0 vs (indent wc ?a)"
  obtain ts where ts: "list_all2 element_text (List.map json_of vs) ts" "wrote ?k (intersperse ts) (indent wc ?a) ?b"
  proof (cases "childValues st = []")
    case True
    with write_elements_text [OF assms(1,3) la, of 0] that show ?thesis by auto
  next
    case False
    with assms(4) write_children_text [OF assms(1) la, of "childValues st" "[]" 0] ch that show ?thesis by auto
  qed
  note b = unindent [OF w(2) ts(2) assms(2)]
  obtain w' where w': "spaces w'" "wrote ?k (w' @ '']'') (unindent wc ?b) (with_indent wc '']'' (unindent wc ?b))"
    using with_indent [OF wrote_layout [OF b assms(2)]] by blast
  have "json_text (arrayValue (List.map json_of vs)) (''['' @ intersperse ts @ w' @ '']'')"
    using array_text_space [OF ts(1), of "[]" w'] assms(1) w'(1) by simp
  with w(1) wrote_trans [OF b w'(2)] show ?thesis unfolding ch
    by (intro exI [of _ w] exI [of _ "''['' @ intersperse ts @ w' @ '']''"]) simp
qed

lemma write_array_text:
  assumes "\<And>v. v \<in> set vs \<Longrightarrow> writable name_ok v \<and> writes_text v" "layout (all_multiline wc) st"
  shows "\<exists>w u. spaces w \<and> json_text (arrayValue (List.map json_of vs)) u
     \<and> wrote (all_multiline wc) (w @ u) st (writeArrayValue wc (styled_value wc) vs st)"
proof (cases "vs = []")
  case True
  have "pushValue ''[]'' st = put ''[]'' st" using assms(2) by (simp add: layout_def pushValue_def)
  with True wrote_put(1) [OF assms(2), of "''[]''"] text_empty_array [of "[]"] show ?thesis
    by (intro exI [of _ "[]"] exI [of _ "''[]''"]) (simp add: writeArrayValue_def)
next
  case False
  have wt: "\<And>v. v \<in> set vs \<Longrightarrow> writes_text v" using assms(1) by blast
  show ?thesis
  proof (cases "all_multiline wc")
    case True
    then have "childValues st = []" using assms(2) by (simp add: layout_def)
    with multiline_text [OF False assms(2) wt] True False show ?thesis by (simp add: writeArrayValue_def Let_def)
  next
    case no: False
    obtain b cv where m: "isMultineArray (styled_value wc) vs st = (b, st\<lparr>childValues := cv\<rparr>)"
        "cv = [] \<and> b \<or> list_all2 (\<lambda>v u. json_text (json_of v) u) vs cv"
      using isMultineArray_text [of vs st] assms by (auto simp: layout_def)
    let ?st = "st\<lparr>childValues := cv\<rparr>"
    note l = set_children(1) [OF no assms(2), of cv]
    show ?thesis
    proof (cases b)
      case True
      have "\<exists>w u. spaces w \<and> json_text (arrayValue (List.map json_of vs)) u
          \<and> wrote (all_multiline wc) (w @ u) ?st (writeArrayValue wc (styled_value wc) vs st)"
        using multiline_text [OF False l wt] m no False True by (simp add: writeArrayValue_def Let_def)
      then show ?thesis using set_children(2) [OF no] by blast
    next
      case nb: False
      with m have cv: "list_all2 (\<lambda>v u. json_text (json_of v) u) vs cv" by simp
      then have len: "length cv = length vs" by (simp add: list_all2_lengthD)
      let ?a = "put (''['' @ bracket_space wc) ?st"
      note a = wrote_put(1) [OF l, of "''['' @ bracket_space wc"]
      have children: "List.map (\<lambda>i. childValues ?a ! i) [0 ..< length vs] = cv"
        using map_nth [of cv] len by (simp add: wrote_put(2))
      obtain ts where ts: "list_all2 element_text (List.map json_of vs) ts"
          "wrote (all_multiline wc) (intersperse ts) ?a (write_on_line cv ?a)"
        using write_on_line_text [OF False wrote_layout [OF a l] cv] by blast
      note b = wrote_trans [OF a ts(2)]
      note c = wrote_trans [OF b wrote_put(1) [OF wrote_layout [OF b l], of "bracket_space wc @ '']''"]]
      have "json_text (arrayValue (List.map json_of vs)) (''['' @ bracket_space wc @ intersperse ts @ bracket_space wc @ '']'')"
        using array_text_space [OF ts(1)] bracket_space False by simp
      moreover have "writeArrayValue wc (styled_value wc) vs st = put (bracket_space wc @ '']'') (write_on_line cv ?a)"
        using m(1) nb no False children by (simp add: writeArrayValue_def Let_def)
      ultimately show ?thesis using set_children(2) [OF no c]
        by (intro exI [of _ "[]"] exI [of _ "''['' @ bracket_space wc @ intersperse ts @ bracket_space wc @ '']''"]) simp
    qed
  qed
qed

lemma write_members_text:
  assumes "m \<noteq> []" "layout (all_multiline wc) st"
    and "\<And>k x. (k, x) \<in> set m \<Longrightarrow> name_ok (CZString_data k) \<and> writes_text x"
  shows "\<exists>ts. list_all2 member_text (List.map (\<lambda>(k, x). (CZString_data k, json_of x)) m) ts
     \<and> wrote (all_multiline wc) (intersperse ts) st (write_members wc (styled_value wc) m st)"
  using assms
proof (induction m arbitrary: st)
  case (Cons e m)
  obtain k x where e: "e = (k, x)" by (cases e)
  let ?k = "CZString_data k"
  let ?n = "with_indent wc (quote_name wc ?k) st"
  let ?c = "put (colonSymbol wc) ?n"
  let ?a = "styled_value wc x ?c"
  have x: "name_ok ?k" "writes_text x" using Cons.prems(3) [of k x] by (simp_all add: e)
  obtain w where w: "spaces w" "wrote (all_multiline wc) (w @ valueToQuotedStringN ?k) st ?n"
    using with_indent [OF Cons.prems(2), of "quote_name wc ?k"] quote [OF x(1)] by auto
  note c = wrote_trans [OF w(2) wrote_put(1) [OF wrote_layout [OF w(2) Cons.prems(2)], of "colonSymbol wc"]]
  obtain w1 w2 where col: "colonSymbol wc = w1 @ '':'' @ w2" "spaces w1" "spaces w2" using colon by blast
  obtain w3 u where u: "spaces w3" "json_text (json_of x) u" "wrote (all_multiline wc) (w3 @ u) ?c ?a"
    using x(2) wrote_layout [OF c Cons.prems(2)] unfolding writes_text_def by blast
  let ?t = "w @ valueToQuotedStringN ?k @ w1 @ '':'' @ (w2 @ w3) @ u @ []"
  have a: "wrote (all_multiline wc) ?t st ?a" using wrote_trans [OF c u(3)] col(1) by simp
  have t: "member_text (?k, json_of x) ?t" using w(1) col u by (intro member_textI) simp_all
  show ?case
  proof (cases "m = []")
    case True
    with a t show ?thesis by (intro exI [of _ "[?t]"]) (simp add: e)
  next
    case False
    note la = wrote_layout [OF a Cons.prems(2)]
    note p = wrote_put(1) [OF la, of "'',''"]
    have "\<exists>ts. list_all2 member_text (List.map (\<lambda>(k, x). (CZString_data k, json_of x)) m) ts
        \<and> wrote (all_multiline wc) (intersperse ts) (put '','' ?a) (write_members wc (styled_value wc) m (put '','' ?a))"
      by (rule Cons.IH [OF False wrote_layout [OF p la]]) (use Cons.prems(3) in auto)
    then obtain ts where ts: "list_all2 member_text (List.map (\<lambda>(k, x). (CZString_data k, json_of x)) m) ts"
        "wrote (all_multiline wc) (intersperse ts) (put '','' ?a) (write_members wc (styled_value wc) m (put '','' ?a))"
      by blast
    have "ts \<noteq> []" using ts(1) False by auto
    with ts t wrote_trans [OF wrote_trans [OF a p] ts(2)] False show ?thesis
      by (intro exI [of _ "?t # ts"]) (simp add: e intersperse_Cons)
  qed
qed simp

lemma write_object_text:
  assumes "writable name_ok (VObject m)" "\<And>k x. (k, x) \<in> set m \<Longrightarrow> writes_text x"
  shows "writes_text (VObject m)"
  unfolding writes_text_def
proof (intro allI impI)
  fix st assume st: "layout (all_multiline wc) st"
  let ?ms = "List.map (\<lambda>(k, x). (CZString_data k, json_of x)) m"
  show "\<exists>w u. spaces w \<and> json_text (json_of (VObject m)) u
      \<and> wrote (all_multiline wc) (w @ u) st (styled_value wc (VObject m) st)"
  proof (cases "m = []")
    case True
    have "pushValue ''{}'' st = put ''{}'' st" using st by (simp add: layout_def pushValue_def)
    with True wrote_put(1) [OF st, of "''{}''"] text_empty_object [of "[]"] show ?thesis
      by (intro exI [of _ "[]"] exI [of _ "''{}''"]) (simp add: styled_value.simps)
  next
    case False
    let ?a = "with_indent wc ''{'' st"
    obtain w where w: "spaces w" "wrote (all_multiline wc) (w @ ''{'') st ?a" using with_indent [OF st] by blast
    let ?b = "write_members wc (styled_value wc) m (indent wc ?a)"
    have "name_ok (CZString_data k) \<and> writes_text x" if "(k, x) \<in> set m" for k x
      using that assms by (auto simp: list_all_iff)
    from write_members_text [OF False indent_layout [OF wrote_layout [OF w(2) st]] this]
    obtain ts where ts: "list_all2 member_text ?ms ts" "wrote (all_multiline wc) (intersperse ts) (indent wc ?a) ?b"
      by blast
    note b = unindent [OF w(2) ts(2) st]
    obtain w' where w': "spaces w'" "wrote (all_multiline wc) (w' @ ''}'') (unindent wc ?b) (with_indent wc ''}'' (unindent wc ?b))"
      using with_indent [OF wrote_layout [OF b st]] by blast
    have "obj_sorted ?ms" using assms(1) by (intro members_sorted) (auto simp: list_all_iff)
    then have "json_text (objectValue ?ms) (''{'' @ intersperse ts @ w' @ ''}'')"
      using object_text_space [OF ts(1)] False w'(1) by simp
    with w(1) wrote_trans [OF b w'(2)] False show ?thesis unfolding json_of_members
      by (intro exI [of _ w] exI [of _ "''{'' @ intersperse ts @ w' @ ''}''"]) (simp add: styled_value.simps)
  qed
qed

lemma leaf_text:
  assumes "writable name_ok v" "\<not> ((Value_isArray v \<or> Value_isObject v) \<and> Value_size v > 0)"
  shows "writes_text v"
  unfolding writes_text_def
proof (intro allI impI)
  fix st assume st: "layout (all_multiline wc) st"
  obtain u where u: "json_text (json_of v) u" "styled_value wc v st = pushValue u st" using push_leaf [OF assms] by blast
  moreover have "pushValue u st = put u st" using st by (simp add: layout_def pushValue_def)
  ultimately show "\<exists>w u. spaces w \<and> json_text (json_of v) u \<and> wrote (all_multiline wc) (w @ u) st (styled_value wc v st)"
    using wrote_put(1) [OF st, of u] by (intro exI [of _ "[]"] exI [of _ u]) simp
qed

theorem styled_value_text: "writable name_ok v \<Longrightarrow> writes_text v"
proof (induction "size v" arbitrary: v rule: less_induct)
  case less
  show ?case
  proof (cases v)
    case (VArray m)
    have "writable name_ok x \<and> writes_text x" if "x \<in> set (elements m)" for x
      using that less writable_elements elements_size by (metis VArray)
    from write_array_text [OF this] show ?thesis
      by (simp add: writes_text_def VArray styled_value.simps json_of_array del: json_of.simps)
  next
    case (VObject m)
    have "writes_text x" if "(k, x) \<in> set m" for k x
      using that less entry_size [OF that] by (auto simp: VObject list_all_iff)
    with less.prems show ?thesis using write_object_text by (simp add: VObject)
  qed (use less.prems leaf_text [of v] in \<open>simp_all add: Value_isArray_def Value_isObject_def\<close>)
qed

text \<open>A document that begins empty.\<close>

lemma document_text:
  assumes "writable name_ok v"
  shows "\<exists>w u. spaces w \<and> json_text (json_of v) u \<and> document (styled_value wc v new_styled) = w @ u"
proof -
  have "layout (all_multiline wc) new_styled" by (simp add: layout_def new_styled_def)
  with styled_value_text [OF assms] show ?thesis unfolding writes_text_def by (fastforce simp: wrote_def new_styled_def)
qed

lemma document_parses:
  assumes "writable name_ok v" "json_depth (json_of v) \<le> stackLimit_g" "tail_ok t"
  shows "parse_document cd (document (styled_value wc v new_styled) @ t) = Parsed (json_of v) t"
proof -
  obtain w u where "spaces w" "json_text (json_of v) u" "document (styled_value wc v new_styled) = w @ u"
    using document_text [OF assms(1)] by blast
  with parse_text [of "json_of v" u w t cd] assms(2,3) show ?thesis by simp
qed

end

section \<open>The three classes keep the contract\<close>

lemma quoted_c_string: "NUL \<notin> set k \<Longrightarrow> valueToQuotedString k = valueToQuotedStringN k"
  by (auto simp: valueToQuotedString_def valueToQuotedStringN_def c_str_id Let_def list_ex_iff)

lemma wrote_indented [simp]: "wrote k t st (st'\<lparr>indented := b\<rparr>) = wrote k t st st'" "wrote k t (st\<lparr>indented := b\<rparr>) st' = wrote k t st st'"
  by (simp_all add: wrote_def)

lemma space_chars [simp]: "json_space (CHR 0x0A)" "json_space (CHR '' '')" "json_space (CHR 0x09)"
  by (simp_all add: json_space_def)

lemma Styled_indent: "layout k st \<Longrightarrow> \<exists>w. spaces w \<and> Styled_writeIndent st = put w st"
  by (auto simp: Styled_writeIndent_def layout_def intro: exI [of _ "[]"] exI [of _ "indentString st"]
      exI [of _ "CHR 0x0A # indentString st"] simp: put_def)

interpretation styled: styled_writer "StyledWriter cm" "\<lambda>k. NUL \<notin> set k" for cm
proof
  fix st s
  assume st: "layout (all_multiline (StyledWriter cm)) st"
  then obtain w where w: "spaces w" "Styled_writeIndent st = put w st" using Styled_indent by blast
  show "\<exists>w. spaces w \<and> wrote (all_multiline (StyledWriter cm)) (w @ s) st (with_indent (StyledWriter cm) s st)
      \<and> childValues (with_indent (StyledWriter cm) s st) = childValues st"
    using st w by (intro exI [of _ w]) (simp add: StyledWriter_def wrote_def layout_def put_def)
  show "\<exists>w. spaces w \<and> wrote (all_multiline (StyledWriter cm)) w st (before_element (StyledWriter cm) st)"
    using st w by (intro exI [of _ w]) (simp add: StyledWriter_def wrote_def layout_def put_def)
  show "wrote (all_multiline (StyledWriter cm)) [] st (after_element (StyledWriter cm) st)"
    using st by (simp add: StyledWriter_def wrote_def layout_def)
next
  show "\<exists>w w'. colonSymbol (StyledWriter cm) = w @ '':'' @ w' \<and> spaces w \<and> spaces w'"
    by (intro exI [of _ "'' ''"]) (simp add: StyledWriter_def)
qed (simp_all add: StyledWriter_def quoted_c_string numeral_3_eq_3)

text \<open>The two stream writers indent when they have not yet.\<close>

lemma Stream_steps:
  assumes "layout k st" "\<And>st. layout k st \<Longrightarrow> \<exists>w. spaces w \<and> wi st = put w st"
  shows "\<exists>w. spaces w \<and> wrote k (w @ s) st (Stream_writeWithIndent wi s st)
      \<and> childValues (Stream_writeWithIndent wi s st) = childValues st"
    "\<exists>w. spaces w \<and> wrote k w st (Stream_before wi st)"
proof -
  obtain w where w: "spaces w" "wi st = put w st" using assms by blast
  show "\<exists>w. spaces w \<and> wrote k (w @ s) st (Stream_writeWithIndent wi s st)
      \<and> childValues (Stream_writeWithIndent wi s st) = childValues st"
    using assms(1) w by (cases "indented st")
      (auto simp: Stream_writeWithIndent_def wrote_def layout_def put_def intro: exI [of _ "[]"])
  show "\<exists>w. spaces w \<and> wrote k w st (Stream_before wi st)"
    using assms(1) w by (cases "indented st")
      (auto simp: Stream_before_def wrote_def layout_def put_def intro: exI [of _ "[]"])
qed

lemma Stream_indent: "layout k st \<Longrightarrow> \<exists>w. spaces w \<and> Stream_writeIndent st = put w st"
  by (intro exI [of _ "CHR 0x0A # indentString st"]) (simp add: Stream_writeIndent_def layout_def)

lemma Built_indent: "layout k st \<Longrightarrow> \<exists>w. spaces w \<and> Built_writeIndent ind st = put w st"
  by (intro exI [of _ "if ind \<noteq> [] then CHR 0x0A # indentString st else []"])
    (simp add: Built_writeIndent_def layout_def put_def)

lemma stream_writer:
  assumes "spaces ind"
  shows "styled_writer (StyledStreamWriter cm ind) (\<lambda>k. NUL \<notin> set k)"
proof
  fix st s
  assume st: "layout (all_multiline (StyledStreamWriter cm ind)) st"
  note steps = Stream_steps [OF st Stream_indent]
  show "\<exists>w. spaces w \<and> wrote (all_multiline (StyledStreamWriter cm ind)) (w @ s) st (with_indent (StyledStreamWriter cm ind) s st)
      \<and> childValues (with_indent (StyledStreamWriter cm ind) s st) = childValues st"
    using steps(1) by (simp add: StyledStreamWriter_def)
  show "\<exists>w. spaces w \<and> wrote (all_multiline (StyledStreamWriter cm ind)) w st (before_element (StyledStreamWriter cm ind) st)"
    using steps(2) by (simp add: StyledStreamWriter_def)
  show "wrote (all_multiline (StyledStreamWriter cm ind)) [] st (after_element (StyledStreamWriter cm ind) st)"
    using st by (simp add: StyledStreamWriter_def wrote_def layout_def)
next
  show "\<exists>w w'. colonSymbol (StyledStreamWriter cm ind) = w @ '':'' @ w' \<and> spaces w \<and> spaces w'"
    by (intro exI [of _ "'' ''"]) (simp add: StyledStreamWriter_def)
qed (use assms in \<open>simp_all add: StyledStreamWriter_def quoted_c_string\<close>)

lemma built_writer:
  assumes "spaces ind" "\<exists>w w'. colon = w @ '':'' @ w' \<and> spaces w \<and> spaces w'"
  shows "styled_writer (BuiltStyledStreamWriter ind cs colon ''null'' real) (\<lambda>k. True)" (is "styled_writer ?wc _")
proof
  fix st s
  assume st: "layout (all_multiline ?wc) st"
  note steps = Stream_steps [OF st Built_indent]
  show "\<exists>w. spaces w \<and> wrote (all_multiline ?wc) (w @ s) st (with_indent ?wc s st)
      \<and> childValues (with_indent ?wc s st) = childValues st"
    using steps(1) by (simp add: BuiltStyledStreamWriter_def)
  show "\<exists>w. spaces w \<and> wrote (all_multiline ?wc) w st (before_element ?wc st)"
    using steps(2) by (simp add: BuiltStyledStreamWriter_def)
  show "wrote (all_multiline ?wc) [] st (after_element ?wc st)"
    using st by (simp add: BuiltStyledStreamWriter_def wrote_def layout_def)
qed (use assms in \<open>auto simp: BuiltStyledStreamWriter_def\<close>)

interpretation tabbed: styled_writer "StyledStreamWriter cm [CHR 0x09]" "\<lambda>k. NUL \<notin> set k" for cm
  by (rule stream_writer) (simp add: json_space_def)

section \<open>Documents\<close>

text \<open>A text of a clean value does not hold the byte that ends a stream.\<close>

lemma spaces_clean: "spaces w \<Longrightarrow> CHR 0xFF \<notin> set w"
  by (auto simp: list_all_iff json_space_def)

lemma list_all2_right: "list_all2 P vs ts \<Longrightarrow> t \<in> set ts \<Longrightarrow> \<exists>v \<in> set vs. P v t"
  by (induction rule: list_all2_induct) auto

lemma json_text_clean: "json_text v u \<Longrightarrow> json_clean v \<Longrightarrow> CHR 0xFF \<notin> set u"
proof (induction rule: json_text.induct)
  case (text_string s)
  then show ?case using clean_quoted by simp
next
  case (text_array vs ts)
  have "CHR 0xFF \<notin> set t" if t: "t \<in> set ts" for t
  proof -
    obtain v where v: "v \<in> set vs"
      "\<exists>w u w'. t = w @ u @ w' \<and> spaces w \<and> spaces w' \<and> json_text v u \<and> (json_clean v \<longrightarrow> CHR 0xFF \<notin> set u)"
      using list_all2_right [OF text_array.IH t] by blast
    then obtain w u w' where t: "t = w @ u @ w'" "spaces w" "spaces w'" "json_clean v \<longrightarrow> CHR 0xFF \<notin> set u" by blast
    have "json_clean v" using v(1) text_array.prems by (simp add: list_all_iff)
    with t spaces_clean [OF t(2)] spaces_clean [OF t(3)] show ?thesis by simp
  qed
  then show ?case using set_intersperse [of ts] by auto
next
  case (text_object ms ts)
  have "CHR 0xFF \<notin> set t" if t: "t \<in> set ts" for t
  proof -
    obtain m where m: "m \<in> set ms"
      "\<exists>w1 w2 w3 u w4. t = w1 @ valueToQuotedStringN (fst m) @ w2 @ '':'' @ w3 @ u @ w4
        \<and> spaces w1 \<and> spaces w2 \<and> spaces w3 \<and> spaces w4 \<and> json_text (snd m) u \<and> (json_clean (snd m) \<longrightarrow> CHR 0xFF \<notin> set u)"
      using list_all2_right [OF text_object.IH t] by blast
    then obtain w1 w2 w3 u w4 where t: "t = w1 @ valueToQuotedStringN (fst m) @ w2 @ '':'' @ w3 @ u @ w4"
      "spaces w1" "spaces w2" "spaces w3" "spaces w4" "json_clean (snd m) \<longrightarrow> CHR 0xFF \<notin> set u" by blast
    have "json_clean (snd m)" "CHR 0xFF \<notin> set (fst m)" using m(1) text_object.prems by (auto simp: list_all_iff)
    with t clean_quoted [of "fst m"] spaces_clean [OF t(2)] spaces_clean [OF t(3)] spaces_clean [OF t(4)] spaces_clean [OF t(5)]
    show ?thesis by simp
  qed
  then show ?case using set_intersperse [of ts] by auto
qed (auto simp: valueToString_int_def valueToString_uint_def clean_digits json_space_def list_all_iff)

lemma written_document:
  assumes "styled_writer wc name_ok" "writable name_ok v" "json_depth (json_of v) \<le> stackLimit_g" "json_clean (json_of v)"
    and "spaces t"
  shows "parse_stream cd (document (styled_value wc v new_styled) @ t) = Parsed (json_of v) t"
proof -
  let ?d = "document (styled_value wc v new_styled)"
  obtain w u where "spaces w" "json_text (json_of v) u" "?d = w @ u"
    using styled_writer.document_text [OF assms(1,2)] by blast
  then have "CHR 0xFF \<notin> set (?d @ t)" using json_text_clean [OF _ assms(4)] spaces_clean assms(5) by auto
  then have "takeWhile (\<lambda>c. c \<noteq> CHR 0xFF) (?d @ t) = ?d @ t" by (rule clean_takeWhile)
  moreover have "tail_ok t" using assms(5) tail_spaces [of t "[]"] by simp
  ultimately show ?thesis
    using styled_writer.document_parses [OF assms(1-3)] by (simp only: parse_stream_def)
qed

text \<open>The builder makes a writer that keeps the contract unless it drops nulls or indents with other characters.\<close>

lemma newStreamWriter_contract:
  assumes "newStreamWriter cm real settings = Inr wc" "spaces (indentation wc)" "nullSymbol wc = ''null''"
  shows "styled_writer wc (\<lambda>k. True)"
proof -
  obtain ind cs eyc dnp usf pre where
    "wc = BuiltStyledStreamWriter ind cs (if eyc then '': '' else if ind = [] then '':'' else '' : '')
       (if dnp then [] else ''null'') (real usf (min (nat pre) 17))"
    using assms(1) unfolding newStreamWriter_def Let_def rbind_Inr_iff by (elim exE conjE) (simp, metis)
  moreover from this assms have "\<not> dnp" "spaces ind" by (auto simp: BuiltStyledStreamWriter_def split: if_splits)
  moreover have "\<exists>w w'. (if eyc then '': '' else if ind = [] then '':'' else '' : '') = w @ '':'' @ w' \<and> spaces w \<and> spaces w'"
    by (auto intro: exI [of _ "[]"] exI [of _ "'' ''"])
  ultimately show ?thesis using built_writer by simp
qed

lemma default_writer:
  "newStreamWriter cm real StreamWriter_setDefaults
     = Inr (BuiltStyledStreamWriter [CHR 0x09] Style_All '' : '' ''null'' (real False 17))"
  by (simp add: newStreamWriter_def StreamWriter_setDefaults_def Value_member_def Value_find_def Value_asString_def
      Value_asBool_def Value_asUInt_def Value_isUInt_def to_UInt_def to_UInt64_def maxUInt_v_def)

text \<open>A name that goes through a C string is cut at its first zero byte.\<close>

lemma name_cut: "valueToQuotedString k = valueToQuotedStringN (c_str k)" "decodeString (valueToQuotedString k) = Some (c_str k)"
proof -
  have "NUL \<notin> set (c_str k)" by (auto simp: c_str_def dest: set_takeWhileD)
  from quoted_c_string [OF this] show eq: "valueToQuotedString k = valueToQuotedStringN (c_str k)"
    by (simp add: valueToQuotedString_def)
  show "decodeString (valueToQuotedString k) = Some (c_str k)" by (simp add: eq decodeString_quoted)
qed

text \<open>A string whose pointer is null leaves a document that is no JSON.\<close>

lemma null_string_written: "StyledWriter_write cm (VString None) = [CHR 0x0A]"
  by (simp add: StyledWriter_write_def styled_value.simps getString_def pushValue_def put_def new_styled_def)

end
