(* ===== verification/Json_Path.thy ===== *)
theory Json_Path
  imports Json_Store
begin

text \<open>
  \<open>Json::Path\<close> (external/json/jsoncpp.cpp): the parser of paths such as \<open>.servers[2].port\<close>, and the walk
  along a path that reads a value or makes the nodes on the way. The loop of the parser need not end:
  at a zero byte it appends empty names and does not move.
\<close>

section \<open>Paths\<close>

datatype path_argument = kindNone | kindIndex nat | kindKey string

text \<open>\<open>PathArgument(const JSONCPP_STRING&)\<close> copies the name as a C string.\<close>

definition PathArgument_key :: "string \<Rightarrow> path_argument" where
  "PathArgument_key k = kindKey (c_str k)"

definition same_kind :: "path_argument \<Rightarrow> path_argument \<Rightarrow> bool" where
  "same_kind a b = (case (a, b) of
      (kindNone, kindNone) \<Rightarrow> True | (kindIndex i, kindIndex j) \<Rightarrow> True | (kindKey k, kindKey l) \<Rightarrow> True | _ \<Rightarrow> False)"

text \<open>The iterator over the arguments is passed on but never moved: it stays at the first one.\<close>

definition addPathInArg :: "path_argument list \<Rightarrow> path_argument \<Rightarrow> path_argument list \<Rightarrow> path_argument list" where
  "addPathInArg ins kind args = (case ins of
      [] \<Rightarrow> args
    | a # _ \<Rightarrow> if \<not> same_kind a kind then args else args @ [a])"

definition path_index :: "string \<Rightarrow> nat" where
  "path_index s = foldl (\<lambda>i c. (i * 10 + digit_val c) mod 2 ^ 32) 0 (takeWhile is_digit s)"

text \<open>
  One round of the loop on what is left of the path. Inside brackets a percent sign is not skipped: it is
  taken for the closing bracket. The name ends at a bracket, a dot, or - as \<open>strchr\<close> finds the terminator of
  its string - a zero byte.
\<close>

definition path_name_char :: "char \<Rightarrow> bool" where
  "path_name_char c \<longleftrightarrow> c \<notin> {CHR ''['', CHR ''.'', NUL}"

fun path_step :: "path_argument list \<Rightarrow> string \<Rightarrow> path_argument list \<Rightarrow> string \<times> path_argument list" where
  "path_step ins [] args = ([], args)"
| "path_step ins (c # s) args =
     (if c = CHR ''['' then
        (let (s, args) = (if take 1 s = ''%'' then (s, addPathInArg ins (kindIndex 0) args)
                          else (dropWhile is_digit s, args @ [kindIndex (path_index s)]))
         in (drop 1 s, args))
      else if c = CHR ''%'' then (s, addPathInArg ins (kindKey []) args)
      else if c = CHR ''.'' then (s, args)
      else (dropWhile path_name_char (c # s), args @ [PathArgument_key (takeWhile path_name_char (c # s))]))"

partial_function (option) makePath ::
  "path_argument list \<Rightarrow> string \<Rightarrow> path_argument list \<Rightarrow> path_argument list option" where
  "makePath ins s args =
     (if s = [] then Some args else (let (s, args) = path_step ins s args in makePath ins s args))"

section \<open>The walk\<close>

text \<open>
  \<open>resolve\<close>: what is not of the kind that the argument asks for is an error only when the subscript says
  so - null is accepted.
\<close>

fun Path_resolve :: "path_argument list \<Rightarrow> jvalue \<Rightarrow> json_error + jvalue" where
  "Path_resolve [] v = Inr v"
| "Path_resolve (kindIndex i # as) v = rbind (Value_elem i v) (Path_resolve as)"
| "Path_resolve (kindKey k # as) v = rbind (Value_member k v) (Path_resolve as)"
| "Path_resolve (kindNone # as) v = Path_resolve as v"

fun Path_resolve_default :: "path_argument list \<Rightarrow> jvalue \<Rightarrow> jvalue \<Rightarrow> json_error + jvalue" where
  "Path_resolve_default [] d v = Inr v"
| "Path_resolve_default (kindIndex i # as) d v =
     (if \<not> Value_isArray v \<or> \<not> isValidIndex i v then Inr d
      else rbind (Value_elem i v) (Path_resolve_default as d))"
| "Path_resolve_default (kindKey k # as) d v =
     (if \<not> Value_isObject v then Inr d
      else rbind (Value_find k v) (\<lambda>r. case r of None \<Rightarrow> Inr d | Some x \<Rightarrow> Path_resolve_default as d x))"
| "Path_resolve_default (kindNone # as) d v = Path_resolve_default as d v"

text \<open>\<open>make\<close>: the node, and the root with the nodes that were made.\<close>

fun Path_make :: "path_argument list \<Rightarrow> jvalue \<Rightarrow> json_error + jvalue \<times> jvalue" where
  "Path_make [] v = Inr (v, v)"
| "Path_make (kindIndex i # as) v =
     rbind (Value_index i v) (\<lambda>(x, v). rbind (Path_make as x) (\<lambda>(y, x). Inr (y, assign_entry (CZ_Index i) x v)))"
| "Path_make (kindKey k # as) v =
     rbind (Value_resolveReference k v) (\<lambda>(x, v). rbind (Path_make as x) (\<lambda>(y, x). Inr (y, assign_entry (CZ_String k) x v)))"
| "Path_make (kindNone # as) v = Path_make as v"

section \<open>Parsing\<close>

lemma makePath_Nil [simp]: "makePath ins [] args = Some args"
  by (simp add: makePath.simps)

lemma makePath_step: "s \<noteq> [] \<Longrightarrow> path_step ins s args = (s', args') \<Longrightarrow> makePath ins s args = makePath ins s' args'"
  by (subst makePath.simps) simp

lemma path_step_NUL: "path_step ins (NUL # s) args = (NUL # s, args @ [kindKey []])"
  by (simp add: NUL_def path_name_char_def PathArgument_key_def c_str_def)

text \<open>Without a zero byte every round moves on, and the loop ends.\<close>

lemma path_step_length:
  assumes "NUL \<notin> set s" "s \<noteq> []" "path_step ins s args = (s', args')"
  shows "length s' < length s" "set s' \<subseteq> set s"
proof -
  obtain c r where s: "s = c # r" using assms(2) by (cases s) auto
  have d: "length (dropWhile is_digit r) \<le> length r" "set (dropWhile is_digit r) \<subseteq> set r"
    by (simp_all add: length_dropWhile_le set_dropWhileD subsetI)
  have n: "length (dropWhile path_name_char r) \<le> length r" "set (dropWhile path_name_char r) \<subseteq> set r"
    by (simp_all add: length_dropWhile_le set_dropWhileD subsetI)
  have c: "c \<noteq> NUL" using assms(1) s by auto
  show "length s' < length s" "set s' \<subseteq> set s"
    using assms(3) d n c by (auto simp: s path_name_char_def split: if_splits dest: in_set_dropD)
qed

lemma makePath_ends: "NUL \<notin> set s \<Longrightarrow> \<exists>args'. makePath ins s args = Some args'"
proof (induction "length s" arbitrary: s args rule: less_induct)
  case less
  show ?case
  proof (cases "s = []")
    case False
    obtain s' args' where st: "path_step ins s args = (s', args')" by fastforce
    with path_step_length [OF less.prems False st] less makePath_step [OF False st] show ?thesis by (metis subsetD)
  qed simp
qed

text \<open>At a zero byte it does not, wherever the byte is met.\<close>

lemma makePath_NUL:
  assumes "makePath ins s args = Some r"
  shows "\<not> (\<exists>t. s = NUL # t)"
proof (rule makePath.raw_induct [OF _ assms], rule notI)
  fix mp ins s args r
  assume IH: "\<And>ins s args r. mp ins s args = Some r \<Longrightarrow> \<not> (\<exists>t. s = NUL # t)"
    and step: "(if s = [] then Some args else let (s, args) = path_step ins s args in mp ins s args) = Some r"
    and s: "\<exists>t. s = NUL # t"
  from s obtain t where t: "s = NUL # t" by blast
  with step have "mp ins (NUL # t) (args @ [kindKey []]) = Some r" by (simp add: path_step_NUL del: path_step.simps)
  from IH [OF this] show False by blast
qed

lemma makePath_diverges:
  assumes "path_step ins s args = (NUL # t, args') \<or> s = NUL # t" "s \<noteq> []"
  shows "makePath ins s args = None"
proof -
  have "makePath ins (NUL # u) as = None" for u as using makePath_NUL by (metis option.exhaust)
  with assms makePath_step show ?thesis by metis
qed

text \<open>The path of a list of arguments parses to them.\<close>

fun path_text :: "path_argument \<Rightarrow> string" where
  "path_text kindNone = []"
| "path_text (kindIndex i) = ''['' @ dec_text i @ '']''"
| "path_text (kindKey k) = CHR ''.'' # k"

fun plain_argument :: "path_argument \<Rightarrow> bool" where
  "plain_argument kindNone = False"
| "plain_argument (kindIndex i) = (i < 2 ^ 32)"
| "plain_argument (kindKey k) = (k \<noteq> [] \<and> hd k \<noteq> CHR ''%'' \<and> list_all path_name_char k)"

lemma foldl_index:
  "foldl (\<lambda>v c. 10 * v + digit_val c) v ds < 2 ^ 32 \<Longrightarrow>
   foldl (\<lambda>i c. (i * 10 + digit_val c) mod 2 ^ 32) v ds = foldl (\<lambda>v c. 10 * v + digit_val c) v ds"
proof (induction ds arbitrary: v)
  case (Cons d ds)
  have mono: "v \<le> foldl (\<lambda>v c. 10 * v + digit_val c) v ds" for v :: nat
  proof (induction ds arbitrary: v)
    case (Cons e es)
    from Cons.IH [of "10 * v + digit_val e"] show ?case by simp
  qed simp
  from mono [of "10 * v + digit_val d"] Cons.prems have "10 * v + digit_val d < 2 ^ 32" by simp
  with Cons show ?case by (simp add: mult.commute)
qed simp

lemma path_index_text: "i < 2 ^ 32 \<Longrightarrow> path_index (dec_text i @ CHR '']'' # s) = i"
proof -
  assume i: "i < 2 ^ 32"
  have "takeWhile is_digit (dec_text i @ CHR '']'' # s) = dec_text i"
    using dec_text_digits [of i] by (simp add: list_all_iff takeWhile_append is_digit_def)
  moreover have "foldl (\<lambda>v c. 10 * v + digit_val c) 0 (dec_text i) = i"
    using dec_val_text [of i] by (simp add: dec_val_def)
  ultimately show ?thesis using foldl_index [of 0 "dec_text i"] i by (simp add: path_index_def)
qed

lemma path_step_index:
  assumes "i < 2 ^ 32"
  shows "path_step ins (path_text (kindIndex i) @ s) args = (s, args @ [kindIndex i])"
proof -
  obtain c t where d: "dec_text i = c # t" by (cases "dec_text i") auto
  have digits: "list_all is_digit (dec_text i)" by (rule dec_text_digits)
  then have "c \<noteq> CHR ''%''" by (auto simp: d is_digit_def)
  moreover have "dropWhile is_digit (dec_text i @ CHR '']'' # s) = CHR '']'' # s"
    using digits by (simp add: list_all_iff dropWhile_append is_digit_def)
  ultimately show ?thesis using path_index_text [OF assms, of s] by (simp add: d)
qed

text \<open>What follows a name in the path of a list: its end, a bracket or a dot.\<close>

lemma path_step_key:
  assumes "plain_argument (kindKey k)" "s = [] \<or> \<not> path_name_char (hd s)"
  shows "path_step ins (k @ s) args = (s, args @ [kindKey k])"
proof -
  obtain c t where k: "k = c # t" using assms(1) by (cases k) auto
  have "takeWhile path_name_char (k @ s) = k" "dropWhile path_name_char (k @ s) = s"
    using assms by (cases s; simp add: list_all_iff takeWhile_append dropWhile_append)+
  moreover have "c_str k = k" using assms(1) by (intro c_str_id) (auto simp: list_all_iff path_name_char_def)
  ultimately show ?thesis using assms(1) by (auto simp: k path_name_char_def PathArgument_key_def)
qed

lemma makePath_run:
  assumes "list_all plain_argument as" "t = [] \<or> \<not> path_name_char (hd t)"
  shows "makePath ins (concat (List.map path_text as) @ t) args = makePath ins t (args @ as)"
  using assms(1)
proof (induction as arbitrary: args)
  case (Cons a as)
  let ?s = "concat (List.map path_text as) @ t"
  have head: "?s = [] \<or> \<not> path_name_char (hd ?s)"
    using Cons.prems assms(2) by (cases as; cases "hd as") (auto simp: path_name_char_def)
  show ?case
  proof (cases a)
    case (kindIndex i)
    with Cons.prems have "path_step ins (path_text a @ ?s) args = (?s, args @ [a])" using path_step_index by simp
    moreover have "path_text a @ ?s \<noteq> []" by (simp add: kindIndex)
    ultimately show ?thesis using Cons makePath_step by simp
  next
    case (kindKey k)
    have "makePath ins (path_text a @ ?s) args = makePath ins (k @ ?s) args"
      by (rule makePath_step) (simp_all add: kindKey)
    also have "\<dots> = makePath ins ?s (args @ [a])"
      by (rule makePath_step) (use Cons.prems path_step_key [of k ?s] head kindKey in auto)
    finally show ?thesis using Cons by simp
  qed (use Cons.prems in simp)
qed simp

lemma makePath_text: "list_all plain_argument as \<Longrightarrow> makePath ins (concat (List.map path_text as)) args = Some (args @ as)"
  using makePath_run [of as "[]"] by simp

lemma makePath_text_NUL: "list_all plain_argument as \<Longrightarrow> makePath ins (concat (List.map path_text as) @ NUL # s) args = None"
  using makePath_run [of as "NUL # s" ins args] makePath_NUL [of ins "NUL # s" "args @ as"]
  by (cases "makePath ins (NUL # s) (args @ as)") (simp_all add: path_name_char_def)

section \<open>What is made is found\<close>

lemma assigned_entry:
  assumes "Value_index i v = Inr (x, v')"
  shows "Value_elem i (assign_entry (CZ_Index i) y v') = Inr y"
    "Value_isArray (assign_entry (CZ_Index i) y v')"
  using assms by (auto simp: Value_index_def Let_def assign_entry_def Value_elem_def Value_isArray_def map_of_put
      split: jvalue.splits prod.splits)

lemma assigned_member:
  assumes "Value_resolveReference k v = Inr (x, v')"
  shows "Value_find k (assign_entry (CZ_String k) y v') = Inr (Some y)"
    "Value_isObject (assign_entry (CZ_String k) y v')"
  using assms by (auto simp: Value_resolveReference_def Let_def assign_entry_def Value_find_def Value_isObject_def map_of_put
      split: jvalue.splits prod.splits)

lemma made_is_resolved: "Path_make as v = Inr (y, v') \<Longrightarrow> Path_resolve as v' = Inr y"
proof (induction as v arbitrary: y v' rule: Path_make.induct)
  case (2 i as v)
  then obtain x u x' where "Value_index i v = Inr (x, u)" "Path_make as x = Inr (y, x')" "v' = assign_entry (CZ_Index i) x' u"
    by auto
  with 2(1) assigned_entry(1) show ?case by simp
next
  case (3 k as v)
  then obtain x u x' where "Value_resolveReference k v = Inr (x, u)" "Path_make as x = Inr (y, x')"
    "v' = assign_entry (CZ_String k) x' u" by auto
  with 3(1) assigned_member(1) show ?case by (simp add: Value_member_def)
qed simp_all

text \<open>Made nodes keep the invariant, and on values that do the default is not needed.\<close>

lemma Path_make_ok:
  assumes "value_ok v" "\<And>i. kindIndex i \<in> set as \<Longrightarrow> i < 2 ^ 32 - 1" "Path_make as v = Inr (y, v')"
  shows "value_ok y \<and> value_ok v'"
  using assms
proof (induction as v arbitrary: y v' rule: Path_make.induct)
  case (2 i as v)
  then obtain x u x' where m: "Value_index i v = Inr (x, u)" "Path_make as x = Inr (y, x')" "v' = assign_entry (CZ_Index i) x' u"
    by auto
  have i: "i < 2 ^ 32 - 1" using "2.prems"(2) by simp
  note ok = Value_index_ok [OF "2.prems"(1) i m(1)]
  have "value_ok y \<and> value_ok x'" using 2(1) [OF m(1) refl ok(1) _ m(2)] "2.prems"(2) by simp
  then show ?case using assign_index_ok [OF "2.prems"(1) i _ m(1)] m(3) by simp
next
  case (3 k as v)
  then obtain x u x' where m: "Value_resolveReference k v = Inr (x, u)" "Path_make as x = Inr (y, x')"
    "v' = assign_entry (CZ_String k) x' u" by auto
  note ok = Value_resolveReference_ok [OF "3.prems"(1) m(1)]
  have "value_ok y \<and> value_ok x'" using 3(1) [OF m(1) refl ok(1) _ m(2)] "3.prems"(2) by simp
  then show ?case using assign_member_ok [OF "3.prems"(1) _ m(1)] m(3) by simp
qed simp_all

lemma elem_valid: "value_ok (VArray m) \<Longrightarrow> map_of m (CZ_Index i) = Some x \<Longrightarrow> isValidIndex i (VArray m)"
  using array_size_bound(1) [of m i x] map_of_SomeD [of m "CZ_Index i" x]
  by (simp add: value_ok_entries isValidIndex_def Value_size_def del: value_ok.simps)

lemma made_needs_no_default:
  assumes "value_ok v" "\<And>i. kindIndex i \<in> set as \<Longrightarrow> i < 2 ^ 32 - 1" "Path_make as v = Inr (y, v')"
  shows "Path_resolve_default as d v' = Inr y"
  using assms
proof (induction as v arbitrary: y v' rule: Path_make.induct)
  case (2 i as v)
  then obtain x u x' where m: "Value_index i v = Inr (x, u)" "Path_make as x = Inr (y, x')" "v' = assign_entry (CZ_Index i) x' u"
    by auto
  have i: "i < 2 ^ 32 - 1" using "2.prems"(2) by simp
  note ok = Value_index_ok [OF "2.prems"(1) i m(1)]
  have IH: "Path_resolve_default as d x' = Inr y" using 2(1) [OF m(1) refl ok(1) _ m(2)] "2.prems"(2) by simp
  have ok': "value_ok v'" using Path_make_ok [of v "kindIndex i # as"] "2.prems" by blast
  obtain mp where mp: "v' = VArray mp" "map_of mp (CZ_Index i) = Some x'"
    using m(1,3) by (auto simp: Value_index_def Let_def assign_entry_def map_of_put split: jvalue.splits prod.splits)
  with ok' elem_valid IH show ?case by (simp add: Value_isArray_def Value_elem_def)
next
  case (3 k as v)
  then obtain x u x' where m: "Value_resolveReference k v = Inr (x, u)" "Path_make as x = Inr (y, x')"
    "v' = assign_entry (CZ_String k) x' u" by auto
  note ok = Value_resolveReference_ok [OF "3.prems"(1) m(1)]
  have "Path_resolve_default as d x' = Inr y" using 3(1) [OF m(1) refl ok(1) _ m(2)] "3.prems"(2) by simp
  with m assigned_member [OF m(1)] show ?case by simp
qed simp_all

end
