(* ===== verification/Json_Our_Reader.thy ===== *)
theory Json_Our_Reader
  imports Json_Parsed
begin

text \<open>
  \<open>Json::OurReader\<close> and its builder (external/json/jsoncpp.cpp), the second reader of the library: a copy of
  \<open>Json::Reader\<close> whose behaviour is chosen by settings. The model has the same shape as Json_Reader: the read
  position is the rest of the document, comments are skipped and not kept (\<open>collectComments\<close> false), and the
  lists of errors and the offsets are left out. The text ends in the zero byte of a \<open>std::string\<close>, at which the
  code looks when it looks one character ahead.
\<close>

section \<open>Settings and tokens\<close>

record our_features =
  allowComments :: bool
  strictRoot :: bool
  allowDroppedNullPlaceholders :: bool
  allowNumericKeys :: bool
  allowSingleQuotes :: bool
  failIfExtra :: bool
  rejectDupKeys :: bool
  allowSpecialFloats :: bool
  stackLimit :: int

text \<open>A value-initialised object: every flag is false, and no nesting is allowed.\<close>

definition OurFeatures_all :: our_features where
  "OurFeatures_all = \<lparr>allowComments = False, strictRoot = False, allowDroppedNullPlaceholders = False,
     allowNumericKeys = False, allowSingleQuotes = False, failIfExtra = False, rejectDupKeys = False,
     allowSpecialFloats = False, stackLimit = 0\<rparr>"

text \<open>The token types of the first reader, and three more.\<close>

datatype our_token = Tok token_type | tokenNaN | tokenPosInf | tokenNegInf

fun our_skipSpaces :: "string \<Rightarrow> string" where
  "our_skipSpaces [] = []"
| "our_skipSpaces (c # s) =
     (if c = CHR '' '' \<or> c = CHR 0x09 \<or> c = CHR 0x0D \<or> c = CHR 0x0A then our_skipSpaces s else c # s)"

definition our_getNextChar :: "string \<Rightarrow> char \<times> string" where
  "our_getNextChar s = (if s = [] then (NUL, s) else (hd s, tl s))"

definition our_match :: "string \<Rightarrow> string \<Rightarrow> bool \<times> string" where
  "our_match pattern s =
     (if length s < length pattern then (False, s)
      else if list_ex (\<lambda>i. s ! i \<noteq> pattern ! i) (rev [0 ..< length pattern]) then (False, s)
      else (True, drop (length pattern) s))"

fun our_readCStyleComment :: "string \<Rightarrow> bool \<times> string" where
  "our_readCStyleComment [] = (False, [])"
| "our_readCStyleComment (c # s) =
     (if c = CHR ''*'' \<and> take 1 s = ''/'' then (True, tl s) else our_readCStyleComment s)"

fun our_readCppStyleComment :: "string \<Rightarrow> bool \<times> string" where
  "our_readCppStyleComment [] = (True, [])"
| "our_readCppStyleComment (c # s) =
     (if c = CHR 0x0A then (True, s)
      else if c = CHR 0x0D then (True, if s \<noteq> [] \<and> hd s = CHR 0x0A then tl s else s)
      else our_readCppStyleComment s)"

definition our_readComment :: "string \<Rightarrow> bool \<times> string" where
  "our_readComment s = (let (c, r) = our_getNextChar s in
     if c = CHR ''*'' then our_readCStyleComment r
     else if c = CHR ''/'' then our_readCppStyleComment r
     else (False, r))"

text \<open>The three parts of a number behind its first character; false is the start of an infinity.\<close>

definition number_fraction :: "string \<Rightarrow> string" where
  "number_fraction s = (case s of [] \<Rightarrow> [] | c # r \<Rightarrow> if c = CHR ''.'' then dropWhile is_digit r else s)"

definition number_exponent :: "string \<Rightarrow> string" where
  "number_exponent s = (case s of [] \<Rightarrow> [] | c # r \<Rightarrow>
     if c = CHR ''e'' \<or> c = CHR ''E''
     then dropWhile is_digit (if take 1 r = ''+'' \<or> take 1 r = ''-'' then tl r else r) else s)"

definition our_readNumber :: "bool \<Rightarrow> string \<Rightarrow> bool \<times> string" where
  "our_readNumber checkInf s =
     (if checkInf \<and> take 1 s = ''I'' then (False, tl s)
      else (True, number_exponent (number_fraction (dropWhile is_digit s))))"

text \<open>A string up to its closing quote, with either quote.\<close>

fun our_readString :: "string \<Rightarrow> bool \<times> string" where
  "our_readString [] = (False, [])"
| "our_readString (c # s) =
     (if c = CHR 0x5C then (case s of [] \<Rightarrow> (False, []) | _ # r \<Rightarrow> our_readString r)
      else if c = CHR 0x22 then (True, s)
      else our_readString s)"

fun readStringSingleQuote :: "string \<Rightarrow> bool \<times> string" where
  "readStringSingleQuote [] = (False, [])"
| "readStringSingleQuote (c # s) =
     (if c = CHR 0x5C then (case s of [] \<Rightarrow> (False, []) | _ # r \<Rightarrow> readStringSingleQuote r)
      else if c = CHR 0x27 then (True, s)
      else readStringSingleQuote s)"

text \<open>An apostrophe that is no quote falls through to the case of a comment.\<close>

definition our_read_by_char :: "our_features \<Rightarrow> char \<Rightarrow> string \<Rightarrow> (our_token \<times> bool) \<times> string" where
  "our_read_by_char f c s =
     (if c = CHR ''{'' then ((Tok tokenObjectBegin, True), s)
      else if c = CHR ''}'' then ((Tok tokenObjectEnd, True), s)
      else if c = CHR ''['' then ((Tok tokenArrayBegin, True), s)
      else if c = CHR '']'' then ((Tok tokenArrayEnd, True), s)
      else if c = CHR 0x22 then (let (ok, r) = our_readString s in ((Tok tokenString, ok), r))
      else if c = CHR 0x27 \<and> allowSingleQuotes f
        then (let (ok, r) = readStringSingleQuote s in ((Tok tokenString, ok), r))
      else if c = CHR 0x27 \<or> c = CHR ''/'' then (let (ok, r) = our_readComment s in ((Tok tokenComment, ok), r))
      else if is_digit c then (let (_, r) = our_readNumber False s in ((Tok tokenNumber, True), r))
      else if c = CHR ''-'' then
        (let (number, r) = our_readNumber True s in
         if number then ((Tok tokenNumber, True), r)
         else if allowSpecialFloats f then (let (ok, r) = our_match ''nfinity'' r in ((tokenNegInf, ok), r))
         else ((tokenNegInf, False), r))
      else if c = CHR ''t'' then (let (ok, r) = our_match ''rue'' s in ((Tok tokenTrue, ok), r))
      else if c = CHR ''f'' then (let (ok, r) = our_match ''alse'' s in ((Tok tokenFalse, ok), r))
      else if c = CHR ''n'' then (let (ok, r) = our_match ''ull'' s in ((Tok tokenNull, ok), r))
      else if c = CHR ''N'' \<and> allowSpecialFloats f then (let (ok, r) = our_match ''aN'' s in ((tokenNaN, ok), r))
      else if c = CHR ''I'' \<and> allowSpecialFloats f then (let (ok, r) = our_match ''nfinity'' s in ((tokenPosInf, ok), r))
      else if c = CHR '','' then ((Tok tokenArraySeparator, True), s)
      else if c = CHR '':'' then ((Tok tokenMemberSeparator, True), s)
      else if c = NUL then ((Tok tokenEndOfStream, True), s)
      else ((Tok tokenError, False), s))"

definition our_readToken :: "our_features \<Rightarrow> string \<Rightarrow> our_token \<times> string \<times> string" where
  "our_readToken f s =
     (let start = our_skipSpaces s;
          (c, r) = our_getNextChar start;
          ((ty, ok), r) = our_read_by_char f c r
      in (if ok then ty else Tok tokenError, take (length start - length r) start, r))"

section \<open>The copied functions are those of the first reader\<close>

lemma our_skipSpaces_eq: "our_skipSpaces s = skipSpaces s"
  by (induction s) (simp_all add: skipSpaces_def json_space_def)

lemma our_getNextChar_eq: "our_getNextChar s = getNextChar s"
  by (cases s) (simp_all add: our_getNextChar_def)

lemma our_match_eq: "our_match pattern s = match_chars pattern s"
proof (cases "length s < length pattern")
  case True
  then have "take (length pattern) s \<noteq> pattern" by (metis length_take min.strict_order_iff)
  with True show ?thesis by (simp add: our_match_def match_chars_def)
next
  case False
  then have "(\<forall>i < length pattern. s ! i = pattern ! i) \<longleftrightarrow> take (length pattern) s = pattern"
    by (auto simp: list_eq_iff_nth_eq)
  with False show ?thesis by (auto simp: our_match_def match_chars_def list_ex_iff)
qed

lemma our_readCStyleComment_eq: "our_readCStyleComment s = readCStyleComment s"
proof (induction s rule: our_readCStyleComment.induct)
  case (2 c s)
  then show ?case by (cases s) (auto simp: readCStyleComment_def)
qed (simp add: readCStyleComment_def NUL_def)

lemma our_readCppStyleComment_eq: "our_readCppStyleComment s = (True, readCppStyleComment s)"
proof (induction s rule: our_readCppStyleComment.induct)
  case (2 c s)
  then show ?case by (cases s) auto
qed simp

lemma our_readComment_eq: "our_readComment s = readComment s"
  by (simp add: our_readComment_def readComment_def our_getNextChar_eq our_readCStyleComment_eq
      our_readCppStyleComment_eq split: prod.split)

lemma our_readNumber_eq: "our_readNumber i s = (if i \<and> take 1 s = ''I'' then (False, tl s) else (True, readNumber s))"
proof -
  have e: "number_exponent t = (case t of
           c # r \<Rightarrow> if c = CHR ''e'' \<or> c = CHR ''E''
                    then dropWhile is_digit (case r of
                           d # q \<Rightarrow> if d = CHR ''+'' \<or> d = CHR ''-'' then q else r | [] \<Rightarrow> r)
                    else t
         | [] \<Rightarrow> t)" for t
    by (auto simp: number_exponent_def split: list.split)
  have "number_fraction t = (case t of c # r \<Rightarrow> if c = CHR ''.'' then dropWhile is_digit r else t | [] \<Rightarrow> t)" for t
    by (simp add: number_fraction_def split: list.split)
  then show ?thesis by (simp add: our_readNumber_def readNumber_def e Let_def)
qed

lemma our_readString_eq: "our_readString s = readString s"
  by (induction s rule: our_readString.induct) (simp_all split: list.split)

lemmas our_copies = our_skipSpaces_eq our_getNextChar_eq our_match_eq our_readComment_eq our_readNumber_eq our_readString_eq

section \<open>Numbers and strings\<close>

text \<open>
  The digit loop on 64-bit words. The largest magnitude of a negative number is the negation of the
  smallest one, which wraps around to itself.
\<close>

fun our_digits :: "64 word \<Rightarrow> 64 word \<Rightarrow> string \<Rightarrow> 64 word option" where
  "our_digits maxIntegerValue v [] = Some v"
| "our_digits maxIntegerValue v (c # s) =
     (if \<not> is_digit c then None else
      let digit = of_nat (digit_val c); threshold = maxIntegerValue div 10
       in if v \<ge> threshold \<and> (v > threshold \<or> s \<noteq> [] \<or> digit > maxIntegerValue mod 10) then None
          else our_digits maxIntegerValue (v * 10 + digit) s)"

definition minLargestInt :: "64 word" where "minLargestInt = word_of_int (- (2 ^ 63))"

text \<open>
  \<open>decodeDouble\<close> copies the token into a buffer of 33 bytes or into a string, and ends it with a zero byte;
  \<open>parse_double\<close> stands for \<open>sscanf\<close> here.
\<close>

definition our_decodeDouble :: "c_double \<Rightarrow> string \<Rightarrow> json option" where
  "our_decodeDouble cd tok =
     (let buffer = (if length tok \<le> 32 then take 33 (tok @ [NUL]) else tok)
      in map_option realValue (parse_double cd (c_str buffer)))"

definition our_decodeNumber :: "c_double \<Rightarrow> string \<Rightarrow> json option" where
  "our_decodeNumber cd tok =
     (let isNegative = (take 1 tok = ''-'');
          maxIntegerValue = (if isNegative then - minLargestInt else - 1)
      in case our_digits maxIntegerValue 0 (if isNegative then drop 1 tok else tok) of
           None \<Rightarrow> our_decodeDouble cd tok
         | Some v \<Rightarrow> Some (if isNegative then intValue (sint (- v))
                             else if v \<le> of_nat maxInt then intValue (sint v)
                             else uintValue (unat v)))"

definition char_between :: "char \<Rightarrow> char \<Rightarrow> char \<Rightarrow> bool" where
  "char_between a b c \<longleftrightarrow> (of_char a :: nat) \<le> of_char c \<and> (of_char c :: nat) \<le> of_char b"

text \<open>Four hexadecimal digits, accumulated from the left; \<open>n\<close> of them are missing.\<close>

fun hex_loop :: "nat \<Rightarrow> nat \<Rightarrow> string \<Rightarrow> (nat \<times> string) option" where
  "hex_loop 0 unicode s = Some (unicode, s)"
| "hex_loop (Suc n) unicode [] = None"
| "hex_loop (Suc n) unicode (c # s) =
     (if char_between (CHR ''0'') (CHR ''9'') c then hex_loop n (unicode * 16 + (of_char c - 48)) s
      else if char_between (CHR ''a'') (CHR ''f'') c then hex_loop n (unicode * 16 + (of_char c - 97 + 10)) s
      else if char_between (CHR ''A'') (CHR ''F'') c then hex_loop n (unicode * 16 + (of_char c - 65 + 10)) s
      else None)"

definition our_decodeUnicodeEscapeSequence :: "string \<Rightarrow> (nat \<times> string) option" where
  "our_decodeUnicodeEscapeSequence s = (if length s < 4 then None else hex_loop 4 0 s)"

definition our_decodeUnicodeCodePoint :: "string \<Rightarrow> (nat \<times> string) option" where
  "our_decodeUnicodeCodePoint s = (case our_decodeUnicodeEscapeSequence s of
      None \<Rightarrow> None
    | Some (unicode, s) \<Rightarrow>
        if 0xD800 \<le> unicode \<and> unicode \<le> 0xDBFF then
          (if length s < 6 then None
           else if s ! 0 = CHR 0x5C \<and> s ! 1 = CHR ''u'' then
             (case our_decodeUnicodeEscapeSequence (drop 2 s) of
                None \<Rightarrow> None
              | Some (surrogatePair, s) \<Rightarrow>
                  Some (0x10000 + push_bit 10 (unicode AND 0x3FF) + (surrogatePair AND 0x3FF), s))
           else None)
        else Some (unicode, s))"

lemma hex_step: "hex_loop (Suc n) u (c # s) = (case hex_digit c of None \<Rightarrow> None | Some d \<Rightarrow> hex_loop n (u * 16 + d) s)"
  by (auto simp: Let_def char_between_def)

lemma our_decodeUnicodeEscapeSequence_eq: "our_decodeUnicodeEscapeSequence s = decodeUnicodeEscapeSequence s"
proof (cases s rule: decodeUnicodeEscapeSequence.cases)
  case (1 a b c d t)
  have "hex_loop 4 0 (a # b # c # d # t) = decodeUnicodeEscapeSequence (a # b # c # d # t)"
    by (simp add: eval_nat_numeral hex_step del: hex_loop.simps(3) hex_digit.simps split: option.split)
  then show ?thesis by (simp add: 1 our_decodeUnicodeEscapeSequence_def)
qed (simp_all add: our_decodeUnicodeEscapeSequence_def)

lemma our_decodeUnicodeCodePoint_eq: "our_decodeUnicodeCodePoint s = decodeUnicodeCodePoint s"
proof -
  have t: "(s ! 0 = a \<and> s ! 1 = b) \<longleftrightarrow> take 2 s = [a, b]" if "\<not> length s < 6" for s :: string and a b
    using that by (cases s rule: decodeUnicodeEscapeSequence.cases) auto
  have m: "u AND 0x3FF = u mod 0x400" "push_bit 10 u = u * 0x400" for u :: nat
    using take_bit_eq_mask [of 10 u] by (simp_all add: take_bit_eq_mod push_bit_eq_mult mask_eq_exp_minus_1)
  note defs = our_decodeUnicodeCodePoint_def decodeUnicodeCodePoint_def our_decodeUnicodeEscapeSequence_eq m
  show ?thesis
  proof (cases "decodeUnicodeEscapeSequence s")
    case (Some p)
    then obtain u r where p: "decodeUnicodeEscapeSequence s = Some (u, r)" by (cases p) auto
    show ?thesis
    proof (cases "length r < 6")
      case False
      show ?thesis unfolding defs t [OF False, symmetric] p by (simp add: t [OF False, simplified])
    qed (simp add: defs p)
  qed (simp add: defs)
qed

text \<open>The loop of \<open>decodeString\<close> with what is decoded so far.\<close>

definition our_escape :: "char \<Rightarrow> string option" where
  "our_escape e =
     (if e = CHR 0x22 then Some [CHR 0x22]
      else if e = CHR ''/'' then Some ''/''
      else if e = CHR 0x5C then Some [CHR 0x5C]
      else if e = CHR ''b'' then Some [CHR 0x08]
      else if e = CHR ''f'' then Some [CHR 0x0C]
      else if e = CHR ''n'' then Some [CHR 0x0A]
      else if e = CHR ''r'' then Some [CHR 0x0D]
      else if e = CHR ''t'' then Some [CHR 0x09]
      else None)"

function our_decode_chars :: "string \<Rightarrow> string \<Rightarrow> string option" where
  "our_decode_chars [] decoded = Some decoded"
| "our_decode_chars (c # s) decoded =
     (if c = CHR 0x22 then Some decoded
      else if c = CHR 0x5C then
        (case s of
           [] \<Rightarrow> None
         | e # s \<Rightarrow> (case our_escape e of
             Some d \<Rightarrow> our_decode_chars s (decoded @ d)
           | None \<Rightarrow>
               if e = CHR ''u'' then
                 (case our_decodeUnicodeCodePoint s of
                    None \<Rightarrow> None
                  | Some (unicode, s) \<Rightarrow> our_decode_chars s (decoded @ codePointToUTF8 unicode))
               else None))
      else our_decode_chars s (decoded @ [c]))"
  by pat_completeness auto
termination
  by (relation "measure (\<lambda>(s, d). length s)") (auto simp: our_decodeUnicodeCodePoint_eq dest: decodeUnicodeCodePoint_length)

definition our_decodeString :: "string \<Rightarrow> string option" where
  "our_decodeString tok = our_decode_chars (take (length tok - 2) (drop 1 tok)) []"

lemma our_escape_eq: "our_escape e = map_option (\<lambda>d. [d]) (simple_escape e)"
  by (simp add: our_escape_def simple_escape_def)

lemma our_decode_chars_eq: "our_decode_chars s d = map_option ((@) d) (decode_chars s)"
proof (induction s d rule: our_decode_chars.induct)
  case (2 c s d)
  then show ?case
    by (auto simp: our_escape_eq our_decodeUnicodeCodePoint_eq option.map_comp comp_def
        split: list.split option.split)
qed simp

lemma our_decodeString_eq: "our_decodeString tok = decodeString tok"
proof -
  have "take (length tok - 2) (drop 1 tok) = butlast (drop 1 tok)" by (simp add: butlast_conv_take numeral_2_eq_2)
  then show ?thesis by (simp add: our_decodeString_def decodeString_def our_decode_chars_eq append_Nil [abs_def] option.map_ident)
qed

text \<open>On words the digit loop computes what it computes on numbers: no step wraps around.\<close>

lemma our_digits_eq:
  "v \<le> mx \<Longrightarrow> map_option unat (our_digits mx v s) = decode_digits (unat mx) (unat v) s"
proof (induction mx v s rule: our_digits.induct)
  case (2 mx v c s)
  show ?case
  proof (cases "is_digit c")
    case True
    let ?d = "of_nat (digit_val c) :: 64 word"
    have d9: "digit_val c \<le> 9" using True by (auto simp: is_digit_def digit_val_def)
    then have d: "unat ?d = digit_val c" by (simp add: unat_of_nat take_bit_nat_eq_self_iff)
    have t: "unat (mx div 10) = unat mx div 10" "unat (mx mod 10) = unat mx mod 10"
      by (simp_all add: unat_div unat_mod)
    note less = word_less_nat_alt word_le_nat_alt t d
    show ?thesis
    proof (cases "v \<ge> mx div 10 \<and> (v > mx div 10 \<or> s \<noteq> [] \<or> ?d > mx mod 10)")
      case big: True
      then show ?thesis by (auto simp: Let_def less)
    next
      case small: False
      have le: "unat v * 10 + digit_val c \<le> unat mx"
      proof (cases "unat v < unat mx div 10")
        case True
        with d9 show ?thesis by linarith
      next
        case False
        with small have "unat v = unat mx div 10" "digit_val c \<le> unat mx mod 10" by (auto simp: less)
        then show ?thesis using mult_div_mod_eq [of 10 "unat mx"] by linarith
      qed
      then have "unat v * 10 + digit_val c < 2 ^ 64" using unsigned_less [of mx, where 'a = nat] by simp
      then have u: "unat (v * 10 + ?d) = unat v * 10 + digit_val c"
        by (simp add: unat_word_ariths d)
      with le have "v * 10 + ?d \<le> mx" by (simp add: word_le_nat_alt)
      with "2.IH" True small u show ?thesis by (auto simp: Let_def less)
    qed
  qed simp
qed simp

lemma sint_of_int: "- (2 ^ 63) \<le> i \<Longrightarrow> i < 2 ^ 63 \<Longrightarrow> sint (word_of_int i :: 64 word) = i"
  by (simp add: signed_of_int signed_take_bit_int_eq_self)

lemma sint_negated:
  fixes v :: "64 word"
  assumes "uint v \<le> 2 ^ 63"
  shows "sint (- v) = - uint v"
proof -
  have "- v = word_of_int (- uint v)" by simp
  moreover have "- uint v \<le> 0" by simp
  then have "sint (word_of_int (- uint v) :: 64 word) = - uint v" by (intro sint_of_int) (use assms in simp, rule le_less_trans [of _ 0], simp_all)
  ultimately show ?thesis by simp
qed

lemma sint_small:
  fixes v :: "64 word"
  assumes "uint v < 2 ^ 63"
  shows "sint v = uint v"
proof -
  have "v = word_of_int (uint v)" by simp
  moreover have "sint (word_of_int (uint v) :: 64 word) = uint v"
    by (rule sint_of_int) (use assms uint_ge_0 [of v] in linarith)+
  ultimately show ?thesis by simp
qed

lemma our_decodeDouble_eq: "NUL \<notin> set tok \<Longrightarrow> our_decodeDouble cd tok = map_option realValue (parse_double cd tok)"
proof -
  assume "NUL \<notin> set tok"
  then have "c_str tok = tok" "c_str (tok @ [NUL]) = tok" by (induction tok) (auto simp: c_str_def)
  then show ?thesis by (simp add: our_decodeDouble_def)
qed

lemma our_decodeNumber_eq:
  assumes "NUL \<notin> set tok"
  shows "our_decodeNumber cd tok = decodeNumber cd tok"
proof (cases "take 1 tok = ''-''")
  case True
  have mx: "unat (- minLargestInt) = maxLargestInt + 1" by (simp add: minLargestInt_def maxLargestInt_def)
  note eq = our_digits_eq [of 0 "- minLargestInt" "drop 1 tok", unfolded mx, simplified]
  show ?thesis
  proof (cases "our_digits (- minLargestInt) 0 (drop 1 tok)")
    case None
    with True eq show ?thesis by (simp add: our_decodeNumber_def decodeNumber_def our_decodeDouble_eq [OF assms])
  next
    case (Some v)
    with eq have d: "decode_digits (maxLargestInt + 1) 0 (drop 1 tok) = Some (unat v)" by simp
    have "unat v \<le> 2 ^ 63" using decode_digits_bound [OF d] unfolding maxLargestInt_def by simp
    then have "int (unat v) \<le> int (2 ^ 63)" by (simp only: of_nat_le_iff)
    then have "uint v \<le> 2 ^ 63" by simp
    then have "sint (- v) = - uint v" by (rule sint_negated)
    moreover have "uint v = 2 ^ 63" if "unat v = maxLargestInt + 1"
    proof -
      have "int (unat v) = int (2 ^ 63)" using that by (simp only: maxLargestInt_def) simp
      then show ?thesis by simp
    qed
    ultimately show ?thesis using True Some d by (auto simp: our_decodeNumber_def decodeNumber_def)
  qed
next
  case False
  have mx: "unat (- 1 :: 64 word) = maxLargestUInt"
    by (simp add: maxLargestUInt_def unsigned_minus_1_eq_mask mask_eq_exp_minus_1)
  note eq = our_digits_eq [of 0 "- 1" tok, unfolded mx, simplified]
  show ?thesis
  proof (cases "our_digits (- 1) 0 tok")
    case None
    with False eq show ?thesis by (simp add: our_decodeNumber_def decodeNumber_def our_decodeDouble_eq [OF assms])
  next
    case (Some v)
    with eq have d: "decode_digits maxLargestUInt 0 tok = Some (unat v)" by simp
    have "v \<le> of_nat maxInt \<longleftrightarrow> unat v \<le> maxInt" by (simp add: word_le_nat_alt maxInt_def)
    moreover have "sint v = uint v" if "unat v \<le> maxInt"
    proof (rule sint_small)
      have "int (unat v) < int (2 ^ 63)" using that by (simp only: of_nat_less_iff maxInt_def) simp
      then show "uint v < 2 ^ 63" by simp
    qed
    ultimately show ?thesis using False Some d by (auto simp: our_decodeNumber_def decodeNumber_def)
  qed
qed

section \<open>Values\<close>

text \<open>\<open>skipCommentTokens\<close> skips comments where they are allowed.\<close>

lemma our_read_by_char_length: "our_read_by_char f c s = (x, r) \<Longrightarrow> length r \<le> length s"
proof -
  have q: "readStringSingleQuote s = (ok, r) \<Longrightarrow> length r \<le> length s" for ok r s
    by (induction s arbitrary: ok r rule: readStringSingleQuote.induct) (auto split: if_splits list.splits simp: le_Suc_eq)
  have n: "our_readNumber i s = (ok, r) \<Longrightarrow> length r \<le> length s" for i ok r
    using readNumber_length [of s] by (auto simp: our_readNumber_eq split: if_splits)
  show "our_read_by_char f c s = (x, r) \<Longrightarrow> length r \<le> length s"
    by (auto simp: our_read_by_char_def our_match_eq our_readComment_eq our_readString_eq match_chars_def Let_def
        split: if_splits prod.splits dest!: readComment_length readString_length q n)
qed

lemma our_readToken_length:
  assumes "our_readToken f s = (ty, tk, r)"
  shows "length r \<le> length s" and "ty \<noteq> Tok tokenEndOfStream \<Longrightarrow> length r < length s"
proof -
  let ?start = "our_skipSpaces s"
  have st: "length ?start \<le> length s" by (simp add: our_skipSpaces_eq skipSpaces_def length_dropWhile_le)
  have "length r \<le> length s \<and> (ty \<noteq> Tok tokenEndOfStream \<longrightarrow> length r < length s)"
  proof (cases ?start)
    case Nil
    with assms have "r = []" "ty = Tok tokenEndOfStream"
      by (auto simp: our_readToken_def our_getNextChar_def our_read_by_char_def NUL_def is_digit_def Let_def)
    then show ?thesis by simp
  next
    case (Cons c q)
    with assms have "length r \<le> length q"
      using our_read_by_char_length [of f c q] by (auto simp: our_readToken_def our_getNextChar_def Let_def split: prod.splits)
    with Cons st show ?thesis by simp
  qed
  then show "length r \<le> length s" "ty \<noteq> Tok tokenEndOfStream \<Longrightarrow> length r < length s" by simp_all
qed

function our_skipComments :: "bool \<Rightarrow> our_features \<Rightarrow> string \<Rightarrow> our_token \<times> string \<times> string" where
  "our_skipComments skip f s =
     (let (ty, tk, r) = our_readToken f s in
      if skip \<and> ty = Tok tokenComment then our_skipComments skip f r else (ty, tk, r))"
  by pat_completeness auto
termination
proof (relation "measure (\<lambda>(m, f, s). length s)", goal_cases)
  case (2 m f s x xa y xb ya)
  then have "our_readToken f s = (Tok tokenComment, xb, ya)" by simp
  from our_readToken_length(2) [OF this] show ?case by simp
qed simp

declare our_skipComments.simps [simp del]

definition our_skipCommentTokens :: "our_features \<Rightarrow> string \<Rightarrow> our_token \<times> string \<times> string" where
  "our_skipCommentTokens f s = our_skipComments (allowComments f) f s"

lemma our_skip_length:
  assumes "our_skipComments m f s = (ty, tk, r)"
  shows "length r \<le> length s \<and> (ty \<noteq> Tok tokenEndOfStream \<longrightarrow> length r < length s)"
  using assms
proof (induction m f s arbitrary: ty tk r rule: our_skipComments.induct)
  case (1 m f s)
  obtain ty1 tk1 r1 where t: "our_readToken f s = (ty1, tk1, r1)" by (cases "our_readToken f s")
  show ?case
  proof (cases "m \<and> ty1 = Tok tokenComment")
    case True
    then have "our_skipComments m f s = our_skipComments m f r1"
      by (subst our_skipComments.simps) (simp add: t)
    with "1.prems" have "our_skipComments m f r1 = (ty, tk, r)" by simp
    with "1.IH" [OF t [symmetric] refl refl True] our_readToken_length [OF t] True show ?thesis by fastforce
  next
    case False
    with t "1.prems" have "ty = ty1" "r = r1" by (auto simp: our_skipComments.simps [of m f s])
    with our_readToken_length [OF t] show ?thesis by simp
  qed
qed

text \<open>
  The loops of \<open>readObject\<close> and \<open>readArray\<close>; inside them comments are skipped whatever the settings are. A key
  that is a number has the text of its value.
\<close>

definition our_member_name :: "c_double \<Rightarrow> our_features \<Rightarrow> our_token \<Rightarrow> string \<Rightarrow> json_error + string option" where
  "our_member_name cd f ty tk =
     (if ty = Tok tokenString then Inr (our_decodeString tk)
      else if ty = Tok tokenNumber \<and> allowNumericKeys f then
        (case our_decodeNumber cd tk of
           None \<Rightarrow> Inr None
         | Some numberName \<Rightarrow> map_sum id Some (asString cd numberName))
      else Inr None)"

fun our_read_members ::
  "c_double \<Rightarrow> our_features \<Rightarrow> (string \<Rightarrow> json parsed) \<Rightarrow> nat \<Rightarrow> string \<Rightarrow> (string \<times> json) list \<Rightarrow> string \<Rightarrow> json parsed" where
  "our_read_members cd f rv 0 name ms s = Out_Of_Fuel"
| "our_read_members cd f rv (Suc n) name ms s =
     (let (ty, tk, r) = our_skipComments True f s in
      if ty = Tok tokenObjectEnd \<and> name = [] then Parsed (objectValue ms) r
      else case our_member_name cd f ty tk of Inl e \<Rightarrow> Thrown e | Inr None \<Rightarrow> Failed | Inr (Some name) \<Rightarrow>
     let (colon, _, r) = our_readToken f r in
      if colon \<noteq> Tok tokenMemberSeparator then Failed
      else if length name \<ge> 2 ^ 30 then Thrown RuntimeError
      else if rejectDupKeys f \<and> map_of ms name \<noteq> None then Failed
      else case rv r of
        Parsed v r \<Rightarrow>
          (let ms = obj_insert name v ms;
               (comma, _, r) = our_readToken f r in
           if comma \<notin> {Tok tokenObjectEnd, Tok tokenArraySeparator, Tok tokenComment} then Failed
           else
          let (comma, r) = (if comma = Tok tokenComment
                            then (let (t, _, q) = our_skipComments True f r in (t, q)) else (comma, r)) in
           if comma = Tok tokenObjectEnd then Parsed (objectValue ms) r
           else our_read_members cd f rv n name ms r)
      | e \<Rightarrow> e)"

fun our_read_elements ::
  "our_features \<Rightarrow> (string \<Rightarrow> json parsed) \<Rightarrow> nat \<Rightarrow> json list \<Rightarrow> string \<Rightarrow> json parsed" where
  "our_read_elements f rv 0 vs s = Out_Of_Fuel"
| "our_read_elements f rv (Suc n) vs s = (case rv s of
      Parsed v r \<Rightarrow>
        (let (ty, _, r) = our_skipComments True f r in
         if ty \<noteq> Tok tokenArraySeparator \<and> ty \<noteq> Tok tokenArrayEnd then Failed
         else if ty = Tok tokenArrayEnd then Parsed (arrayValue (vs @ [v])) r
         else our_read_elements f rv n (vs @ [v]) r)
    | e \<Rightarrow> e)"

definition our_readObject :: "c_double \<Rightarrow> our_features \<Rightarrow> (string \<Rightarrow> json parsed) \<Rightarrow> string \<Rightarrow> json parsed" where
  "our_readObject cd f rv s = our_read_members cd f rv (length s + 1) [] [] s"

definition our_readArray :: "our_features \<Rightarrow> (string \<Rightarrow> json parsed) \<Rightarrow> string \<Rightarrow> json parsed" where
  "our_readArray f rv s =
     (let r = our_skipSpaces s in
      if take 1 r = '']'' then (let (_, _, q) = our_readToken f r in Parsed (arrayValue []) q)
      else our_read_elements f rv (length r + 1) [] r)"

text \<open>The IEEE doubles of \<open>numeric_limits\<close>.\<close>

definition quiet_NaN :: "64 word" where "quiet_NaN = 0x7FF8000000000000"
definition infinity :: "64 word" where "infinity = 0x7FF0000000000000"
definition minus_infinity :: "64 word" where "minus_infinity = 0xFFF0000000000000"

text \<open>
  \<open>readValue\<close>; the number is what is left of the limit on nested calls. A separator or a closing bracket in
  the place of a value is read again, where null may be left out.
\<close>

fun our_readValue :: "c_double \<Rightarrow> our_features \<Rightarrow> nat \<Rightarrow> string \<Rightarrow> json parsed" where
  "our_readValue cd f 0 s = Thrown RuntimeError"
| "our_readValue cd f (Suc d) s =
     (let (ty, tk, r) = our_skipCommentTokens f s in
      case ty of
        Tok tokenObjectBegin \<Rightarrow> our_readObject cd f (our_readValue cd f d) r
      | Tok tokenArrayBegin \<Rightarrow> our_readArray f (our_readValue cd f d) r
      | Tok tokenNumber \<Rightarrow> (case our_decodeNumber cd tk of None \<Rightarrow> Failed | Some v \<Rightarrow> Parsed v r)
      | Tok tokenString \<Rightarrow> (case our_decodeString tk of None \<Rightarrow> Failed | Some v \<Rightarrow> Parsed (stringValue v) r)
      | Tok tokenTrue \<Rightarrow> Parsed (booleanValue True) r
      | Tok tokenFalse \<Rightarrow> Parsed (booleanValue False) r
      | Tok tokenNull \<Rightarrow> Parsed nullValue r
      | tokenNaN \<Rightarrow> Parsed (realValue quiet_NaN) r
      | tokenPosInf \<Rightarrow> Parsed (realValue infinity) r
      | tokenNegInf \<Rightarrow> Parsed (realValue minus_infinity) r
      | _ \<Rightarrow> if allowDroppedNullPlaceholders f
               \<and> ty \<in> {Tok tokenArraySeparator, Tok tokenObjectEnd, Tok tokenArrayEnd}
             then Parsed nullValue (drop (length s - length r - 1) s) else Failed)"

text \<open>\<open>OurReader::parse\<close>: the value and the rest behind it, when the call returns true.\<close>

definition is_container :: "json \<Rightarrow> bool" where
  "is_container v = (case v of arrayValue vs \<Rightarrow> True | objectValue ms \<Rightarrow> True | _ \<Rightarrow> False)"

definition our_parse :: "c_double \<Rightarrow> our_features \<Rightarrow> string \<Rightarrow> json parsed" where
  "our_parse cd f doc = (case our_readValue cd f (nat (stackLimit f)) doc of
      Parsed root r \<Rightarrow>
        (let (ty, _, _) = our_skipCommentTokens f r in
         if failIfExtra f \<and> ty \<noteq> Tok tokenError \<and> ty \<noteq> Tok tokenEndOfStream then Failed
         else if strictRoot f \<and> \<not> is_container root then Failed
         else Parsed root r)
    | e \<Rightarrow> e)"

section \<open>The builder\<close>

text \<open>\<open>CharReaderBuilder\<close>: its settings are a value; \<open>operator[]\<close> and an assignment set one.\<close>

fun assign_settings :: "(string \<times> jvalue) list \<Rightarrow> jvalue \<Rightarrow> json_error + jvalue" where
  "assign_settings [] settings = Inr settings"
| "assign_settings ((key, x) # xs) settings =
     rbind (Value_resolveReference key settings) (\<lambda>(_, settings).
       assign_settings xs (assign_entry (CZ_String key) x settings))"

definition strictMode :: "jvalue \<Rightarrow> json_error + jvalue" where
  "strictMode settings = assign_settings
     [(''allowComments'', VBool False), (''strictRoot'', VBool True), (''allowDroppedNullPlaceholders'', VBool False),
      (''allowNumericKeys'', VBool False), (''allowSingleQuotes'', VBool False), (''stackLimit'', VInt 1000),
      (''failIfExtra'', VBool True), (''rejectDupKeys'', VBool True), (''allowSpecialFloats'', VBool False)] settings"

definition CharReader_setDefaults :: "jvalue \<Rightarrow> json_error + jvalue" where
  "CharReader_setDefaults settings = assign_settings
     [(''collectComments'', VBool True), (''allowComments'', VBool True), (''strictRoot'', VBool False),
      (''allowDroppedNullPlaceholders'', VBool False), (''allowNumericKeys'', VBool False),
      (''allowSingleQuotes'', VBool False), (''stackLimit'', VInt 1000), (''failIfExtra'', VBool False),
      (''rejectDupKeys'', VBool False), (''allowSpecialFloats'', VBool False)] settings"

definition getValidReaderKeys :: "string set" where
  "getValidReaderKeys = {''collectComments'', ''allowComments'', ''strictRoot'', ''allowDroppedNullPlaceholders'',
     ''allowNumericKeys'', ''allowSingleQuotes'', ''stackLimit'', ''failIfExtra'', ''rejectDupKeys'', ''allowSpecialFloats''}"

text \<open>A flag as \<open>newCharReader\<close> reads it, and the reader it makes: the flag to collect comments and the features.\<close>

definition setting :: "c_math \<Rightarrow> string \<Rightarrow> jvalue \<Rightarrow> json_error + bool" where
  "setting cm key settings = rbind (Value_member key settings) (Value_asBool cm)"

definition newCharReader :: "c_math \<Rightarrow> jvalue \<Rightarrow> json_error + bool \<times> our_features" where
  "newCharReader cm settings =
     rbind (setting cm ''collectComments'' settings) (\<lambda>collectComments.
     rbind (setting cm ''allowComments'' settings) (\<lambda>comments.
     rbind (setting cm ''strictRoot'' settings) (\<lambda>root.
     rbind (setting cm ''allowDroppedNullPlaceholders'' settings) (\<lambda>dropped.
     rbind (setting cm ''allowNumericKeys'' settings) (\<lambda>keys.
     rbind (setting cm ''allowSingleQuotes'' settings) (\<lambda>quotes.
     rbind (rbind (Value_member ''stackLimit'' settings) (Value_asInt cm)) (\<lambda>limit.
     rbind (setting cm ''failIfExtra'' settings) (\<lambda>extra.
     rbind (setting cm ''rejectDupKeys'' settings) (\<lambda>dup.
     rbind (setting cm ''allowSpecialFloats'' settings) (\<lambda>floats.
     Inr (collectComments, OurFeatures_all
       \<lparr>allowComments := comments, strictRoot := root, allowDroppedNullPlaceholders := dropped,
        allowNumericKeys := keys, allowSingleQuotes := quotes, stackLimit := limit, failIfExtra := extra,
        rejectDupKeys := dup, allowSpecialFloats := floats\<rparr>)))))))))))"

text \<open>\<open>validate\<close> copies the settings with unknown names into its argument, and counts what is in it.\<close>

definition validate_key :: "jvalue \<Rightarrow> string \<Rightarrow> jvalue \<Rightarrow> json_error + jvalue" where
  "validate_key settings key bad =
     (if key \<in> getValidReaderKeys then Inr bad
      else rbind (Value_resolveReference key bad) (\<lambda>(_, bad).
        rbind (Value_member key settings) (\<lambda>x. Inr (assign_entry (CZ_String key) x bad))))"

definition CharReader_validate :: "jvalue \<Rightarrow> jvalue \<Rightarrow> json_error + bool \<times> jvalue" where
  "CharReader_validate settings bad =
     rbind (getMemberNames settings) (\<lambda>keys.
     rbind (rfold (validate_key settings) keys bad) (\<lambda>bad. Inr (Value_size bad = 0, bad)))"

text \<open>
  \<open>parseFromStream\<close> reads the whole stream; \<open>operator>>\<close> uses the default settings and turns a failure into an
  exception. Comments that are collected are dropped here.
\<close>

definition parseFromStream :: "c_math \<Rightarrow> c_double \<Rightarrow> jvalue \<Rightarrow> bytes \<Rightarrow> json parsed" where
  "parseFromStream cm cd settings doc =
     (case newCharReader cm settings of Inl e \<Rightarrow> Thrown e | Inr (collect, f) \<Rightarrow> our_parse cd f doc)"

definition extract_value :: "c_math \<Rightarrow> c_double \<Rightarrow> bytes \<Rightarrow> json parsed" where
  "extract_value cm cd doc = (case CharReader_setDefaults VNull of Inl e \<Rightarrow> Thrown e | Inr b \<Rightarrow>
     case parseFromStream cm cd b doc of Failed \<Rightarrow> Thrown RuntimeError | x \<Rightarrow> x)"

end
