(* ===== verification/Json_Readers.thy ===== *)
theory Json_Readers
  imports Json_Our_Reader
begin

text \<open>
  The second reader against the first: it ends on every document, whatever its settings; with the default
  settings it reads a document as \<open>Json::Reader\<close> does, as long as no token of the document starts with an
  apostrophe or is a minus sign before the letter I; and stricter settings accept fewer documents and change no value.
\<close>

section \<open>The second reader ends\<close>

text \<open>A value may be left out, so reading one need not consume a character; the loops still do.\<close>

definition our_reads :: "(string \<Rightarrow> json parsed) \<Rightarrow> bool" where
  "our_reads rv \<longleftrightarrow> (\<forall>s. rv s \<noteq> Out_Of_Fuel \<and> (\<forall>v r. rv s = Parsed v r \<longrightarrow> length r \<le> length s))"

lemma our_readsD: "our_reads rv \<Longrightarrow> rv s = Parsed v r \<Longrightarrow> length r \<le> length s" "our_reads rv \<Longrightarrow> rv s \<noteq> Out_Of_Fuel"
  by (auto simp: our_reads_def)

text \<open>The outcome of one pass of the loop over members, in the order in which the code decides it.\<close>

lemma our_member_pass:
  assumes "our_skipComments True f s = (ty, tk, r1)" "our_readToken f r1 = (colon, tk2, r2)"
  shows "our_read_members cd f rv (Suc n) name ms s =
    (if ty = Tok tokenObjectEnd \<and> name = [] then Parsed (objectValue ms) r1
     else case our_member_name cd f ty tk of Inl e \<Rightarrow> Thrown e | Inr None \<Rightarrow> Failed | Inr (Some nm) \<Rightarrow>
       if colon \<noteq> Tok tokenMemberSeparator then Failed
       else if length nm \<ge> 2 ^ 30 then Thrown RuntimeError
       else if rejectDupKeys f \<and> map_of ms nm \<noteq> None then Failed
       else case rv r2 of
         Parsed v r3 \<Rightarrow> (let (comma, _, r4) = our_readToken f r3; (t5, _, r5) = our_skipComments True f r4 in
           if comma = Tok tokenObjectEnd then Parsed (objectValue (obj_insert nm v ms)) r4
           else if comma = Tok tokenArraySeparator then our_read_members cd f rv n nm (obj_insert nm v ms) r4
           else if comma = Tok tokenComment \<and> t5 = Tok tokenObjectEnd then Parsed (objectValue (obj_insert nm v ms)) r5
           else if comma = Tok tokenComment then our_read_members cd f rv n nm (obj_insert nm v ms) r5
           else Failed)
       | e \<Rightarrow> e)"
  by (simp add: assms Let_def del: not_None_eq split: sum.split option.split parsed.split prod.split)

lemma our_members_read:
  assumes "our_reads rv"
  shows "length s < n \<Longrightarrow> our_read_members cd f rv n name ms s \<noteq> Out_Of_Fuel
    \<and> (\<forall>v r. our_read_members cd f rv n name ms s = Parsed v r \<longrightarrow> length r \<le> length s)"
proof (induction n arbitrary: name ms s)
  case (Suc n)
  obtain ty tk r1 where t: "our_skipComments True f s = (ty, tk, r1)" by (cases "our_skipComments True f s")
  obtain colon tk2 r2 where c: "our_readToken f r1 = (colon, tk2, r2)" by (cases "our_readToken f r1")
  note lt = our_skip_length [OF t] and lc = our_readToken_length(1) [OF c]
  have IH: "our_read_members cd f rv n nm ms' x \<noteq> Out_Of_Fuel
      \<and> (\<forall>v r. our_read_members cd f rv n nm ms' x = Parsed v r \<longrightarrow> length r \<le> length s)"
    if "length x < length s" for x nm ms'
    using Suc.IH [of x nm ms'] Suc.prems that by (force dest: less_le_trans)
  show ?case
  proof (cases "ty = Tok tokenObjectEnd \<and> name = []")
    case True
    with lt show ?thesis by (simp add: our_member_pass [OF t c] del: our_read_members.simps)
  next
    case False
    have tys: "length r1 < length s" if "our_member_name cd f ty tk = Inr (Some nm)" for nm
      using that lt by (auto simp: our_member_name_def split: if_splits)
    have rest: "length r4 < length s \<and> length r5 < length s" if "our_member_name cd f ty tk = Inr (Some nm)"
      "rv r2 = Parsed v r3" "our_readToken f r3 = (comma, tk4, r4)" "our_skipComments True f r4 = (t5, tk5, r5)"
      for nm v r3 comma tk4 r4 t5 tk5 r5
      using tys [OF that(1)] lc our_readsD(1) [OF assms that(2)] our_readToken_length(1) [OF that(3)] our_skip_length [OF that(4)]
      by linarith
    note no = our_readsD(2) [OF assms]
    show ?thesis
      unfolding our_member_pass [OF t c] using False no IH
      by (auto simp: Let_def simp del: our_read_members.simps split: sum.split option.split parsed.split prod.split
          dest!: rest dest: less_imp_le_nat)
  qed
qed simp

lemma our_elements_read:
  assumes "our_reads rv"
  shows "length s < n \<Longrightarrow> our_read_elements f rv n vs s \<noteq> Out_Of_Fuel
    \<and> (\<forall>v r. our_read_elements f rv n vs s = Parsed v r \<longrightarrow> length r \<le> length s)"
proof (induction n arbitrary: vs s)
  case (Suc n)
  show ?case
  proof (cases "rv s")
    case (Parsed v r)
    have l: "length r \<le> length s" by (rule our_readsD(1) [OF assms Parsed])
    obtain ty tk q where t: "our_skipComments True f r = (ty, tk, q)" by (cases "our_skipComments True f r")
    have lq: "length q \<le> length r \<and> (ty \<noteq> Tok tokenEndOfStream \<longrightarrow> length q < length r)" by (rule our_skip_length [OF t])
    show ?thesis
    proof (cases "ty = Tok tokenArraySeparator")
      case True
      then have "length q < length s" using lq l by simp
      with Suc.IH [of q "vs @ [v]"] Suc.prems True t Parsed show ?thesis by (auto dest: le_less_trans)
    qed (use t Parsed lq l in auto)
  qed (use our_readsD(2) [OF assms, of s] in auto)
qed simp

lemma our_readValue_reads: "our_reads (our_readValue cd f d)"
proof (induction d)
  case 0
  then show ?case by (simp add: our_reads_def)
next
  case (Suc d)
  show ?case unfolding our_reads_def
  proof
    fix s
    obtain ty tk r where t: "our_skipCommentTokens f s = (ty, tk, r)" by (cases "our_skipCommentTokens f s")
    have l: "length r \<le> length s" using our_skip_length [OF t [unfolded our_skipCommentTokens_def]] by simp
    have obj: "our_readObject cd f (our_readValue cd f d) r \<noteq> Out_Of_Fuel
      \<and> (\<forall>v q. our_readObject cd f (our_readValue cd f d) r = Parsed v q \<longrightarrow> length q \<le> length s)"
      using our_members_read [OF Suc, of r "length r + 1" cd f "[]" "[]"] l
      by (auto simp: our_readObject_def simp del: our_read_members.simps dest: le_trans)
    have sk: "length (our_skipSpaces r) \<le> length r" by (simp add: our_skipSpaces_eq skipSpaces_def length_dropWhile_le)
    obtain ty2 tk2 q2 where t2: "our_readToken f (our_skipSpaces r) = (ty2, tk2, q2)" by (cases "our_readToken f (our_skipSpaces r)")
    have arr: "our_readArray f (our_readValue cd f d) r \<noteq> Out_Of_Fuel
      \<and> (\<forall>v q. our_readArray f (our_readValue cd f d) r = Parsed v q \<longrightarrow> length q \<le> length s)"
      using our_elements_read [OF Suc, of "our_skipSpaces r" "length (our_skipSpaces r) + 1" f "[]"] l sk t2
        our_readToken_length(1) [OF t2]
      by (auto simp: our_readArray_def Let_def simp del: our_read_elements.simps dest: le_trans)
    show "our_readValue cd f (Suc d) s \<noteq> Out_Of_Fuel
        \<and> (\<forall>v q. our_readValue cd f (Suc d) s = Parsed v q \<longrightarrow> length q \<le> length s)"
    proof (cases ty)
      case (Tok x)
      with t l obj arr show ?thesis by (cases x) (auto split: option.splits)
    qed (use t l in auto)
  qed
qed

lemma our_parse_ends: "our_parse cd f doc \<noteq> Out_Of_Fuel"
  using our_readsD(2) [OF our_readValue_reads, of cd f "nat (stackLimit f)" doc]
  by (auto simp: our_parse_def Let_def split: parsed.split prod.split)

section \<open>Documents both readers split into the same tokens\<close>

definition plain_at :: "string \<Rightarrow> bool" where
  "plain_at s = (case skipSpaces s of [] \<Rightarrow> True | c # r \<Rightarrow> c \<noteq> CHR 0x27 \<and> \<not> (c = CHR ''-'' \<and> take 1 r = ''I''))"

lemma plain_char:
  assumes "c \<noteq> CHR 0x27" "\<not> (c = CHR ''-'' \<and> take 1 s = ''I'')" "\<not> allowSpecialFloats f"
  shows "our_read_by_char f c s = map_prod (map_prod Tok id) id (read_by_char c s)"
proof (cases "c \<in> set ''{}[]/tfn,:-'' \<union> {CHR 0x22, NUL}")
  case True
  with assms show ?thesis
    by (auto simp: our_read_by_char_def read_by_char_def our_copies is_digit_def NUL_def split: prod.split)
next
  case False
  with assms show ?thesis by (simp add: our_read_by_char_def read_by_char_def our_copies)
qed

lemma plain_token:
  assumes "plain_at s" "\<not> allowSpecialFloats f" "readToken s = (ty, tk, r)"
  shows "our_readToken f s = (Tok ty, tk, r)"
proof -
  obtain c q where c: "getNextChar (skipSpaces s) = (c, q)" by (cases "getNextChar (skipSpaces s)")
  have p: "c \<noteq> CHR 0x27" "\<not> (c = CHR ''-'' \<and> take 1 q = ''I'')"
    using assms(1) c by (auto simp: plain_at_def NUL_def split: list.splits)
  obtain x ok z where x: "read_by_char c q = ((x, ok), z)" by (metis prod.collapse)
  then have "our_read_by_char f c q = ((Tok x, ok), z)" by (simp add: plain_char [OF p assms(2)])
  then show ?thesis using assms(3) x c by (auto simp: our_readToken_def readToken_def our_copies Let_def)
qed

text \<open>No token of the document, up to its end, starts with an apostrophe or is a minus sign before an I.\<close>

lemma readToken_rest_length: "s \<noteq> [] \<Longrightarrow> length (snd (snd (readToken s))) < length s"
proof (cases "skipSpaces s")
  case Nil
  assume "s \<noteq> []"
  with Nil show ?thesis by (simp add: readToken_def read_by_char_def NUL_def is_digit_def)
next
  case (Cons c q)
  obtain ty tk r where t: "readToken s = (ty, tk, r)" by (cases "readToken s")
  with Cons have "length r \<le> length q"
    using read_by_char_length [of c q] by (auto simp: readToken_def Let_def split: prod.splits)
  moreover have "length (skipSpaces s) \<le> length s" by (simp add: skipSpaces_def length_dropWhile_le)
  ultimately show ?thesis using Cons t by simp
qed

function plain_doc :: "string \<Rightarrow> bool" where
  "plain_doc s = (if s = [] then True else if plain_at s then plain_doc (snd (snd (readToken s))) else False)"
  by pat_completeness auto
termination by (relation "measure length") (simp_all add: readToken_rest_length)

declare plain_doc.simps [simp del]

lemma readToken_Nil: "readToken [] = (tokenEndOfStream, [], [])"
  by (simp add: readToken_def read_by_char_def NUL_def is_digit_def skipSpaces_def)

lemma plain_doc_token:
  assumes "plain_doc s" "readToken s = (ty, tk, r)"
  shows "plain_at s \<and> plain_doc r"
proof (cases "s = []")
  case True
  with assms(2) have "r = []" by (simp add: readToken_Nil)
  with True show ?thesis by (simp add: plain_doc.simps plain_at_def skipSpaces_def)
next
  case False
  with assms show ?thesis by (simp add: plain_doc.simps [of s] split: if_splits)
qed

lemma plain_doc_spaces: "plain_doc s \<Longrightarrow> plain_doc (skipSpaces s)"
proof (cases "skipSpaces s = []")
  case False
  have i: "skipSpaces (skipSpaces s) = skipSpaces s" by (simp add: skipSpaces_def)
  then have "readToken (skipSpaces s) = readToken s" "plain_at (skipSpaces s) = plain_at s"
    by (simp_all add: readToken_def plain_at_def)
  moreover have "s \<noteq> []" using False by (auto simp: skipSpaces_def)
  ultimately show "plain_doc s \<Longrightarrow> plain_doc (skipSpaces s)"
    by (simp add: plain_doc.simps [of s] plain_doc.simps [of "skipSpaces s"] split: if_splits)
qed (simp add: plain_doc.simps)

lemma plain_skip:
  assumes "plain_doc s" "\<not> allowSpecialFloats f" "skipCommentTokens s = (ty, tk, r)"
  shows "our_skipComments True f s = (Tok ty, tk, r) \<and> plain_doc r"
  using assms(1,3)
proof (induction s arbitrary: ty tk r rule: skipCommentTokens.induct)
  case (1 s)
  obtain ty1 tk1 r1 where t: "readToken s = (ty1, tk1, r1)" by (cases "readToken s")
  note p = plain_doc_token [OF "1.prems"(1) t]
  note o = plain_token [OF conjunct1 [OF p] assms(2) t]
  show ?case
  proof (cases "ty1 = tokenComment")
    case True
    then have "skipCommentTokens r1 = (ty, tk, r)" using "1.prems"(2) by (simp add: skipCommentTokens.simps [of s] t)
    moreover have "our_skipComments True f s = our_skipComments True f r1"
      by (subst our_skipComments.simps) (simp add: o True)
    ultimately show ?thesis using "1.IH" [OF t [symmetric] refl refl True] p by simp
  next
    case False
    with t "1.prems"(2) have "ty = ty1" "tk = tk1" "r = r1" by (simp_all add: skipCommentTokens.simps [of s])
    with False o p show ?thesis by (subst our_skipComments.simps) simp
  qed
qed

section \<open>Number tokens and member names\<close>

text \<open>A number token has no zero byte, so \<open>sscanf\<close> gets all of it.\<close>

definition eats :: "string \<Rightarrow> string \<Rightarrow> bool" where
  "eats s r \<longleftrightarrow> (\<exists>p. s = p @ r \<and> NUL \<notin> set p)"

lemma eats_refl [simp]: "eats s s"
  by (simp add: eats_def)

lemma eats_trans: "eats s t \<Longrightarrow> eats t r \<Longrightarrow> eats s r"
  unfolding eats_def by (metis UnE append_assoc set_append)

lemma eats_Cons: "c \<noteq> NUL \<Longrightarrow> eats s r \<Longrightarrow> eats (c # s) r"
  unfolding eats_def by (metis Cons_eq_appendI set_ConsD)

lemma eats_digits [simp]: "eats s (dropWhile is_digit s)"
  unfolding eats_def
  by (intro exI [of _ "takeWhile is_digit s"]) (auto simp: NUL_def is_digit_def dest: set_takeWhileD)

lemma eats_fraction: "eats s (number_fraction s)"
  by (cases s) (auto simp: number_fraction_def NUL_def intro: eats_Cons)

lemma eats_exponent: "eats s (number_exponent s)"
proof (cases s)
  case (Cons c r)
  have "eats r (dropWhile is_digit (if take 1 r = ''+'' \<or> take 1 r = ''-'' then tl r else r))"
    by (cases r) (auto simp: NUL_def is_digit_def intro: eats_Cons)
  then have "eats (c # r) (dropWhile is_digit (if take 1 r = ''+'' \<or> take 1 r = ''-'' then tl r else r))"
    if "c = CHR ''e'' \<or> c = CHR ''E''"
    using that by (intro eats_Cons) (auto simp: NUL_def)
  then show ?thesis by (simp add: number_exponent_def Cons)
qed (simp add: number_exponent_def)

lemma readNumber_eats: "eats s (readNumber s)"
proof -
  have "readNumber s = number_exponent (number_fraction (dropWhile is_digit s))"
    using our_readNumber_eq [of False s] by (simp add: our_readNumber_def)
  then show ?thesis using eats_trans [OF eats_digits eats_trans [OF eats_fraction eats_exponent]] by simp
qed

lemma number_token:
  assumes "readToken s = (tokenNumber, tk, r)"
  shows "NUL \<notin> set tk"
proof (cases "skipSpaces s")
  case Nil
  with assms show ?thesis by (simp add: readToken_def read_by_char_def NUL_def is_digit_def)
next
  case (Cons c q)
  obtain x ok z where x: "read_by_char c q = ((x, ok), z)" by (metis prod.collapse)
  with assms Cons have n: "x = tokenNumber" "z = r" and tk: "tk = take (length (c # q) - length r) (c # q)"
    by (auto simp: readToken_def split: if_splits)
  from n x have c: "is_digit c \<or> c = CHR ''-''" and r: "r = readNumber q"
    by (auto simp: read_by_char_def Let_def split: if_splits prod.splits)
  from readNumber_eats [of q] obtain p where p: "q = p @ r" "NUL \<notin> set p" unfolding eats_def r by blast
  have "tk = c # p" unfolding tk using p(1) by simp
  with c p(2) show ?thesis by (auto simp: NUL_def is_digit_def)
qed

lemma skip_number: "skipCommentTokens s = (tokenNumber, tk, r) \<Longrightarrow> NUL \<notin> set tk"
proof (induction s arbitrary: tk r rule: skipCommentTokens.induct)
  case (1 s)
  obtain ty1 tk1 r1 where t: "readToken s = (ty1, tk1, r1)" by (cases "readToken s")
  show ?case
  proof (cases "ty1 = tokenComment")
    case True
    with "1.prems" have "skipCommentTokens r1 = (tokenNumber, tk, r)" by (simp add: skipCommentTokens.simps [of s] t)
    with "1.IH" [OF t [symmetric] refl refl True] show ?thesis by simp
  next
    case False
    with "1.prems" t have "readToken s = (tokenNumber, tk, r)" by (simp add: skipCommentTokens.simps [of s])
    then show ?thesis by (rule number_token)
  qed
qed

text \<open>A name is not longer than its text.\<close>

lemma codePoint_size: "length (codePointToUTF8 u) \<le> 4"
  by (simp add: codePointToUTF8_def)

lemma codePoint_rest: "decodeUnicodeCodePoint s = Some (u, r) \<Longrightarrow> length r + 4 \<le> length s"
proof -
  have e: "decodeUnicodeEscapeSequence s = Some (u, r) \<Longrightarrow> length s = length r + 4" for s u r
    by (cases s rule: decodeUnicodeEscapeSequence.cases) (auto split: option.splits)
  show "decodeUnicodeCodePoint s = Some (u, r) \<Longrightarrow> length r + 4 \<le> length s"
    by (auto simp: decodeUnicodeCodePoint_def split: option.splits if_splits dest!: e)
qed

lemma decode_chars_length: "decode_chars s = Some d \<Longrightarrow> length d \<le> length s"
proof (induction s arbitrary: d rule: decode_chars.induct)
  case (2 c s)
  show ?case
  proof (cases "c = CHR 0x5C \<and> (\<exists>e r. s = e # r \<and> simple_escape e = None)")
    case True
    then obtain r where s: "c = CHR 0x5C" "s = CHR ''u'' # r" "simple_escape (CHR ''u'') = None"
      using "2.prems" by (auto split: if_splits)
    from "2.prems" s obtain u q t where u: "decodeUnicodeCodePoint r = Some (u, q)" "decode_chars q = Some t"
      "d = codePointToUTF8 u @ t" by (auto split: option.splits)
    have "length t \<le> length q" using "2.IH" s u by (auto simp del: decode_chars.simps)
    then show ?thesis using codePoint_rest [OF u(1)] codePoint_size [of u] s u(3) by simp
  next
    case False
    with 2 show ?thesis by (auto split: if_splits list.splits option.splits intro: le_SucI)
  qed
qed simp

lemma token_size: "readToken s = (ty, tk, r) \<Longrightarrow> length tk \<le> length s"
proof -
  have "length (skipSpaces s) \<le> length s" by (simp add: skipSpaces_def length_dropWhile_le)
  then show "readToken s = (ty, tk, r) \<Longrightarrow> length tk \<le> length s"
    by (auto simp: readToken_def Let_def split: prod.splits)
qed

lemma skip_size: "skipCommentTokens s = (ty, tk, r) \<Longrightarrow> length tk \<le> length s"
proof (induction s arbitrary: ty tk r rule: skipCommentTokens.induct)
  case (1 s)
  obtain ty1 tk1 r1 where t: "readToken s = (ty1, tk1, r1)" by (cases "readToken s")
  show ?case
  proof (cases "ty1 = tokenComment")
    case True
    with "1.prems" have "skipCommentTokens r1 = (ty, tk, r)" by (simp add: skipCommentTokens.simps [of s] t)
    with "1.IH" [OF t [symmetric] refl refl True] readToken_length(1) [OF t] show ?thesis by fastforce
  next
    case False
    with "1.prems" t show ?thesis by (auto simp: skipCommentTokens.simps [of s] intro: token_size)
  qed
qed

lemma name_size:
  assumes "skipCommentTokens s = (ty, tk, r)" "decodeString tk = Some name"
  shows "length name \<le> length s"
  using decode_chars_length [of "butlast (drop 1 tk)" name] skip_size [OF assms(1)] assms(2)
  by (simp add: decodeString_def)

section \<open>With the default settings the readers agree\<close>

definition like_Reader :: "our_features \<Rightarrow> bool" where
  "like_Reader f \<longleftrightarrow> allowComments f \<and> \<not> allowDroppedNullPlaceholders f \<and> \<not> allowNumericKeys f
     \<and> \<not> rejectDupKeys f \<and> \<not> allowSpecialFloats f"

definition agrees :: "(string \<Rightarrow> json parsed) \<Rightarrow> (string \<Rightarrow> json parsed) \<Rightarrow> bool" where
  "agrees rv ov \<longleftrightarrow> (\<forall>s. plain_doc s \<longrightarrow> length s < 2 ^ 30 \<longrightarrow>
     ov s = rv s \<and> (\<forall>v r. rv s = Parsed v r \<longrightarrow> plain_doc r))"

lemma agreesD:
  assumes "agrees rv ov" "plain_doc s" "length s < 2 ^ 30"
  shows "ov s = rv s" "rv s = Parsed v r \<Longrightarrow> plain_doc r"
  using assms by (auto simp: agrees_def)

lemma members_agree:
  assumes "like_Reader f" "reads rv" "agrees rv ov"
  shows "plain_doc s \<Longrightarrow> length s < 2 ^ 30 \<Longrightarrow>
    our_read_members cd f ov n name ms s = read_members rv n name ms s
    \<and> (\<forall>v r. read_members rv n name ms s = Parsed v r \<longrightarrow> plain_doc r)"
proof (induction n arbitrary: name ms s)
  case (Suc n)
  have sf: "\<not> allowSpecialFloats f" "\<not> rejectDupKeys f" "\<not> allowNumericKeys f" using assms(1) by (simp_all add: like_Reader_def)
  obtain ty tk r1 where t: "skipCommentTokens s = (ty, tk, r1)" by (cases "skipCommentTokens s")
  obtain colon tk2 r2 where c: "readToken r1 = (colon, tk2, r2)" by (cases "readToken r1")
  have t': "our_skipComments True f s = (Tok ty, tk, r1)" and p1: "plain_doc r1"
    using plain_skip [OF Suc.prems(1) sf(1) t] by simp_all
  have c': "our_readToken f r1 = (Tok colon, tk2, r2)" and p2: "plain_doc r2"
    using plain_token [OF _ sf(1) c] plain_doc_token [OF p1 c] by simp_all
  have name: "our_member_name cd f (Tok y) tk = Inr (if y = tokenString then decodeString tk else None)" for y
    by (simp add: our_member_name_def our_decodeString_eq sf)
  have l2: "length r2 < 2 ^ 30"
    using skipComment_length [OF t] readToken_length(1) [OF c] Suc.prems(2) by linarith
  note ag = agreesD [OF assms(3) p2 l2]
  show ?case
  proof (cases "ty = tokenString \<and> (\<exists>nm x r3. decodeString tk = Some nm \<and> colon = tokenMemberSeparator \<and> rv r2 = Parsed x r3)")
    case False
    then show ?thesis
      using t c p1 ag(1) Suc.prems(2) name_size [OF t]
      by (auto simp: our_member_pass [OF t' c'] name sf Let_def simp del: our_read_members.simps
          split: option.splits parsed.splits)
  next
    case True
    then obtain nm x r3 where nm: "ty = tokenString" "decodeString tk = Some nm" "colon = tokenMemberSeparator"
      "rv r2 = Parsed x r3" by blast
    have small: "length nm < 2 ^ 30" using name_size [OF t nm(2)] Suc.prems(2) by simp
    have p3: "plain_doc r3" by (rule ag(2) [OF nm(4)])
    obtain comma tk4 r4 where k: "readToken r3 = (comma, tk4, r4)" by (cases "readToken r3")
    obtain t5 tk5 r5 where q: "skipCommentTokens r4 = (t5, tk5, r5)" by (cases "skipCommentTokens r4")
    have k': "our_readToken f r3 = (Tok comma, tk4, r4)" and p4: "plain_doc r4"
      using plain_token [OF _ sf(1) k] plain_doc_token [OF p3 k] by simp_all
    have q': "our_skipComments True f r4 = (Tok t5, tk5, r5)" and p5: "plain_doc r5"
      using plain_skip [OF p4 sf(1) q] by simp_all
    have l: "length r4 < 2 ^ 30" "length r5 < 2 ^ 30"
      using readsD(1) [OF assms(2) nm(4)] readToken_length(1) [OF k] skipComment_length [OF q] l2 by linarith+
    note IH = Suc.IH [OF p4 l(1), of nm "obj_insert nm x ms"] Suc.IH [OF p5 l(2), of nm "obj_insert nm x ms"]
    have "our_read_members cd f ov (Suc n) name ms s =
      (if comma = tokenObjectEnd then Parsed (objectValue (obj_insert nm x ms)) r4
       else if comma = tokenArraySeparator then our_read_members cd f ov n nm (obj_insert nm x ms) r4
       else if comma = tokenComment \<and> t5 = tokenObjectEnd then Parsed (objectValue (obj_insert nm x ms)) r5
       else if comma = tokenComment then our_read_members cd f ov n nm (obj_insert nm x ms) r5
       else Failed)"
      using small nm(4) by (simp add: our_member_pass [OF t' c'] name nm(1-3) sf ag(1) k' q' del: our_read_members.simps)
    moreover have "read_members rv (Suc n) name ms s =
      (if comma = tokenObjectEnd then Parsed (objectValue (obj_insert nm x ms)) r4
       else if comma = tokenArraySeparator then read_members rv n nm (obj_insert nm x ms) r4
       else if comma = tokenComment \<and> t5 = tokenObjectEnd then Parsed (objectValue (obj_insert nm x ms)) r5
       else if comma = tokenComment then read_members rv n nm (obj_insert nm x ms) r5
       else Failed)"
      using t c nm k q by simp
    ultimately show ?thesis using IH p4 p5 by auto
  qed
qed simp

lemma elements_agree:
  assumes "like_Reader f" "reads rv" "agrees rv ov"
  shows "plain_doc s \<Longrightarrow> length s < 2 ^ 30 \<Longrightarrow>
    our_read_elements f ov n vs s = read_elements rv n vs s
    \<and> (\<forall>v r. read_elements rv n vs s = Parsed v r \<longrightarrow> plain_doc r)"
proof (induction n arbitrary: vs s)
  case (Suc n)
  have sf: "\<not> allowSpecialFloats f" using assms(1) by (simp add: like_Reader_def)
  note ag = agreesD [OF assms(3) Suc.prems]
  show ?case
  proof (cases "rv s")
    case (Parsed x r)
    obtain ty tk q where t: "skipCommentTokens r = (ty, tk, q)" by (cases "skipCommentTokens r")
    note o = plain_skip [OF ag(2) [OF Parsed] sf t]
    have "length q < 2 ^ 30" using readsD(1) [OF assms(2) Parsed] skipComment_length [OF t] Suc.prems(2) by linarith
    with Suc.IH [OF conjunct2 [OF o], of "vs @ [x]"] show ?thesis by (auto simp: Parsed ag(1) t o)
  qed (simp_all add: ag(1))
qed simp

lemma values_agree:
  assumes f: "like_Reader f"
  shows "agrees (readValue cd d) (our_readValue cd f d)"
proof (induction d)
  case 0
  then show ?case by (simp add: agrees_def)
next
  case (Suc d)
  show ?case unfolding agrees_def
  proof (intro allI impI)
    fix s assume p: "plain_doc s" and l: "length s < (2 :: nat) ^ 30"
    have sf: "\<not> allowSpecialFloats f" "allowComments f" "\<not> allowDroppedNullPlaceholders f" using f by (simp_all add: like_Reader_def)
    obtain ty tk r where t: "skipCommentTokens s = (ty, tk, r)" by (cases "skipCommentTokens s")
    note o = plain_skip [OF p sf(1) t]
    have lr: "length r < 2 ^ 30" using skipComment_length [OF t] l by linarith
    have obj: "our_readObject cd f (our_readValue cd f d) r = readObject (readValue cd d) r
      \<and> (\<forall>v q. readObject (readValue cd d) r = Parsed v q \<longrightarrow> plain_doc q)"
      using members_agree [OF f readValue_reads Suc _ lr] o unfolding our_readObject_def readObject_def by blast
    have sp: "plain_doc (skipSpaces r)" using o plain_doc_spaces by blast
    have ls: "length (skipSpaces r) < 2 ^ 30" using length_dropWhile_le [of json_space r] lr unfolding skipSpaces_def by linarith
    obtain ty2 tk2 q2 where t2: "readToken (skipSpaces r) = (ty2, tk2, q2)" by (cases "readToken (skipSpaces r)")
    have arr: "our_readArray f (our_readValue cd f d) r = readArray (readValue cd d) r
      \<and> (\<forall>v q. readArray (readValue cd d) r = Parsed v q \<longrightarrow> plain_doc q)"
      using elements_agree [OF f readValue_reads Suc sp ls] plain_doc_token [OF sp t2] plain_token [OF _ sf(1) t2]
      by (simp add: our_readArray_def readArray_def our_skipSpaces_eq t2 Let_def del: our_read_elements.simps read_elements.simps)
    have num: "our_decodeNumber cd tk = decodeNumber cd tk" if "ty = tokenNumber"
      using skip_number t that by (blast intro: our_decodeNumber_eq)
    show "our_readValue cd f (Suc d) s = readValue cd (Suc d) s
        \<and> (\<forall>v q. readValue cd (Suc d) s = Parsed v q \<longrightarrow> plain_doc q)"
      using o obj arr num by (cases ty) (simp_all add: t our_skipCommentTokens_def sf our_decodeString_eq split: option.splits)
  qed
qed

theorem readers_agree:
  assumes "like_Reader f" "stackLimit f = 1000" "\<not> failIfExtra f" "\<not> strictRoot f" "plain_doc doc" "length doc < 2 ^ 30"
  shows "our_parse cd f doc = parse_document cd doc"
  using agreesD(1) [OF values_agree [OF assms(1)] assms(5,6)] assms(2-4)
  by (simp add: our_parse_def parse_document_def stackLimit_g_def Let_def split: parsed.split prod.split)

section \<open>Stricter settings accept less\<close>

definition restricts :: "our_features \<Rightarrow> our_features \<Rightarrow> bool" where
  "restricts f g \<longleftrightarrow> allowSingleQuotes f = allowSingleQuotes g \<and> allowSpecialFloats f = allowSpecialFloats g
     \<and> (allowComments f \<longrightarrow> allowComments g) \<and> (allowDroppedNullPlaceholders f \<longrightarrow> allowDroppedNullPlaceholders g)
     \<and> (allowNumericKeys f \<longrightarrow> allowNumericKeys g) \<and> (rejectDupKeys g \<longrightarrow> rejectDupKeys f)
     \<and> (failIfExtra g \<longrightarrow> failIfExtra f) \<and> (strictRoot g \<longrightarrow> strictRoot f) \<and> stackLimit f \<le> stackLimit g"

definition extends :: "(string \<Rightarrow> json parsed) \<Rightarrow> (string \<Rightarrow> json parsed) \<Rightarrow> bool" where
  "extends rv ov \<longleftrightarrow> (\<forall>s v r. rv s = Parsed v r \<longrightarrow> ov s = Parsed v r)"

lemma extendsD: "extends rv ov \<Longrightarrow> rv s = Parsed v r \<Longrightarrow> ov s = Parsed v r"
  by (simp add: extends_def)

lemma restricts_token:
  assumes "restricts f g"
  shows "our_readToken f = our_readToken g"
proof -
  have "our_read_by_char f c q = our_read_by_char g c q" for c q
  proof -
    have "allowSingleQuotes f = allowSingleQuotes g" "allowSpecialFloats f = allowSpecialFloats g"
      using assms by (simp_all add: restricts_def)
    then show ?thesis unfolding our_read_by_char_def by (simp only:)
  qed
  then show ?thesis by (intro ext) (simp add: our_readToken_def)
qed

lemma skip_by_token:
  assumes "our_readToken f = our_readToken g"
  shows "our_skipComments m f s = our_skipComments m g s"
proof (induction "length s" arbitrary: s rule: less_induct)
  case less
  obtain ty tk r where t: "our_readToken g s = (ty, tk, r)" by (cases "our_readToken g s")
  show ?case
  proof (cases "m \<and> ty = Tok tokenComment")
    case True
    then have "our_skipComments m f r = our_skipComments m g r"
      using less our_readToken_length(2) [OF t] by blast
    with True show ?thesis
      by (subst our_skipComments.simps, subst (2) our_skipComments.simps) (simp add: t assms)
  next
    case False
    then show ?thesis by (subst our_skipComments.simps, subst (2) our_skipComments.simps) (auto simp: t assms)
  qed
qed

lemma restricts_skip: "restricts f g \<Longrightarrow> our_skipComments m f = our_skipComments m g"
  by (intro ext skip_by_token restricts_token)

lemma skip_stops:
  "our_skipComments m f s = (ty, tk, r) \<Longrightarrow> ty \<noteq> Tok tokenComment \<Longrightarrow> m \<longrightarrow> n \<Longrightarrow> our_skipComments n f s = (ty, tk, r)"
  by (cases m; cases "our_readToken f s") (auto simp: our_skipComments.simps [of False f s] our_skipComments.simps [of n f s])

lemma restricts_skipTokens:
  assumes "restricts f g" "our_skipCommentTokens f s = (ty, tk, r)" "ty \<noteq> Tok tokenComment"
  shows "our_skipCommentTokens g s = (ty, tk, r)"
  using skip_stops [OF _ assms(3), of "allowComments f" g s tk r "allowComments g"] assms
  by (simp add: our_skipCommentTokens_def restricts_skip [OF assms(1)] restricts_def)

lemma members_extend:
  assumes f: "restricts f g" and rv: "extends rv ov"
  shows "our_read_members cd f rv n name ms s = Parsed v r \<Longrightarrow> our_read_members cd g ov n name ms s = Parsed v r"
proof (induction n arbitrary: name ms s)
  case (Suc n)
  obtain ty tk r1 where t: "our_skipComments True g s = (ty, tk, r1)" by (cases "our_skipComments True g s")
  obtain colon tk2 r2 where c: "our_readToken g r1 = (colon, tk2, r2)" by (cases "our_readToken g r1")
  note pf = our_member_pass [OF t [folded restricts_skip [OF f]] c [folded restricts_token [OF f]]]
  show ?case
  proof (cases "ty = Tok tokenObjectEnd \<and> name = []")
    case True
    with Suc.prems show ?thesis by (simp add: pf our_member_pass [OF t c] del: our_read_members.simps)
  next
    case False
    from Suc.prems False obtain nm where nm: "our_member_name cd f ty tk = Inr (Some nm)"
      "colon = Tok tokenMemberSeparator" "\<not> length nm \<ge> 2 ^ 30" "\<not> (rejectDupKeys f \<and> map_of ms nm \<noteq> None)"
      unfolding pf by (simp del: our_read_members.simps not_None_eq split: sum.splits option.splits if_splits)
    from Suc.prems False nm obtain x r3 where x: "rv r2 = Parsed x r3"
      unfolding pf by (cases "rv r2") (simp_all del: our_read_members.simps not_None_eq split: if_splits)
    have name: "our_member_name cd g ty tk = Inr (Some nm)"
      using nm(1) f by (auto simp: our_member_name_def restricts_def split: if_splits option.splits)
    have dup: "\<not> (rejectDupKeys g \<and> map_of ms nm \<noteq> None)" using nm(4) f by (auto simp: restricts_def)
    obtain comma tk4 r4 where k: "our_readToken g r3 = (comma, tk4, r4)" by (cases "our_readToken g r3")
    obtain t5 tk5 r5 where q: "our_skipComments True g r4 = (t5, tk5, r5)" by (cases "our_skipComments True g r4")
    have eq: "our_read_members cd h zv (Suc n) name ms s =
      (if comma = Tok tokenObjectEnd then Parsed (objectValue (obj_insert nm x ms)) r4
       else if comma = Tok tokenArraySeparator then our_read_members cd h zv n nm (obj_insert nm x ms) r4
       else if comma = Tok tokenComment \<and> t5 = Tok tokenObjectEnd then Parsed (objectValue (obj_insert nm x ms)) r5
       else if comma = Tok tokenComment then our_read_members cd h zv n nm (obj_insert nm x ms) r5
       else Failed)"
      if "our_readToken h = our_readToken g" "our_member_name cd h ty tk = Inr (Some nm)"
        "\<not> (rejectDupKeys h \<and> map_of ms nm \<noteq> None)" "zv r2 = Parsed x r3" for h zv
    proof -
      have no: "(ty = Tok tokenObjectEnd \<and> name = []) = False" "(rejectDupKeys h \<and> map_of ms nm \<noteq> None) = False"
        "(length nm \<ge> 2 ^ 30) = False" "(Tok tokenMemberSeparator \<noteq> Tok tokenMemberSeparator) = False"
        using False that(3) nm(3) by simp_all
      have sk: "our_skipComments True h = our_skipComments True g" using skip_by_token [OF that(1)] by (rule ext)
      have pass: "our_skipComments True h s = (ty, tk, r1)" "our_readToken h r1 = (colon, tk2, r2)"
        using that(1) sk t c by simp_all
      show ?thesis
        by (simp only: our_member_pass [OF pass] that no nm(2) sk k q Let_def sum.case option.case parsed.case
            prod.case if_False)
    qed
    from Suc.prems Suc.IH [of nm "obj_insert nm x ms"] show ?thesis
      unfolding eq [of f rv, OF restricts_token [OF f] nm(1,4) x] eq [of g ov, OF refl name dup extendsD [OF rv x]]
      by (simp del: our_read_members.simps split: if_splits)
  qed
qed simp

lemma elements_extend:
  assumes f: "restricts f g" and rv: "extends rv ov"
  shows "our_read_elements f rv n vs s = Parsed v r \<Longrightarrow> our_read_elements g ov n vs s = Parsed v r"
proof (induction n arbitrary: vs s)
  case (Suc n)
  then obtain x q where x: "rv s = Parsed x q" by (auto split: parsed.splits)
  with Suc show ?case
    by (auto simp: extendsD [OF rv x] restricts_skip [OF f] Let_def split: if_splits prod.splits)
qed simp

lemma values_extend:
  assumes f: "restricts f g"
  shows "d \<le> e \<Longrightarrow> extends (our_readValue cd f d) (our_readValue cd g e)"
proof (induction d arbitrary: e)
  case 0
  then show ?case by (simp add: extends_def)
next
  case (Suc d)
  then obtain e' where e: "e = Suc e'" "d \<le> e'" by (cases e) auto
  note IH = Suc.IH [OF e(2)]
  show ?case unfolding extends_def
  proof (intro allI impI)
    fix s v r assume run: "our_readValue cd f (Suc d) s = Parsed v r"
    obtain ty tk q where t: "our_skipCommentTokens f s = (ty, tk, q)" by (cases "our_skipCommentTokens f s")
    have "ty \<noteq> Tok tokenComment" using run by (auto simp: t)
    with t have t': "our_skipCommentTokens g s = (ty, tk, q)" by (rule restricts_skipTokens [OF f])
    have obj: "our_readObject cd f (our_readValue cd f d) q = Parsed v r \<Longrightarrow> our_readObject cd g (our_readValue cd g e') q = Parsed v r"
      unfolding our_readObject_def by (rule members_extend [OF f IH])
    have arr: "our_readArray f (our_readValue cd f d) q = Parsed v r \<Longrightarrow> our_readArray g (our_readValue cd g e') q = Parsed v r"
      unfolding our_readArray_def restricts_token [OF f] Let_def using elements_extend [OF f IH] by (simp del: our_read_elements.simps split: if_splits)
    have dr: "allowDroppedNullPlaceholders f \<longrightarrow> allowDroppedNullPlaceholders g" using f by (simp add: restricts_def)
    show "our_readValue cd g e s = Parsed v r"
    proof (cases ty)
      case (Tok x)
      with run t' obj arr dr show ?thesis unfolding e by (cases x) (simp_all add: t split: if_splits)
    qed (use run t' in \<open>simp_all add: t e\<close>)
  qed
qed

theorem stricter_reader:
  assumes f: "restricts f g" and run: "our_parse cd f doc = Parsed v r"
  shows "our_parse cd g doc = Parsed v r"
proof -
  obtain ty tk q where t: "our_skipCommentTokens f r = (ty, tk, q)" by (cases "our_skipCommentTokens f r")
  from run have v: "our_readValue cd f (nat (stackLimit f)) doc = Parsed v r"
    and extra: "failIfExtra f \<Longrightarrow> ty = Tok tokenError \<or> ty = Tok tokenEndOfStream"
    and root: "strictRoot f \<Longrightarrow> is_container v"
    by (auto simp: our_parse_def Let_def t split: parsed.splits prod.splits if_splits)
  have "nat (stackLimit f) \<le> nat (stackLimit g)" using f by (simp add: restricts_def nat_mono)
  from extendsD [OF values_extend [OF f this] v] have v': "our_readValue cd g (nat (stackLimit g)) doc = Parsed v r" .
  have "ty \<noteq> Tok tokenComment \<longrightarrow> our_skipCommentTokens g r = (ty, tk, q)" using restricts_skipTokens [OF f t] by blast
  then show ?thesis
    using v' extra root f by (auto simp: our_parse_def Let_def restricts_def split: prod.split)
qed

lemma our_parse_result:
  assumes "our_parse cd f doc = Parsed v r"
  shows "strictRoot f \<Longrightarrow> is_container v"
    and "failIfExtra f \<Longrightarrow> fst (our_skipCommentTokens f r) \<in> {Tok tokenError, Tok tokenEndOfStream}"
  using assms by (auto simp: our_parse_def Let_def split: parsed.splits prod.splits if_splits)

section \<open>The settings of the builder\<close>

definition default_features :: our_features where
  "default_features = OurFeatures_all\<lparr>allowComments := True, stackLimit := 1000\<rparr>"

definition strict_features :: our_features where
  "strict_features = OurFeatures_all\<lparr>strictRoot := True, stackLimit := 1000, failIfExtra := True, rejectDupKeys := True\<rparr>"

lemma like_default: "like_Reader default_features"
  by (simp add: like_Reader_def default_features_def OurFeatures_all_def)

lemma strict_restricts: "restricts strict_features default_features"
  by (simp add: restricts_def strict_features_def default_features_def OurFeatures_all_def)

lemmas build_settings = assign_settings.simps Value_resolveReference_def slot_def assign_entry_def
  setting_def newCharReader_def Value_member_def Value_find_def

lemma default_reader:
  "rbind (CharReader_setDefaults VNull) (newCharReader cm) = Inr (True, default_features)"
  by (simp add: CharReader_setDefaults_def build_settings Value_asBool_def Value_asInt_def Value_isInt_def
      minInt_v_def maxInt_v_def to_Int_def default_features_def OurFeatures_all_def)

lemma strict_reader:
  "rbind (rbind (CharReader_setDefaults VNull) strictMode) (newCharReader cm) = Inr (True, strict_features)"
  by (simp add: CharReader_setDefaults_def strictMode_def build_settings Value_asBool_def Value_asInt_def Value_isInt_def
      minInt_v_def maxInt_v_def to_Int_def strict_features_def OurFeatures_all_def)

lemma default_stream: "CharReader_setDefaults VNull = Inr b \<Longrightarrow> parseFromStream cm cd b doc = our_parse cd default_features doc"
  using default_reader [of cm] by (simp add: parseFromStream_def)

lemma strict_stream:
  assumes "CharReader_setDefaults VNull = Inr b" "strictMode b = Inr c"
  shows "parseFromStream cm cd c doc = our_parse cd strict_features doc"
proof -
  have "newCharReader cm c = Inr (True, strict_features)" using strict_reader [of cm] unfolding assms by (simp add: assms)
  then show ?thesis by (simp add: parseFromStream_def)
qed

lemma defaults_defined: "\<exists>b. CharReader_setDefaults VNull = Inr b"
  using default_reader by (cases "CharReader_setDefaults VNull") auto

section \<open>What the settings do not keep out\<close>

text \<open>Without single quotes an apostrophe is read as the first slash of a comment.\<close>

lemma apostrophe_token:
  assumes "\<not> allowSingleQuotes f"
  obtains ty tk tk' r where "our_readToken f (CHR 0x27 # s) = (ty, tk, r)" "our_readToken f (CHR ''/'' # s) = (ty, tk', r)"
    "ty = Tok tokenComment \<or> ty = Tok tokenError"
  using assms by (cases "our_readComment s") (auto simp: our_readToken_def our_read_by_char_def our_getNextChar_def)

lemma apostrophe_is_slash:
  assumes "\<not> allowSingleQuotes f"
  shows "our_parse cd f (CHR 0x27 # s) = our_parse cd f (CHR ''/'' # s)"
proof -
  let ?a = "CHR 0x27 # s" let ?b = "CHR ''/'' # s"
  obtain ty tk tk' r where t: "our_readToken f ?a = (ty, tk, r)" "our_readToken f ?b = (ty, tk', r)"
    and ty: "ty = Tok tokenComment \<or> ty = Tok tokenError" by (rule apostrophe_token [OF assms])
  have "our_readValue cd f d ?a = our_readValue cd f d ?b" for d
  proof (cases d)
    case (Suc e)
    show ?thesis
    proof (cases "allowComments f \<and> ty = Tok tokenComment")
      case True
      then have "our_skipComments (allowComments f) f ?a = our_skipComments (allowComments f) f ?b"
        by (subst our_skipComments.simps, subst (2) our_skipComments.simps) (simp add: t)
      moreover obtain u uk q where u: "our_skipComments (allowComments f) f ?b = (u, uk, q)"
        by (cases "our_skipComments (allowComments f) f ?b")
      moreover have "u \<noteq> Tok tokenEndOfStream \<longrightarrow> length q < length s"
      proof -
        have "our_skipComments (allowComments f) f r = (u, uk, q)"
          using u True by (subst (asm) our_skipComments.simps) (simp add: t)
        from our_skip_length [OF this] our_readToken_length(2) [OF t(2)] True show ?thesis by auto
      qed
      then have "u \<noteq> Tok tokenEndOfStream \<Longrightarrow> drop (length s - length q) (CHR 0x27 # s) = drop (length s - length q) ?b"
        by (cases "length s - length q") auto
      ultimately show ?thesis
        by (cases u rule: our_token.exhaust [case_product token_type.exhaust])
          (auto simp: Suc our_skipCommentTokens_def Let_def Suc_diff_le split: our_token.split token_type.split)
    next
      case False
      then have "our_skipCommentTokens f ?a = (ty, tk, r)" "our_skipCommentTokens f ?b = (ty, tk', r)"
        unfolding our_skipCommentTokens_def by (subst our_skipComments.simps, auto simp: t)+
      then show ?thesis using ty by (auto simp: Suc)
    qed
  qed simp
  then show ?thesis by (simp add: our_parse_def)
qed

lemmas parse_text = our_parse_def our_skipCommentTokens_def our_skipComments.simps our_readToken_def
  our_read_by_char_def our_copies our_readArray_def our_readObject_def our_member_name_def match_chars_def
  skipSpaces_def json_space_def is_digit_def readComment_def readCStyleComment_def our_decodeString_eq decodeString_def
  is_container_def strict_features_def default_features_def OurFeatures_all_def NUL_def

lemmas readValue_depth = our_readValue.simps(2) [of cd f "pred_numeral d" for cd f d, folded numeral_eq_Suc]

text \<open>Text behind the value that is no token is let through, and comments are skipped inside arrays and objects.\<close>

lemma strict_lets_through:
  "our_parse cd strict_features ''[] @'' = Parsed (arrayValue []) '' @''"
  "our_parse cd strict_features ''[true/**/]'' = Parsed (arrayValue [booleanValue True]) []"
  by (simp_all add: parse_text readValue_depth)

text \<open>A string in single quotes ends at a double quote inside it.\<close>

lemma single_quoted_is_cut:
  "our_parse cd (default_features\<lparr>allowSingleQuotes := True\<rparr>) [CHR 0x27, CHR ''a'', CHR 0x22, CHR ''b'', CHR 0x27]
   = Parsed (stringValue ''a'') []"
  by (simp add: parse_text readValue_depth)

text \<open>Behind a comment that follows a member, any token is taken for the comma.\<close>

definition no_comma_text :: string where
  "no_comma_text = ''{'' @ [CHR 0x22, CHR ''a'', CHR 0x22] @ '':null/**/@'' @ [CHR 0x22, CHR ''b'', CHR 0x22] @ '':null}''"

lemma any_token_is_comma:
  "our_parse cd strict_features no_comma_text = Parsed (objectValue [(''a'', nullValue), (''b'', nullValue)]) []"
  by (simp add: parse_text readValue_depth no_comma_text_def)

end
