(* ===== verification/Demo.thy ===== *)
theory Demo
  imports Shared_Context Json_Order Json_Parsed Json_Layout Json_Path Json_Readers
begin

text \<open>
  A concrete system on which the properties are exercised: a kernel that keeps the documented
  behaviour (one listening socket, up to three connections, every read returns two bytes), a
  standard environment, and worlds with one server of a class. The lemmas show that the kernel's
  behaviour is the documented one.
\<close>

section \<open>A kernel\<close>

definition reply_ret :: "int \<Rightarrow> reply" where
  "reply_ret n = \<lparr>r_ret = n, r_ptr = 0, r_data = [], r_addr = [], r_fds = [], r_cbs = []\<rparr>"

definition reply_ptr :: "size_t \<Rightarrow> reply" where
  "reply_ptr p = (reply_ret 0)\<lparr>r_ptr := p\<rparr>"

definition free_ptr :: "obs list \<Rightarrow> size_t" where
  "free_ptr tr = (case filter (\<lambda>p. p \<notin> live_ptrs tr) [1, 2, 3] of [] \<Rightarrow> 0 | p # _ \<Rightarrow> p)"

definition free_fd :: "int list \<Rightarrow> obs list \<Rightarrow> int" where
  "free_fd fds tr = (case filter (\<lambda>fd. fd \<notin> open_fds tr) fds of [] \<Rightarrow> -1 | fd # _ \<Rightarrow> fd)"

definition demo_kernel :: kernel where
  "demo_kernel tr c = (case c of
      New_Client \<Rightarrow> reply_ptr (free_ptr tr)
    | Malloc n \<Rightarrow> reply_ptr 9
    | Socket f t \<Rightarrow> reply_ret (free_fd [4] tr)
    | Accept s \<Rightarrow> reply_ret (free_fd [5, 6, 7] tr)
    | Epoll_Create n \<Rightarrow> reply_ret (if 3 \<in> fst ` epoll_regs tr then -1 else 3)
    | Epoll_Add ep fd \<Rightarrow> reply_ret (if fd < 0 then -1 else 0)
    | Epoll_Wait ep n \<Rightarrow>
        (let fds = filter (\<lambda>fd. (ep, fd) \<in> epoll_regs tr) [4, 5, 6, 7]
          in (reply_ret (int (length fds)))\<lparr>r_fds := fds\<rparr>)
    | Read fd n \<Rightarrow> if 2 \<le> n then (reply_ret 2)\<lparr>r_data := ''hi''\<rparr> else reply_ret 0
    | Recvfrom fd n \<Rightarrow> if 2 \<le> n then (reply_ret 2)\<lparr>r_data := ''hi'', r_addr := ''peer''\<rparr> else reply_ret 0
    | Access p \<Rightarrow> reply_ret (-1)
    | Lws_Create_Context info \<Rightarrow> reply_ptr 7
    | Lws_Create_Vhost ctx info \<Rightarrow> reply_ptr 8
    | Lws_Get_Socket_Fd wsi \<Rightarrow> reply_ret (int wsi)
    | Lws_Hdr_Copy_Uri wsi n \<Rightarrow> (reply_ret 5)\<lparr>r_data := ''/sender''\<rparr>
    | _ \<Rightarrow> reply_ret 0)"

lemma free_ptr_fresh: "free_ptr tr \<notin> live_ptrs tr"
  by (auto simp: free_ptr_def split: list.splits dest: filter_eq_ConsD)

lemma free_fd_fresh: "free_fd fds tr \<notin> open_fds tr"
  using open_nonneg [of "-1" tr] by (auto simp: free_fd_def split: list.splits dest: filter_eq_ConsD)

lemma demo_kernel_ok: "kernel_ok demo_kernel"
proof -
  have "os_ok_call tr c (demo_kernel tr c)" for tr c
  proof (cases c)
    case (Epoll_Wait ep n)
    have "take m (filter P xs) = filter P xs" if "m = length (filter P xs)" for m P and xs :: "int list"
      using that by simp
    then show ?thesis by (simp add: Epoll_Wait demo_kernel_def reply_ret_def Let_def)
  qed (use free_ptr_fresh free_fd_fresh in \<open>simp_all add: demo_kernel_def reply_ret_def reply_ptr_def\<close>)
  then show ?thesis by (simp add: kernel_ok_def)
qed

text \<open>The same kernel when \<open>recvfrom\<close> fails.\<close>

definition failing_recv :: kernel where
  "failing_recv tr c = (case c of Recvfrom fd n \<Rightarrow> reply_ret (-1) | _ \<Rightarrow> demo_kernel tr c)"

lemma failing_recv_ok: "kernel_ok failing_recv"
proof -
  have "os_ok_call tr c (failing_recv tr c)" for tr c
    using kernel_okD [OF demo_kernel_ok, of tr c]
    by (cases c) (simp_all add: failing_recv_def reply_ret_def)
  then show ?thesis by (simp add: kernel_ok_def)
qed

section \<open>Worlds\<close>

definition demo_double :: c_double where
  "demo_double = \<lparr>parse_double = (\<lambda>_. Some 0), format_double = (\<lambda>_. ''0.0''), double_to_uint = (\<lambda>_. Some 0),
     double_nonzero = (\<lambda>_. False)\<rparr>"

text \<open>Doubles that are compared like their bits.\<close>

definition demo_math :: c_math where
  "demo_math = \<lparr>m_parse = (\<lambda>_. Some 0), m_format = (\<lambda>_. ''0.0''), d_le = (\<le>), d_less = (<), d_eq = (=),
     d_of_int = of_int, d_integral = (\<lambda>_. True), d_trunc = uint\<rparr>"

definition demo_env :: env where
  "demo_env = \<lparr>e_kernel = demo_kernel, e_hash = (\<lambda>s. of_nat (length s)), e_double = demo_double,
     e_files = (\<lambda>_. None), e_junk = (\<lambda>_. 0)\<rparr>"

definition demo_server :: "server_kind \<Rightarrow> server" where
  "demo_server kind = addEventListener FACTORY
     (newBaseServer (e_hash demo_env) kind ''srv'' ''8080'' True 20)"

definition demo_world :: "server list \<Rightarrow> aworld" where
  "demo_world ss =
     \<lparr>trace = [], servers = ss, http_context = 0, http_req_body = [], ws_context = 0, ws_vhost = 0,
      f_exists = True, m_configuration = newJsonConfiguration, m_server_listeners = [ANYSERVER],
      the_logger = initial_logger (\<lambda>_. None), a_instance = True, m_run = False, m_config_file = [],
      m_listeners = [LISTENER], m_server_factory = FACTORY_PTR,
      m_interceptor = \<lparr>signal_handlers = [], previous_handlers = []\<rparr>,
      signals = \<lparr>g_Current = Some ANYSERVER, dispositions = (\<lambda>_. SIG_DFL)\<rparr>\<rparr>"

section \<open>Concrete runs\<close>

definition quiet_up :: "nat \<Rightarrow> event \<Rightarrow> aworld \<Rightarrow> fault + aworld" where
  "quiet_up l e w = Inr w"

lemma quiet_up_ok: "\<exists>v'. quiet_up l e v = Inr v' \<and> calm v v'" "\<exists>v'. quiet_up l e v = Inr v'"
  by (simp_all add: quiet_up_def)

lemma demo_world_simps [simp]:
  "servers (demo_world ss) = ss" "trace (demo_world ss) = []" "the_server 0 (demo_world (s # ss)) = s"
  "m_server_factory (demo_world ss) = FACTORY_PTR" "m_listeners (demo_world ss) = [LISTENER]"
  "m_server_listeners (demo_world ss) = [ANYSERVER]" "m_configuration (demo_world ss) = newJsonConfiguration"
  by (simp_all add: demo_world_def the_server_def)

lemma demo_server_simps [simp]:
  "s_clients (demo_server kind) = []" "s_listeners (demo_server kind) = [FACTORY]"
  "s_kind (demo_server kind) = kind" "s_thread (demo_server kind) = Thread_None"
  "s_run_thread (demo_server kind) = False" "s_server_fd (demo_server kind) = 0"
  by (simp_all add: demo_server_def newBaseServer_def addEventListener_def)

lemma demo_new: "tcp_new FACTORY 0 (demo_world [demo_server kind])" "udp_inv FACTORY 0 (demo_world [demo_server kind])"
  by (simp_all add: tcp_new_def udp_inv_def session_at_def)

text \<open>A run of each epoll server: \<open>init\<close>, then the thread for a pass, in which a client connects.\<close>

definition inet_tcp_demo :: "fault + bool \<times> aworld" where
  "inet_tcp_demo = rbind (inet_tcp_init demo_kernel 0 (demo_world [demo_server InetDomainSocketTcpServer]))
     (\<lambda>(ok, w). if ok then inet_tcp_thread demo_kernel quiet_up 0 1 w else Inl Aborted)"

definition unix_tcp_demo :: "fault + bool \<times> aworld" where
  "unix_tcp_demo = rbind (unix_tcp_init demo_kernel 0 (demo_world [demo_server UnixDomainSocketTcpServer]))
     (\<lambda>(ok, w). if ok then unix_tcp_thread demo_kernel quiet_up 0 1 w else Inl Aborted)"

definition connected_ids :: "fault + bool \<times> aworld \<Rightarrow> size_t list option" where
  "connected_ids r = (case r of Inl e \<Rightarrow> None | Inr (b, w) \<Rightarrow> Some (List.map ci_id (s_clients (the_server 0 w))))"

lemma tcp_demos: "connected_ids inet_tcp_demo = Some [1]" "connected_ids unix_tcp_demo = Some [1]"
  by code_simp+

section \<open>Servers in service\<close>

text \<open>A TCP server with one connected client on descriptor 5.\<close>

definition tcp_demo :: aworld where
  "tcp_demo = (demo_world [(demo_server InetDomainSocketTcpServer)
       \<lparr>s_clients := [newTcpClientInfo 1 5 []], s_run_thread := True, s_server_fd := 4, s_epoll_fd := 3\<rparr>])
     \<lparr>trace := [Call (Epoll_Create 20) (reply_ret 3), Call (Socket AF_INET SOCK_STREAM) (reply_ret 4),
        Call (Epoll_Add 3 4) (reply_ret 0), Call (Accept 4) (reply_ret 5), Call (Epoll_Add 3 5) (reply_ret 0),
        Call New_Client (reply_ptr 1), Notified Base_Listener FACTORY (Client_Connected 8 1)]\<rparr>"

text \<open>A libwebsockets server with two connected clients, on the descriptors 5 and 6.\<close>

definition lws_world :: "server_kind \<Rightarrow> client_info list \<Rightarrow> aworld" where
  "lws_world kind cs = (demo_world [(demo_server kind)\<lparr>s_clients := cs, s_run_thread := True\<rparr>])
     \<lparr>trace := [Call (Lws_Create_Context (lws_create_info 0 (demo_server kind) 8080 [] 0 0)) (reply_ptr 7),
        Call New_Client (reply_ptr 1), Notified Base_Listener FACTORY (Client_Connected 8 1),
        Call New_Client (reply_ptr 2), Notified Base_Listener FACTORY (Client_Connected 8 2)],
      http_context := 7, ws_context := 7\<rparr>"

definition http_demo :: aworld where
  "http_demo = lws_world HttpTcpServer [newHttpTcpClientInfo 1 5 [] 5, newHttpTcpClientInfo 2 6 [] 6]"

definition ws_demo :: aworld where
  "ws_demo = lws_world WebSocketTcpServer
     [newWebSocketTcpClientInfo 1 5 [] 5 ''sender'', newWebSocketTcpClientInfo 2 6 [] 6 ''receiver'']"

lemma lws_world_simps [simp]:
  "servers (lws_world kind cs) = [(demo_server kind)\<lparr>s_clients := cs, s_run_thread := True\<rparr>]"
  "the_server 0 (lws_world kind cs) = (demo_server kind)\<lparr>s_clients := cs, s_run_thread := True\<rparr>"
  "http_context (lws_world kind cs) = 7" "ws_context (lws_world kind cs) = 7"
  "context_user (trace (lws_world kind cs)) 7 = 0" "live_ptrs (trace (lws_world kind cs)) = {1, 2}"
  "notified Base_Listener FACTORY (trace (lws_world kind cs)) = [Client_Connected 8 1, Client_Connected 8 2]"
  by (auto simp: lws_world_def demo_world_def the_server_def context_user_def lws_create_info_def
      reply_ptr_def reply_ret_def live_ptrs_def)

lemma demo_server_id [simp]: "s_server_id (demo_server kind) = 8"
  by (simp add: demo_server_def newBaseServer_def addEventListener_def demo_env_def server_key_def to_string_bool_def)

lemma tcp_demo_inv: "tcp_inv FACTORY 0 tcp_demo" "echo_ready 0 tcp_demo" "5 \<in> set (client_fds (s_clients (the_server 0 tcp_demo)))"
  by (auto simp: tcp_demo_def demo_world_def the_server_def tcp_inv_def tcp_struct_def tcp_table_def ids_of_def
      session_at_def getFd_def newTcpClientInfo_def hash_ptr_def open_fds_def epoll_regs_def live_ptrs_def
      reply_ret_def reply_ptr_def echo_ready_def wired_def newJsonConfiguration_def)

lemma tcp_demo_read: "r_ret (demo_kernel tr (Read fd TCP_BUFFER_LENGTH)) = 2"
  "r_data (demo_kernel tr (Read fd TCP_BUFFER_LENGTH)) = ''hi''"
  by (simp_all add: demo_kernel_def reply_ret_def TCP_BUFFER_LENGTH_def)

lemma http_demo_inv: "lws_inv FACTORY 0 http_demo" "http_serving 0 http_demo"
  by (auto simp: http_demo_def lws_inv_def lws_struct_def tcp_table_def ids_of_def session_at_def
      inj_on_def http_serving_def)

lemma ws_demo_inv: "lws_inv FACTORY 0 ws_demo" "ws_clients_ok 0 ws_demo" "ws_tables_ok ws_demo"
  by (auto simp: ws_demo_def lws_inv_def lws_struct_def tcp_table_def ids_of_def session_at_def
      inj_on_def ws_clients_ok_def ws_tables_ok_def id_table_def)

lemma ws_demo_written: "ws_written (trace ws_demo) = []" "m_server_factory ws_demo = FACTORY_PTR"
  "List.map (\<lambda>c. (client_wsi c, m)) (recipients 8 ''receiver'' (servers ws_demo)) = [(6, m)]"
  by (simp_all add: ws_demo_def lws_world_def demo_world_def ws_written_def recipients_def
      server_recipients_def strcmp_eq_def c_str_def NUL_def)

lemma demo_fd [simp]: "r_ret (demo_kernel tr (Lws_Get_Socket_Fd wsi)) = int wsi"
  by (simp add: demo_kernel_def reply_ret_def)

lemma demo_known: "fd_known 0 5 http_demo" "fd_known 0 6 http_demo" "fd_known 0 5 ws_demo" "fd_known 0 6 ws_demo"
  by (simp_all add: fd_known_def http_demo_def ws_demo_def)

text \<open>A datagram of a Unix UDP server before an application that only listens.\<close>

lemma silent_dispatch:
  assumes "m_server_listeners w = [ANYSERVER]" "m_listeners w = [u]" "\<not> enable_echo_test (m_configuration w)"
  shows "dispatch k (\<lambda>_ _ _. []) FACTORY e w
    = Inr (observe (Notified User_Listener u e) (observe (Notified Factory_Listener ANYSERVER e) w))"
  using assms
  by (auto simp: dispatch_def factory_event_def factory_forward_def any_event_def notify_users_def
      user_event_def factory_echo_def split: event.split)

lemma demo_datagram:
  "case unix_udp_thread demo_kernel (dispatch demo_kernel (\<lambda>_ _ _. [])) 0 1
     (demo_world [demo_server UnixDomainSocketUdpServer]) of
     Inl e \<Rightarrow> False
   | Inr (b, w') \<Rightarrow> length (notified User_Listener LISTENER (trace w')) = 3"
  by (simp add: unix_udp_thread_def run_loop.simps thread_entry_def unix_udp_iteration_def udp_session_def
      sys_def Let_def add_client_def addClientInfo_def notify_def silent_dispatch demo_world_def the_server_def
      upd_server_def observe_def demo_kernel_def reply_ret_def reply_ptr_def free_ptr_def live_ptrs_def
      newUdpClientInfo_def hash_ptr_def UDP_BUFFER_LENGTH_def remove_client_def store_removed_def
      removeClientInfo_def list_remove_def newJsonConfiguration_def notified_def)

section \<open>A configuration\<close>

definition demo_info :: "string \<Rightarrow> server_kinds \<Rightarrow> server_info" where
  "demo_info ty kinds = (newServerInfo ty kinds)
     \<lparr>si_enable := True, si_bind := ''8080'', si_protocols := [''sender'', ''receiver'']\<rparr>"

definition demo_config :: configuration where
  "demo_config = newJsonConfiguration
     \<lparr>c_name := ''demo'', server_infos := [demo_info ''websocket'' WEBSOCKET,
        (demo_info ''http'' HTTP)\<lparr>si_enable := False, si_tcp := False\<rparr>, demo_info ''unix_domainsocket'' UNIXDS],
      c_log := newLog\<lparr>enable_info := True, directory := ''/tmp'', filesize := 4096\<rparr>\<rparr>"

section \<open>A program with two servers\<close>

text \<open>
  From the configuration file on: a Unix TCP server and an inet UDP server, on a kernel with two
  sockets. The thread of each is entered and the first makes a pass of its loop, in which a client
  connects.
\<close>

definition system_kernel :: kernel where
  "system_kernel tr c = (case c of Socket f t \<Rightarrow> reply_ret (free_fd [4, 8] tr) | _ \<Rightarrow> demo_kernel tr c)"

lemma system_kernel_ok: "kernel_ok system_kernel" "-1 \<le> r_ret (system_kernel tr (Socket f t))"
  "0 \<le> r_ret (system_kernel tr (Recvfrom fd n))"
proof -
  have "os_ok_call tr c (system_kernel tr c)" for tr c
    using kernel_okD [OF demo_kernel_ok, of tr c] free_fd_fresh
    by (cases c) (simp_all add: system_kernel_def reply_ret_def)
  then show "kernel_ok system_kernel" by (simp add: kernel_ok_def)
  show "-1 \<le> r_ret (system_kernel tr (Socket f t))"
    by (auto simp: system_kernel_def reply_ret_def free_fd_def split: list.split dest: filter_eq_ConsD)
  show "0 \<le> r_ret (system_kernel tr (Recvfrom fd n))"
    by (simp add: system_kernel_def demo_kernel_def reply_ret_def)
qed

definition system_config :: configuration where
  "system_config = newJsonConfiguration\<lparr>c_name := ''demo'', server_infos := [(demo_info ''unix_domainsocket'' UNIXDS)\<lparr>si_bind := ''/tmp/s''\<rparr>,
     (demo_info ''inet_domainsocket'' INETDS)\<lparr>si_tcp := False\<rparr>]\<rparr>"

definition system_env :: env where
  "system_env = demo_env\<lparr>e_kernel := system_kernel,
     e_files := (\<lambda>f. if f = ''cfg'' then Some (FastWriter_write demo_double (config_json system_config)) else None)\<rparr>"

definition new_program :: aworld where
  "new_program = (demo_world [])\<lparr>f_exists := False, m_server_factory := 0, m_config_file := ''cfg''\<rparr>"

definition configured_program :: aworld where
  "configured_program = (let made = (\<lambda>kind si. addEventListener FACTORY
        (newBaseServer (e_hash demo_env) kind (si_header si) (si_bind si) (si_tcp si) (si_max_client si)))
    in (demo_world [made UnixDomainSocketTcpServer (server_infos system_config ! 0),
          made InetDomainSocketUdpServer (server_infos system_config ! 1)])
      \<lparr>m_configuration := system_config, the_logger := configure_logger system_config (initial_logger (\<lambda>_. None)),
       m_config_file := ''cfg''\<rparr>)"

lemma system_config_read:
  "init_configuration (e_double system_env) (e_files system_env) (m_config_file new_program) newJsonConfiguration
     = (True, system_config)"
proof -
  have ok: "config_ok system_config" "config_clean system_config"
    by (simp_all add: config_ok_def config_clean_def server_clean_def system_config_def
      demo_info_def newServerInfo_def newJsonConfiguration_def newCapabilities_def newLog_def m_server_kinds_def)
  have "e_double system_env = demo_double" "m_config_file new_program = ''cfg''"
    by (simp_all add: system_env_def demo_env_def new_program_def)
  with apply_config_json [OF ok(1), of demo_double] parse_written_config [OF ok(2), of demo_double] show ?thesis
    by (simp add: init_configuration_def isExistFile_def parse_configuration_def system_env_def c_str_def NUL_def)
qed

lemma system_config_sockets: "socket_config (e_hash system_env) system_config"
  by (simp add: socket_config_def system_config_def creates_def demo_info_def newServerInfo_def system_env_def demo_env_def
      server_key_def to_string_bool_def)

definition caught :: "bool \<times> aworld \<Rightarrow> fault + bool \<times> aworld" where
  "caught r = (if \<not> fst r then Inr (False, snd r)
     else let (p, s) = HandleSignals (\<lambda>_. True) signal_ids ANYSERVER (m_interceptor (snd r), signals (snd r))
           in Inr (True, (snd r)\<lparr>m_interceptor := p, signals := s\<rparr>))"

lemma system_init: "any_init system_env (\<lambda>_. True) new_program = rbind (init_all system_kernel [0, 1] configured_program) caught"
proof -
  let ?w = "factory_addEventListener ANYSERVER ((newServerFactory new_program)\<lparr>m_server_factory := FACTORY_PTR\<rparr>)"
  let ?v = "?w\<lparr>m_configuration := system_config, the_logger := configure_logger system_config (the_logger ?w)\<rparr>"
  have "create_servers system_env (c_capabilities system_config) (server_infos system_config) ?v
      = Inr (True, configured_program)"
    by (simp add: system_config_def configured_program_def demo_info_def newServerInfo_def create_server_def add_server_def
        Let_def system_env_def demo_env_def new_program_def demo_world_def newServerFactory_def factory_addEventListener_def
        newJsonConfiguration_def)
  moreover have "check_restrict_configuration system_config"
    by (simp add: check_restrict_configuration_def system_config_def newJsonConfiguration_def newCapabilities_def)
  moreover have "m_config_file ?w = m_config_file new_program" "m_configuration ?w = newJsonConfiguration"
    by (simp_all add: factory_addEventListener_def newServerFactory_def)
  moreover have "[0 ..< length (servers configured_program)] = [0, 1]" "e_kernel system_env = system_kernel"
    by (simp_all add: configured_program_def Let_def system_env_def upt_rec)
  moreover have "any_init system_env (\<lambda>_. True) new_program
      = rbind (factory_init system_env (m_config_file ?w) ?w) caught"
    by (simp add: any_init_def new_program_def factory_getInstance_def newServerFactory_def Let_def caught_def
        factory_addEventListener_def demo_world_def) (rule arg_cong [where f = "rbind _"], auto simp: caught_def fun_eq_iff)
  ultimately show ?thesis using system_config_read by (simp add: factory_init_def)
qed

definition system_pass :: "aworld \<Rightarrow> fault + aworld" where
  "system_pass w = server_pass False system_kernel (dispatch system_kernel (\<lambda>_ _ _. [])) 0 (thread_entry 1 (thread_entry 0 w))"

lemma system_demo:
  "case rbind (init_all system_kernel [0, 1] configured_program) caught of Inl e \<Rightarrow> False | Inr (ok, w1) \<Rightarrow>
   (case any_start system_kernel w1 of Inl e \<Rightarrow> False | Inr (ok', w2) \<Rightarrow>
    (case system_pass w2 of Inl e \<Rightarrow> False | Inr w \<Rightarrow> ok \<and> ok' \<and> length (servers w2) = 2 \<and> length (servers w) = 2
      \<and> s_thread (the_server 0 w2) = Thread_Created \<and> s_thread (the_server 1 w2) = Thread_Created
      \<and> List.map ci_id (s_clients (the_server 0 w)) = [1]))"
  by code_simp

lemma returned: "(case r of Inl e \<Rightarrow> False | Inr x \<Rightarrow> P x) \<Longrightarrow> \<exists>x. r = Inr x \<and> P x"
  by (cases r) simp_all

lemma returned_pair: "(case r of Inl e \<Rightarrow> False | Inr (a, b) \<Rightarrow> P a b) \<Longrightarrow> \<exists>a b. r = Inr (a, b) \<and> P a b"
  by (cases r) auto

lemma system_run:
  "\<exists>w1 w2 w. any_init system_env (\<lambda>_. True) new_program = Inr (True, w1) \<and> any_start system_kernel w1 = Inr (True, w2)
     \<and> reachable False system_kernel (\<lambda>_ _ _. []) w2 w \<and> length (servers w) = 2 \<and> ids_of 0 w = {1}"
proof -
  from returned_pair [OF system_demo [folded system_init]] obtain ok w1 where
    w1: "any_init system_env (\<lambda>_. True) new_program = Inr (ok, w1)" and rest: "case any_start system_kernel w1 of
     Inl e \<Rightarrow> False | Inr (ok', w2) \<Rightarrow> (case system_pass w2 of Inl e \<Rightarrow> False | Inr w \<Rightarrow> ok \<and> ok' \<and> length (servers w2) = 2
      \<and> length (servers w) = 2 \<and> s_thread (the_server 0 w2) = Thread_Created \<and> s_thread (the_server 1 w2) = Thread_Created
      \<and> List.map ci_id (s_clients (the_server 0 w)) = [1])" by blast
  from returned_pair [OF rest] obtain ok' w2 where w2: "any_start system_kernel w1 = Inr (ok', w2)"
    and rest: "case system_pass w2 of Inl e \<Rightarrow> False | Inr w \<Rightarrow> ok \<and> ok' \<and> length (servers w2) = 2
      \<and> length (servers w) = 2 \<and> s_thread (the_server 0 w2) = Thread_Created \<and> s_thread (the_server 1 w2) = Thread_Created
      \<and> List.map ci_id (s_clients (the_server 0 w)) = [1]" by blast
  from returned [OF rest] w1 w2 obtain w where
    r: "any_init system_env (\<lambda>_. True) new_program = Inr (True, w1)" "any_start system_kernel w1 = Inr (True, w2)"
    "system_pass w2 = Inr w" "length (servers w2) = 2" "s_thread (the_server 0 w2) = Thread_Created"
    "s_thread (the_server 1 w2) = Thread_Created" "length (servers w) = 2" "List.map ci_id (s_clients (the_server 0 w)) = [1]"
    by auto
  let ?e = "thread_entry 0 w2"
  have e: "length (servers ?e) = 2" "s_thread (the_server 0 ?e) = Thread_Running" "s_run_thread (the_server 0 ?e)"
    "the_server 1 ?e = the_server 1 w2"
    using r(4) by (simp_all add: thread_entry_def)
  have f: "the_server 0 (thread_entry 1 ?e) = the_server 0 ?e" "length (servers (thread_entry 1 ?e)) = 2"
    unfolding thread_entry_def [of 1] using e(1) by simp_all
  have "reachable False system_kernel (\<lambda>_ _ _. []) w2 ?e"
    by (rule reachable_step [OF reachable_refl sys_step.enter]) (use r in simp_all)
  then have "reachable False system_kernel (\<lambda>_ _ _. []) w2 (thread_entry 1 ?e)"
    by (rule reachable_step [OF _ sys_step.enter]) (use r e in simp_all)
  then have "reachable False system_kernel (\<lambda>_ _ _. []) w2 w"
    by (rule reachable_step [OF _ sys_step.pass [of 0]]) (use r(3) e f in \<open>simp_all add: system_pass_def\<close>)
  moreover have "ids_of 0 w = {1}"
  proof -
    have "ids_of 0 w = set (List.map ci_id (s_clients (the_server 0 w)))" by (simp add: ids_of_def)
    then show ?thesis by (simp add: r(8))
  qed
  ultimately show ?thesis using r(1,2,7) by blast
qed

section \<open>A program with two servers on libwebsockets\<close>

text \<open>Two HTTP servers, on a kernel that hands out up to two contexts.\<close>

definition lws_kernel :: kernel where
  "lws_kernel tr c = (case c of
      Lws_Create_Context info \<Rightarrow>
        reply_ptr (case filter (\<lambda>p. p \<notin> live_contexts tr) [11, 12] of [] \<Rightarrow> 0 | p # _ \<Rightarrow> p)
    | _ \<Rightarrow> demo_kernel tr c)"

lemma lws_kernel_fresh: "fresh_contexts lws_kernel"
  by (auto simp: fresh_contexts_def lws_kernel_def reply_ptr_def split: list.splits dest: filter_eq_ConsD)

definition lws_config :: configuration where
  "lws_config = newJsonConfiguration\<lparr>c_name := ''demo'', server_infos :=
     [demo_info ''http'' HTTP, (demo_info ''http'' HTTP)\<lparr>si_bind := ''8081''\<rparr>]\<rparr>"

definition lws_env :: env where
  "lws_env = demo_env\<lparr>e_kernel := lws_kernel,
     e_files := (\<lambda>f. if f = ''cfg'' then Some (FastWriter_write demo_double (config_json lws_config)) else None)\<rparr>"

lemma lws_config_read:
  "init_configuration (e_double lws_env) (e_files lws_env) (m_config_file new_program) newJsonConfiguration
     = (True, lws_config)"
proof -
  have ok: "config_ok lws_config" "config_clean lws_config"
    by (simp_all add: config_ok_def config_clean_def server_clean_def lws_config_def
      demo_info_def newServerInfo_def newJsonConfiguration_def newCapabilities_def newLog_def m_server_kinds_def)
  have "e_double lws_env = demo_double" "m_config_file new_program = ''cfg''"
    by (simp_all add: lws_env_def demo_env_def new_program_def)
  with apply_config_json [OF ok(1), of demo_double] parse_written_config [OF ok(2), of demo_double] show ?thesis
    by (simp add: init_configuration_def isExistFile_def parse_configuration_def lws_env_def c_str_def NUL_def)
qed

definition lws_factory :: aworld where
  "lws_factory = (let w = factory_addEventListener ANYSERVER ((newServerFactory new_program)\<lparr>m_server_factory := FACTORY_PTR\<rparr>)
     in w\<lparr>m_configuration := lws_config, the_logger := configure_logger lws_config (the_logger w)\<rparr>)"

definition lws_init :: "fault + bool \<times> aworld" where
  "lws_init = rbind (create_servers lws_env (c_capabilities lws_config) (server_infos lws_config) lws_factory) (\<lambda>(ok, w).
     if \<not> ok then Inr (False, w) else init_all lws_kernel [0 ..< length (servers w)] w)"

lemma lws_init: "any_init lws_env (\<lambda>_. True) new_program = rbind lws_init caught"
proof -
  let ?w = "factory_addEventListener ANYSERVER ((newServerFactory new_program)\<lparr>m_server_factory := FACTORY_PTR\<rparr>)"
  have "check_restrict_configuration lws_config"
    by (simp add: check_restrict_configuration_def lws_config_def newJsonConfiguration_def newCapabilities_def)
  moreover have "m_config_file ?w = m_config_file new_program" "m_configuration ?w = newJsonConfiguration"
    by (simp_all add: factory_addEventListener_def newServerFactory_def)
  moreover have "e_kernel lws_env = lws_kernel" by (simp add: lws_env_def)
  ultimately have "factory_init lws_env (m_config_file ?w) ?w = lws_init"
    using lws_config_read by (simp add: factory_init_def lws_init_def lws_factory_def Let_def cong: if_cong)
  moreover have "any_init lws_env (\<lambda>_. True) new_program
      = rbind (factory_init lws_env (m_config_file ?w) ?w) caught"
    by (simp add: any_init_def new_program_def factory_getInstance_def newServerFactory_def Let_def caught_def
        factory_addEventListener_def demo_world_def) (rule arg_cong [where f = "rbind _"], auto simp: caught_def fun_eq_iff)
  ultimately show ?thesis by simp
qed

lemma lws_demo:
  "case rbind lws_init caught of Inl e \<Rightarrow> False | Inr (ok, w1) \<Rightarrow>
   (case any_start lws_kernel w1 of Inl e \<Rightarrow> False | Inr (ok', w2) \<Rightarrow>
      ok \<and> ok' \<and> http_context w2 = 12 \<and> List.map s_kind (servers w2) = [HttpTcpServer, HttpTcpServer]
      \<and> s_thread (the_server 0 w2) = Thread_Created \<and> \<not> s_run_thread (the_server 1 w2))"
  by code_simp

lemma lws_run:
  "\<exists>w1 w2. any_init lws_env (\<lambda>_. True) new_program = Inr (True, w1) \<and> any_start lws_kernel w1 = Inr (True, w2)
     \<and> reachable False lws_kernel (\<lambda>_ _ _. []) w2 (thread_entry 0 w2) \<and> http_context w2 = 12
     \<and> List.map s_kind (servers w2) = [HttpTcpServer, HttpTcpServer] \<and> \<not> s_run_thread (the_server 1 w2)"
proof -
  from returned_pair [OF lws_demo [folded lws_init]] obtain ok w1 where
    w1: "any_init lws_env (\<lambda>_. True) new_program = Inr (ok, w1)" and rest: "case any_start lws_kernel w1 of
      Inl e \<Rightarrow> False | Inr (ok', w2) \<Rightarrow> ok \<and> ok' \<and> http_context w2 = 12
        \<and> List.map s_kind (servers w2) = [HttpTcpServer, HttpTcpServer]
        \<and> s_thread (the_server 0 w2) = Thread_Created \<and> \<not> s_run_thread (the_server 1 w2)" by blast
  from returned_pair [OF rest] w1 obtain w2 where
    w2: "any_init lws_env (\<lambda>_. True) new_program = Inr (True, w1)" "any_start lws_kernel w1 = Inr (True, w2)"
      "http_context w2 = 12" "List.map s_kind (servers w2) = [HttpTcpServer, HttpTcpServer]"
      "s_thread (the_server 0 w2) = Thread_Created" "\<not> s_run_thread (the_server 1 w2)" by auto
  have "0 < length (servers w2)" using arg_cong [OF w2(4), of length] by simp
  then have "reachable False lws_kernel (\<lambda>_ _ _. []) w2 (thread_entry 0 w2)"
    using w2(5) by (intro reachable_step [OF reachable_refl sys_step.enter])
  with w2 show ?thesis by (intro exI conjI)
qed

end
