(* ===== verification/Spec2Isabelle.thy ===== *)
theory Spec2Isabelle
  imports Demo
begin

text \<open>
  A model of AnyServer (anyserver/src, anyserver/include), a C++ library that runs websocket, HTTP and
  inet and Unix domain socket servers from one JSON configuration and hands what their clients send
  to the listeners of an application, and of its two example programs (example/).

  The program. \<open>AnyServerImpl\<close> is the public object; \<open>init\<close> makes it a listener of the
  \<open>ServerFactory\<close>, which reads the configuration, creates one server per enabled entry and makes
  itself the listener of each; \<open>start\<close> creates a thread per server. A server's thread keeps the
  table of its clients and announces connections, messages and disconnections to its listener, from
  where they pass through the factory and the public object to the application; the application
  answers with \<open>sendToServer\<close>, \<open>sendToClient\<close> and \<open>stop\<close>, which go the other way.

  State and effects. The state of the program is the record \<open>world\<close> (the servers; Server_World),
  extended by \<open>fworld\<close> (the factory, its configuration and the logger) and \<open>aworld\<close> (the public
  object and the signal dispositions). Operations take and return it; \<open>fault + 'a\<close> is a run that may
  end in undefined behaviour or an uncaught exception (null and indeterminate pointers, reads and
  writes past a buffer, bad casts, \<open>bad_alloc\<close>). What the program asks of the kernel, libwebsockets and
  the C library is a call with a reply (Os); the replies are a parameter \<open>k\<close>, a function of the
  history, on which only documented behaviour is assumed (\<open>kernel_ok\<close>: descriptors and allocations
  that are handed out are not in use, a read returns at most what was asked for). The history of calls
  and notifications is part of the state. String hash, double conversions, files and uninitialised
  memory are parameters as well (\<open>env\<close>).

  Theories and sources.
  Prelude: faults, sequencing, C strings and buffers. Std_Conv: \<open>stoi\<close>, \<open>htons\<close>, decimal text.
  Os: the interface to the kernel and libwebsockets, the contract of the kernel, and the specification
  of a valid sequence of sessions (\<open>session_run\<close>).
  Base_Server: client records and the client table (base_server_impl); the locale
  \<open>client_registry\<close> states what a table promises, and is interpreted for both keys.
  Server_World: the servers and the \<open>NOTIFY\<close> macros; the locale \<open>base_listener\<close> states what a server
  relies on in its listeners, and AnyServer interprets it on the program's own chain of listeners.
  Tcp_Server, Tcp_Session: the two epoll servers and their session proofs. Udp_Server: the two
  datagram servers. Lws_Common, Http_Server, WebSocket_Server: the two servers on libwebsockets.
  Signal_Interceptor: posix_signal_interceptor. Logger: logger.
  JSON (external/json/jsoncpp.cpp). Json_Value: a value as the configuration sees it, with lists and sorted
  members. Json_Store: \<open>Json::Value\<close> as it is stored - one sorted map for arrays and objects - with its
  operations, its invariant \<open>value_ok\<close>, and the view \<open>json_of\<close> that leads to Json_Value. Json_Order: its
  comparisons; the locale \<open>weak_order\<close> is what a map or a sort asks of them, interpreted on the keys and on
  the values without doubles. Json_Path: \<open>Json::Path\<close>. Json_Reader: \<open>Json::Reader\<close>; Json_Parsed: what it makes
  can be stored. Json_Text: a grammar of the texts of a value, white space included, and that the reader
  reads every text back. Json_Our_Reader: \<open>Json::OurReader\<close>, the second reader, and its builder; Json_Readers: the second
  reader against the first. Json_Writer, Json_Styled: the writers; Json_Layout: the locale \<open>styled_writer\<close> is the
  contract of a class of writers, under which what it writes is a text, and it is interpreted on the classes.
  Configuration:
  configuration, filesystem. Server_Factory: server_factory. AnyServer: anyserver, anyserver_impl.
  Examples: the listeners and \<open>main\<close> of the examples. Delivery, Application: how a message crosses
  the layers. System: the running program, in which the passes of all threads, signals and calls of the
  public interface follow each other in any order (\<open>sys_step\<close>); a step of one server is foreign to the
  others, which carries the invariants of the domain socket servers through every interleaving. Boot: \<open>init\<close> and
  \<open>start\<close> establish them. Shared_Context: the static contexts of the servers on libwebsockets in the same program -
  \<open>touches\<close> says whose client tables a step may change. Demo: concrete kernels and worlds on which the properties are exercised.

  Properties. C1 and C2: the whole program, from
  its configuration file on, with domain socket servers; C3: with servers on libwebsockets. C4 to C11: each server shows its
  listener a valid sequence of sessions, and what happens when a call it does not check fails.
  C12 to C16: the protocols of the websocket server and the
  messages sent to a protocol. C17 to C25: the JSON readers and writers, stored values and
  paths. C26 to C28: the configuration, and the
  servers made from it. C29 to
  C32: start, stop and sending. C33 to
  C35: events and the application. C36,
  C37: signals and the public object. C38,
  C39, C40: the logger, boundaries and tables.

  Loops and fuel. A thread's loop runs while its flag is set and need not return; \<open>run_loop\<close> runs at
  most \<open>n\<close> passes, and every property of it holds for all \<open>n\<close>. The JSON reader recurses on the nesting
  left below its limit and on the length of the input; C17 and C24 show that this is always enough.
  \<open>replaceAll\<close> and \<open>makePath\<close> are partial functions, since their loops need not end
  (C13, C23).

  Not modelled. Lines printed on the console, the debug lines of the logger inside the other
  components, and the contents of error messages. Threads run a pass of their loop at a time, in
  any order; a pass is not interrupted by another, and the mutex of the logger is left out. libwebsockets, OpenSSL and zlib are
  headers only and appear through their documented calls. Of jsoncpp: comments that are kept and the offsets of values, iterators, and the list of error messages; the
  printing, reading and comparing of doubles are parameters. \<open>showClientList\<close> only prints. The files of port/
  are empty.
\<close>

section \<open>The running program\<close>





text \<open>
  C3. Of several websocket servers, or several HTTP servers, only the last one is served. In every state
  of the program - \<open>init\<close> and \<open>start\<close> with any configuration, then passes of the threads, signals and calls of the
  public interface in any order - each of them has a live context of its own, but the static member
  is that of the last: the callbacks of every thread of the class go to the last server, the others never
  get a client. The destructors of the HTTP servers all destroy that one context, once for each server.
\<close>

theorem last_context_is_served:
  assumes "fresh_contexts (e_kernel env)" "m_server_factory w = 0" "\<not> f_exists w"
    and "any_init env catchable w = Inr (True, w1)" "any_start (e_kernel env) w1 = Inr (ok, w2)"
    and "reachable debug (e_kernel env) app w2 v"
    and kind: "kind \<in> {WebSocketTcpServer, HttpTcpServer}" "of_class kind v [0 ..< length (servers v)] = is @ [i]"
  shows "(\<forall>j \<in> set (is @ [i]). \<exists>p \<in> live_contexts (trace v). context_user (trace v) p = j)
     \<and> class_context kind v \<in> live_contexts (trace v) \<and> context_user (trace v) (class_context kind v) = i
     \<and> (\<forall>j \<in> set is. s_clients (the_server j v) = [])
     \<and> (kind = WebSocketTcpServer \<longrightarrow> callback_websocket k up c v
          = (if s_run_thread (the_server i v) then ws_switch k up i c v else Inr v))
     \<and> (kind = HttpTcpServer \<longrightarrow> callback_http k up c v
          = (if s_run_thread (the_server i v) then http_switch k up i c v else Inr v))
     \<and> (kind = HttpTcpServer \<longrightarrow> (\<exists>v' rs. rfold (server_destroy k) (is @ [i]) v = Inr v' \<and> length rs = Suc (length is)
          \<and> trace v' = trace v @ List.map (Call (Lws_Context_Destroy (http_context v))) rs))"
proof -
  let ?all = "[0 ..< length (servers v)]"
  note p = contexts_of_program [OF assms(1-6) kind(1)]
  have ids: "j < length (servers v)" "s_kind (the_server j v) = kind" if "j \<in> set (is @ [i])" for j
    using that unfolding kind(2) [symmetric] by (simp_all add: of_class_def)
  have own: "\<exists>p \<in> live_contexts (trace v). context_user (trace v) p = j" if "j \<in> set (is @ [i])" for j
    using p(1) ids [OF that] kind(1) unfolding contexts_of_def by auto
  have static: "class_context kind v \<in> live_contexts (trace v)" "context_user (trace v) (class_context kind v) = i"
    using p(1) kind unfolding contexts_of_def by auto
  then have live: "class_context kind v \<noteq> 0" by auto
  have "distinct (is @ [i])" unfolding kind(2) [symmetric] by (simp add: of_class_def)
  then have "s_clients (the_server j v) = []" if "j \<in> set is" for j
    using p(2) [of j] that unfolding kind(2) by auto
  then show ?thesis
    using own static live http_destructors [of "is @ [i]" v k] ids
    by (auto simp: callback_websocket_def callback_http_def class_context_def)
qed

theorem last_context_is_served_witness:
  "\<exists>v :: aworld. s_run_thread (the_server 0 v) \<and> context_user (trace v) (http_context v) = 1
     \<and> callback_http lws_kernel quiet_up (cb LWS_CALLBACK_SERVER_NEW_CLIENT_INSTANTIATED 5 []) v = Inr v
     \<and> s_clients (the_server 0 v) = []
     \<and> (\<exists>v' rs. rfold (server_destroy lws_kernel) [0, 1] v = Inr v' \<and> length rs = 2
          \<and> trace v' = trace v @ List.map (Call (Lws_Context_Destroy 12)) rs)"
proof -
  from lws_run obtain w1 w2 where r: "any_init lws_env (\<lambda>_. True) new_program = Inr (True, w1)"
    "any_start (e_kernel lws_env) w1 = Inr (True, w2)"
    "reachable False (e_kernel lws_env) (\<lambda>_ _ _. []) w2 (thread_entry 0 w2)" "http_context w2 = 12"
    "List.map s_kind (servers w2) = [HttpTcpServer, HttpTcpServer]" "\<not> s_run_thread (the_server 1 w2)"
    by (auto simp: lws_env_def)
  let ?v = "thread_entry 0 w2"
  have len: "length (servers w2) = 2" using arg_cong [OF r(5), of length] by simp
  have v: "s_run_thread (the_server 0 ?v)" "\<not> s_run_thread (the_server 1 ?v)" "http_context ?v = 12" "length (servers ?v) = 2"
    using r(4,6) len by (simp_all add: thread_entry_def)
  have "List.map s_kind (servers ?v) = [HttpTcpServer, HttpTcpServer]"
    using map_upd_same [of s_kind "\<lambda>s. s\<lparr>s_run_thread := True, s_thread := Thread_Running\<rparr>" "servers w2" 0] r(5)
    by (simp add: thread_entry_def upd_server_def)
  then have "of_class HttpTcpServer ?v [0 ..< length (servers ?v)] = [0] @ [1]"
    using v(4) by (simp add: of_class_def upt_rec the_server_def list_eq_iff_nth_eq All_less_Suc numeral_2_eq_2)
  from last_context_is_served [OF _ _ _ r(1-3) _ this, of lws_kernel quiet_up "cb LWS_CALLBACK_SERVER_NEW_CLIENT_INSTANTIATED 5 []"]
  show ?thesis using v lws_kernel_fresh
    by (intro exI [of _ ?v]) (simp add: lws_env_def new_program_def demo_world_def class_context_def numeral_2_eq_2)
qed

section \<open>Sessions of the epoll servers\<close>

text \<open>
  C4. From \<open>init\<close> of a new inet TCP server to any point of its thread, every listener sees a valid
  sequence of sessions: no client is connected twice, messages come from connected clients and fit
  their buffer, only connected clients are disconnected, and the connected clients are exactly those
  in the table. With listeners that do not fail, only an exhausted allocator or a \<open>bind\<close> string that
  is no number ends the run early.
\<close>

theorem inet_tcp_sessions:
  assumes k: "kernel_ok k" and new: "tcp_new l i w"
    and up: "\<And>l e v. \<exists>v'. up l e v = Inr v' \<and> calm v v'"
  shows "case inet_tcp_init k i w of
      Inl e \<Rightarrow> \<exists>s. e = Uncaught s
    | Inr (ok, w1) \<Rightarrow> ok \<longrightarrow> (case inet_tcp_thread k up i n w1 of
          Inl e \<Rightarrow> e = Uncaught ''bad_alloc''
        | Inr (ret, w2) \<Rightarrow> session_at l i w2 = Some (ids_of i w2))"
proof -
  have bl: "base_listener up" using up by unfold_locales (metis sum.inject(2))
  have tot: "\<exists>v'. up l e v = Inr v'" for l e v using up by blast
  note thread = base_listener.inet_tcp_thread_safe [OF bl k _ tot, of l i _ n]
  show ?thesis
  proof (cases "inet_tcp_init k i w")
    case (Inl e)
    then show ?thesis
      by (auto simp: inet_tcp_init_def Let_def rbind_Inl_iff stoi_def split: if_splits prod.splits)
  next
    case (Inr r)
    with inet_tcp_init_inv [OF k new] thread show ?thesis by (cases r) auto
  qed
qed

text \<open>
  C5. The same for the Unix TCP server, when \<open>socket\<close> returns -1 on failure, as documented: only a
  path too long for the address structure ends \<open>init\<close> early.
\<close>

theorem unix_tcp_sessions:
  assumes k: "kernel_ok k" and new: "tcp_new l i w"
    and fd: "\<And>tr. -1 \<le> r_ret (k tr (Socket AF_UNIX SOCK_STREAM))"
    and up: "\<And>l e v. \<exists>v'. up l e v = Inr v' \<and> calm v v'"
  shows "case unix_tcp_init k i w of
      Inl e \<Rightarrow> e = Buffer_Overflow \<and> SUN_PATH_SIZE \<le> length (c_str (s_bind (the_server i w)))
    | Inr (ok, w1) \<Rightarrow> ok \<longrightarrow> (case unix_tcp_thread k up i n w1 of
          Inl e \<Rightarrow> e = Uncaught ''bad_alloc''
        | Inr (ret, w2) \<Rightarrow> session_at l i w2 = Some (ids_of i w2))"
proof -
  have bl: "base_listener up" using up by unfold_locales (metis sum.inject(2))
  have tot: "\<exists>v'. up l e v = Inr v'" for l e v using up by blast
  note thread = base_listener.unix_tcp_thread_safe [OF bl k _ tot, of l i _ n]
  show ?thesis
  proof (cases "unix_tcp_init k i w")
    case (Inl e)
    with tcp_new_len [OF new] show ?thesis
      by (auto simp: unix_tcp_init_def Let_def rbind_Inl_iff strcpy_sun_path_def tcp_create_epoll_def
          tcp_socket_def unlink_stale_def sys_def split: if_splits prod.splits)
  next
    case (Inr r)
    with unix_tcp_init_inv [OF k new fd] thread show ?thesis by (cases r) auto
  qed
qed

section \<open>Datagrams\<close>

text \<open>
  C6. As long as \<open>recvfrom\<close> does not fail, the inet UDP server's thread keeps the session
  specification with no client left between two datagrams; it ends early only by an exhausted
  allocator, or in a debug build by the host name that a failed \<open>gethostbyaddr\<close> did not return.
\<close>

theorem inet_udp_sessions:
  assumes k: "kernel_ok k" and inv: "udp_inv l i w"
    and recv: "\<And>tr fd. 0 \<le> r_ret (k tr (Recvfrom fd UDP_BUFFER_LENGTH))"
    and up: "\<And>l e v. \<exists>v'. up l e v = Inr v' \<and> calm v v'"
  shows "case inet_udp_thread debug k up i n w of
      Inl e \<Rightarrow> e = Uncaught ''bad_alloc'' \<or> debug \<and> e = Null_Deref
    | Inr (ret, w') \<Rightarrow> session_at l i w' = Some {} \<and> s_clients (the_server i w') = []"
proof -
  have bl: "base_listener up" using up by unfold_locales (metis sum.inject(2))
  have tot: "\<exists>v'. up l e v = Inr v'" for l e v using up by blast
  have session: "e = Uncaught ''bad_alloc'' \<or> log = Some e"
    if "udp_session k up i log buf sa readn v = Inl e" for log buf sa readn v e
    by (rule base_listener.udp_session_fault [OF bl that]) (rule tot)
  have fault: "e = Uncaught ''bad_alloc'' \<or> debug \<and> e = Null_Deref"
    if "inet_udp_iteration debug k up i v = Inl e" for v e
    using that by (auto simp: inet_udp_iteration_def sys_def Let_def dest!: session split: if_splits)
  show ?thesis
    unfolding inet_udp_thread_def
    by (rule base_listener.udp_loop [OF bl _ fault refl base_listener.udp_entry_inv [OF bl inv]])
      (rule base_listener.inet_udp_iteration_inv [OF bl k _ recv])
qed

text \<open>
  A failed \<open>recvfrom\<close> of the Unix UDP server is delivered as a message: the -1 becomes the
  length 4294967295 of a buffer of 2048 bytes, and the session specification is violated.
\<close>

theorem unix_udp_failed_recvfrom:
  assumes inv: "udp_inv l i w" and up: "\<And>l e v. \<exists>v'. up l e v = Inr v' \<and> calm v v'"
    and fail: "r_ret (k (trace w) (Recvfrom (s_server_fd (the_server i w)) UDP_BUFFER_LENGTH)) = -1"
  shows "case unix_udp_iteration k up i w of
      Inl e \<Rightarrow> e = Uncaught ''bad_alloc''
    | Inr w' \<Rightarrow> (\<exists>p buf. notified Base_Listener l (trace w') = notified Base_Listener l (trace w)
          @ [Client_Connected (s_server_id (the_server i w)) p,
             Received (s_server_id (the_server i w)) p buf 4294967295,
             Client_Disconnected (s_server_id (the_server i w)) p]
          \<and> length buf = 2048) \<and> session_at l i w' = None"
proof -
  have bl: "base_listener up" using up by unfold_locales (metis sum.inject(2))
  let ?c = "Recvfrom (s_server_fd (the_server i w)) UDP_BUFFER_LENGTH"
  let ?w1 = "observe (Call ?c (k (trace w) ?c)) w"
  let ?buf = "fill UDP_BUFFER_LENGTH (r_data (k (trace w) ?c))"
  let ?run = "udp_session k up i None ?buf (r_addr (k (trace w) ?c)) (-1) ?w1"
  have run: "unix_udp_iteration k up i w = ?run"
    using fail by (simp add: unix_udp_iteration_def sys_def Let_def)
  have neg: "(word_of_int (- 1) :: uint) = 4294967295" by simp
  have inv1: "udp_inv l i ?w1" using inv by (simp add: udp_inv_def)
  show ?thesis
  proof (cases ?run)
    case (Inl e)
    with run base_listener.udp_session_fault [OF bl Inl] up show ?thesis by fastforce
  next
    case (Inr w')
    from base_listener.udp_session_events [OF bl inv1 Inr] show ?thesis using inv run Inr
      by (auto simp: session_at_def session_run_append udp_inv_def UDP_BUFFER_LENGTH_def
          unsigned_minus_1_eq_mask mask_eq_exp_minus_1)
  qed
qed

theorem inet_tcp_sessions_witness:
  "case inet_tcp_demo of Inl e \<Rightarrow> False | Inr (ret, w2) \<Rightarrow> session_at FACTORY 0 w2 = Some {1}"
  using inet_tcp_sessions [where up = quiet_up and n = 1,
      OF demo_kernel_ok demo_new(1) [of InetDomainSocketTcpServer] quiet_up_ok(1)] tcp_demos(1)
  by (auto simp: inet_tcp_demo_def connected_ids_def ids_of_def split: sum.splits prod.splits if_splits)

theorem unix_tcp_sessions_witness:
  "case unix_tcp_demo of Inl e \<Rightarrow> False | Inr (ret, w2) \<Rightarrow> session_at FACTORY 0 w2 = Some {1}"
proof -
  have "-1 \<le> r_ret (demo_kernel tr (Socket AF_UNIX SOCK_STREAM))" for tr
    by (auto simp: demo_kernel_def reply_ret_def free_fd_def split: list.splits dest: filter_eq_ConsD)
  from unix_tcp_sessions [where up = quiet_up and n = 1,
      OF demo_kernel_ok demo_new(1) [of UnixDomainSocketTcpServer] this quiet_up_ok(1)] tcp_demos(2)
  show ?thesis
    by (auto simp: unix_tcp_demo_def connected_ids_def ids_of_def split: sum.splits prod.splits if_splits)
qed

theorem inet_udp_sessions_witness:
  "case inet_udp_thread False demo_kernel quiet_up 0 1 (demo_world [demo_server InetDomainSocketUdpServer]) of
     Inl e \<Rightarrow> e = Uncaught ''bad_alloc''
   | Inr (ret, w') \<Rightarrow> session_at FACTORY 0 w' = Some {} \<and> s_clients (the_server 0 w') = []"
proof -
  have "0 \<le> r_ret (demo_kernel tr (Recvfrom fd UDP_BUFFER_LENGTH))" for tr fd
    by (simp add: demo_kernel_def reply_ret_def)
  from inet_udp_sessions [where up = quiet_up and n = 1 and debug = False,
      OF demo_kernel_ok demo_new(2) [of InetDomainSocketUdpServer] this quiet_up_ok(1)]
  show ?thesis by (auto split: sum.splits prod.splits)
qed

theorem unix_udp_failed_recvfrom_witness:
  "case unix_udp_iteration failing_recv quiet_up 0 (demo_world [demo_server UnixDomainSocketUdpServer]) of
     Inl e \<Rightarrow> e = Uncaught ''bad_alloc''
   | Inr w' \<Rightarrow> session_at FACTORY 0 w' = None"
  using unix_udp_failed_recvfrom [where up = quiet_up and k = failing_recv,
      OF demo_new(2) [of UnixDomainSocketUdpServer] quiet_up_ok(1)]
  by (simp add: failing_recv_def reply_ret_def split: sum.splits)

section \<open>HTTP requests\<close>

text \<open>
  C7. A request whose callbacks are not interleaved with others is delivered as one message from
  the client of its connection, whose body is the concatenation of the chunks, however it was cut.
\<close>

theorem http_request_is_one_message:
  assumes serving: "http_serving i w" and inv: "lws_inv l i w"
    and fd: "fd_known i (r_ret (k (trace w) (Lws_Get_Socket_Fd wsi))) w"
    and up: "\<And>l e v. \<exists>v'. up l e v = Inr v' \<and> calm v v'"
  shows "\<exists>w' c. rfold (callback_http k up) (http_request wsi line chunks) w = Inr w'
     \<and> c \<in> set (s_clients (the_server i w))
     \<and> getFd c = Some (r_ret (k (trace w) (Lws_Get_Socket_Fd wsi)))
     \<and> notified Base_Listener l (trace w') = notified Base_Listener l (trace w)
         @ [Received (s_server_id (the_server i w)) (ci_id c) (concat chunks) (of_nat (length (concat chunks)))]"
  using http_completion_event [where up = up and l = l and i = i and k = k and wsi = wsi and d = "[]"
      and w = "w\<lparr>http_req_body := concat chunks\<rparr>", OF _ up] inv fd
  by (auto simp: http_request_run [OF serving] fd_known_def)

theorem http_request_is_one_message_witness:
  "\<exists>w' c. rfold (callback_http demo_kernel quiet_up) (http_request 5 ''/'' [''he'', ''llo'']) http_demo = Inr w'
     \<and> getFd c = Some 5
     \<and> notified Base_Listener FACTORY (trace w') = [Client_Connected 8 1, Client_Connected 8 2,
         Received 8 (ci_id c) ''hello'' 5]"
  using http_request_is_one_message [where up = quiet_up and k = demo_kernel and wsi = 5 and line = "''/''"
      and chunks = "[''he'', ''llo'']", OF http_demo_inv(2,1) _ quiet_up_ok(1)] demo_known(1)
  by (fastforce simp: http_demo_def)

text \<open>
  C8. The body buffer is one for the whole process: when the request line of a second connection
  arrives between the body and the end of a request of a first one, the first client's message has
  the second client's body.
\<close>

theorem http_interleaving_mixes_bodies:
  assumes serving: "http_serving i w" and inv: "lws_inv l i w"
    and fd: "fd_known i (r_ret (k (trace w) (Lws_Get_Socket_Fd wsi))) w"
    and up: "\<And>l e v. \<exists>v'. up l e v = Inr v' \<and> calm v v'"
  shows "\<exists>w' c. rfold (callback_http k up)
       [cb LWS_CALLBACK_HTTP wsi line, cb LWS_CALLBACK_HTTP_BODY wsi body,
        cb LWS_CALLBACK_HTTP wsi' line', cb LWS_CALLBACK_HTTP_BODY wsi' body',
        cb LWS_CALLBACK_HTTP_BODY_COMPLETION wsi []] w = Inr w'
     \<and> getFd c = Some (r_ret (k (trace w) (Lws_Get_Socket_Fd wsi)))
     \<and> notified Base_Listener l (trace w') = notified Base_Listener l (trace w)
         @ [Received (s_server_id (the_server i w)) (ci_id c) body' (of_nat (length body'))]"
proof -
  let ?b = "\<lambda>b. w\<lparr>http_req_body := b\<rparr>"
  have s: "callback_http k up c (?b b) = http_switch k up i c (?b b)" for c b
    using serving by (intro callback_http_serving) simp
  have w: "callback_http k up c w = http_switch k up i c w" for c
    using serving by (rule callback_http_serving)
  from http_completion_event [where up = up and l = l and i = i and k = k and wsi = wsi and d = "[]"
      and w = "?b body'", OF _ up] inv fd
  show ?thesis by (simp add: w s) (auto simp: http_switch_def s fd_known_def Let_def)
qed

theorem http_interleaving_mixes_bodies_witness:
  "\<exists>w' c. rfold (callback_http demo_kernel quiet_up)
       [cb LWS_CALLBACK_HTTP 5 ''/a'', cb LWS_CALLBACK_HTTP_BODY 5 ''mine'',
        cb LWS_CALLBACK_HTTP 6 ''/b'', cb LWS_CALLBACK_HTTP_BODY 6 ''secret'',
        cb LWS_CALLBACK_HTTP_BODY_COMPLETION 5 []] http_demo = Inr w'
     \<and> getFd c = Some 5
     \<and> notified Base_Listener FACTORY (trace w') = [Client_Connected 8 1, Client_Connected 8 2,
         Received 8 (ci_id c) ''secret'' 6]"
  using http_interleaving_mixes_bodies [where up = quiet_up and k = demo_kernel and wsi = 5 and wsi' = 6
      and line = "''/a''" and body = "''mine''" and line' = "''/b''" and body' = "''secret''",
      OF http_demo_inv(2,1) _ quiet_up_ok(1)] demo_known(1)
  by (fastforce simp: http_demo_def)

text \<open>
  C9. Every callback that libwebsockets makes in a proper state (a new connection on a descriptor
  that is not in the table, a close or the end of a body on one that is) keeps the session
  specification of the HTTP server, and only an exhausted allocator can end it.
\<close>

theorem http_callback_keeps_sessions:
  assumes k: "kernel_ok k" and inv: "lws_inv l i w" and ok: "http_cb_ok k i c w"
    and up: "\<And>l e v. \<exists>v'. up l e v = Inr v' \<and> calm v v'"
  shows "case http_switch k up i c w of Inl e \<Rightarrow> e = Uncaught ''bad_alloc'' | Inr w' \<Rightarrow> lws_inv l i w'"
proof -
  have bl: "base_listener up" using up by unfold_locales (metis sum.inject(2))
  have tot: "\<exists>v'. up l e v = Inr v'" for l e v using up by blast
  from base_listener.http_switch_fault [OF bl inv ok tot] base_listener.http_switch_inv [OF bl k inv ok]
  show ?thesis by (auto split: sum.split)
qed

theorem http_callback_keeps_sessions_witness:
  "case http_switch demo_kernel quiet_up 0 (cb LWS_CALLBACK_CLOSED_HTTP 5 []) http_demo of
     Inl e \<Rightarrow> e = Uncaught ''bad_alloc'' | Inr w' \<Rightarrow> lws_inv FACTORY 0 w'"
  using http_callback_keeps_sessions [where up = quiet_up and c = "cb LWS_CALLBACK_CLOSED_HTTP 5 []",
      OF demo_kernel_ok http_demo_inv(1) _ quiet_up_ok(1)] demo_known(1)
  by (simp add: http_cb_ok_def)

text \<open>
  C10. The two callback reasons that report one close run the same removal: the second finds no
  client, and a disconnection of client 0, which no client is, is notified.
\<close>

theorem double_close_notifies_client_0:
  assumes inv: "lws_inv l i w" and fd: "\<And>tr. r_ret (k tr (Lws_Get_Socket_Fd wsi)) = fd"
    and known: "fd_known i fd w" and k: "kernel_ok k"
    and up: "\<And>l e v. \<exists>v'. up l e v = Inr v' \<and> calm v v'"
  shows "\<exists>w' cid. rbind (http_switch k up i (cb LWS_CALLBACK_CLOSED_HTTP wsi []) w)
         (http_switch k up i (cb LWS_CALLBACK_DEL_POLL_FD wsi [])) = Inr w'
     \<and> notified Base_Listener l (trace w') = notified Base_Listener l (trace w)
         @ [Client_Disconnected (s_server_id (the_server i w)) cid, Client_Disconnected (s_server_id (the_server i w)) 0]
     \<and> session_at l i w' = None"
proof -
  have bl: "base_listener up" using up by unfold_locales (metis sum.inject(2))
  have tot: "\<exists>v'. up l e v = Inr v'" for l e v using up by blast
  have tab: "lws_inv l i v \<Longrightarrow> tcp_table (s_clients (the_server i v))" for v :: "'a world_scheme"
    by (simp add: lws_inv_def lws_struct_def)
  from base_listener.lws_remove_total [OF bl tab [OF inv] tot] obtain v where
    v: "lws_remove k up i wsi w = Inr v" by blast
  have inv': "lws_inv l i v"
    by (rule base_listener.lws_remove_inv [OF bl inv _ v]) (simp add: fd known)
  from base_listener.lws_remove_total [OF bl tab [OF inv'] tot] obtain w' where
    w': "lws_remove k up i wsi v = Inr w'" by blast
  from base_listener.lws_remove_events [OF bl inv _ v] known
    base_listener.lws_remove_again [OF bl inv' _ w'] v w'
  show ?thesis by (auto simp: fd http_switch_def Let_def)
qed

theorem double_close_notifies_client_0_witness:
  "\<exists>w' cid. rbind (http_switch demo_kernel quiet_up 0 (cb LWS_CALLBACK_CLOSED_HTTP 5 []) http_demo)
         (http_switch demo_kernel quiet_up 0 (cb LWS_CALLBACK_DEL_POLL_FD 5 [])) = Inr w'
     \<and> notified Base_Listener FACTORY (trace w') = [Client_Connected 8 1, Client_Connected 8 2,
          Client_Disconnected 8 cid, Client_Disconnected 8 0]
     \<and> session_at FACTORY 0 w' = None"
  using double_close_notifies_client_0 [where up = quiet_up and wsi = 5 and fd = 5,
      OF http_demo_inv(1) _ demo_known(1) demo_kernel_ok quiet_up_ok(1)]
  by (simp add: http_demo_def)

section \<open>The websocket server\<close>

text \<open>
  C11. Every callback that libwebsockets makes in a proper state keeps the session specification of
  the websocket server, and only an exhausted allocator can end it.
\<close>

theorem ws_callback_keeps_sessions:
  assumes k: "kernel_ok k" and inv: "lws_inv l i w" and clients: "ws_clients_ok i w" and ok: "ws_cb_ok k i c w"
    and up: "\<And>l e v. \<exists>v'. up l e v = Inr v' \<and> calm v v'"
  shows "case ws_switch k up i c w of Inl e \<Rightarrow> e = Uncaught ''bad_alloc'' | Inr w' \<Rightarrow> lws_inv l i w'"
proof -
  have bl: "base_listener up" using up by unfold_locales (metis sum.inject(2))
  have tot: "\<exists>v'. up l e v = Inr v'" for l e v using up by blast
  from base_listener.ws_switch_fault [OF bl inv ok tot clients] base_listener.ws_switch_inv [OF bl k inv ok]
  show ?thesis by (auto split: sum.split)
qed

theorem ws_callback_keeps_sessions_witness:
  "case ws_switch demo_kernel quiet_up 0 (cb LWS_CALLBACK_RECEIVE 5 ''hello'') ws_demo of
     Inl e \<Rightarrow> e = Uncaught ''bad_alloc'' | Inr w' \<Rightarrow> lws_inv FACTORY 0 w'"
  using ws_callback_keeps_sessions [where up = quiet_up and c = "cb LWS_CALLBACK_RECEIVE 5 ''hello''",
      OF demo_kernel_ok ws_demo_inv(1,2) _ quiet_up_ok(1)] demo_known(3)
  by (simp add: ws_cb_ok_def)



text \<open>
  C13. The replacement loop returns for every text to replace that is not empty, and computes the
  left-to-right replacement of all its occurrences; replacing \<open>/\<close> by nothing drops every slash. With an
  empty text to replace it never returns.
\<close>

theorem replaceAll_replaces_all:
  "(from \<noteq> [] \<longrightarrow> replaceAll s from to = Some (subst_all from to s))
   \<and> replaceAll s ''/'' [] = Some (filter (\<lambda>c. c \<noteq> CHR ''/'') s) \<and> replaceAll s [] to = None"
proof -
  have "replaceAll s [] to = None"
    using replaceAll_loop_empty [of "[]" to 0 s] by (cases "replaceAll s [] to") (auto simp: replaceAll_def)
  then show ?thesis by (simp add: replaceAll_run subst_slash)
qed

theorem replaceAll_replaces_all_witness: "replaceAll ''aXbX'' ''X'' ''YX'' = Some ''aYXbYX''"
  using replaceAll_replaces_all [of "''X''" "''aXbX''" "''YX''"] by simp



section \<open>Messages to a protocol\<close>



text \<open>
  C16. The listener of both examples relays a message of a client of protocol \<open>sender\<close> to exactly the
  clients of protocol \<open>receiver\<close>, on each server of the list.
\<close>

theorem examples_relay_sender_to_receiver:
  assumes "m_server_factory w = FACTORY_PTR" "ws_tables_ok w" "unat len \<le> length msg"
    and "strcmp_eq protocol ''sender''" and app: "app = echo_app ids \<or> app = relay_app ids"
  shows "\<exists>w'. user_event k app u (Received_Protocol sid cid msg len protocol) w = Inr w' \<and> servers w' = servers w
     \<and> ws_written (trace w') = ws_written (trace w)
         @ concat (List.map (\<lambda>s. List.map (\<lambda>c. (client_wsi c, take (unat len) msg))
             (recipients s ''receiver'' (servers w))) ids)"
  using relay_to_all_run [OF assms(1-3), of k ids "''receiver''"] app assms(4)
  by (auto simp: user_event_def echo_app_def relay_app_def target_protocol_def)

theorem examples_relay_sender_to_receiver_witness:
  "\<exists>w'. user_event demo_kernel (echo_app [8]) 0 (Received_Protocol 8 1 ''hello'' 5 (''sender'' @ [NUL])) ws_demo = Inr w'
     \<and> ws_written (trace w') = [(6, ''hello'')]"
  using examples_relay_sender_to_receiver [of ws_demo 5 "''hello''" "''sender'' @ [NUL]" "echo_app [8]" "[8]"
      demo_kernel 0 8 1]
  by (auto simp: ws_demo_inv ws_demo_written strcmp_eq_def c_str_def NUL_def simp del: client_wsi.simps)

section \<open>Reading and writing JSON\<close>


text \<open>
  C18. What the fast writer writes of a value, the reader reads back: for every value without doubles,
  in the ranges of its constructors, nested at most as deep as the stack limit, whose text has no
  byte 0xFF (where the reader of a stream stops).
\<close>

theorem json_round_trip:
  assumes "wf_json v" "json_depth v \<le> stackLimit_g" "json_clean v"
  shows "parse_stream cd (FastWriter_write cd v) = Parsed v [CHR 0x0A]"
  by (rule parse_written_stream [OF assms])

theorem json_round_trip_witness:
  "parse_stream demo_double (FastWriter_write demo_double
      (objectValue [(''a'', arrayValue [intValue (-7), nullValue]), (''b'', stringValue [CHR 0x22, NUL])]))
   = Parsed (objectValue [(''a'', arrayValue [intValue (-7), nullValue]), (''b'', stringValue [CHR 0x22, NUL])]) [CHR 0x0A]"
  by (rule json_round_trip) (simp_all add: maxInt_def stackLimit_g_def NUL_def)

text \<open>
  The digit loop does not wrap: an integer token becomes an \<open>Int\<close>-typed value in its range, or an
  unsigned value above it and within 64 bits; larger numbers are left to the floating-point reader.
\<close>

theorem decodeNumber_in_range:
  "case decodeNumber cd tk of
     Some (intValue i) \<Rightarrow> - (2 ^ 63) \<le> i \<and> i \<le> 2 ^ 31 - 1
   | Some (uintValue n) \<Rightarrow> 2 ^ 31 \<le> n \<and> n < 2 ^ 64
   | _ \<Rightarrow> True"
proof (cases "take 1 tk = ''-''")
  case True
  have "v \<le> maxLargestInt + 1" if "decode_digits (maxLargestInt + 1) 0 (drop 1 tk) = Some v" for v
    using that by (rule decode_digits_bound) simp
  with True show ?thesis
    by (fastforce simp: decodeNumber_def maxLargestInt_def split: option.splits json.splits)
next
  case False
  have "v \<le> maxLargestUInt" if "decode_digits maxLargestUInt 0 tk = Some v" for v
    using that by (rule decode_digits_bound) simp
  with False show ?thesis
    by (fastforce simp: decodeNumber_def maxLargestUInt_def maxInt_def split: option.splits json.splits)
qed

section \<open>JSON values, paths and styled documents\<close>

text \<open>
  C20. The operations of \<open>Json::Value\<close> keep the type of a stored value: whatever sequence of assignments
  through subscripts, appends, clears, resizes and removals is applied, the integers stay in 64 bits, an
  array's map has indices as keys and an object's map strings, sorted and each once, at every depth - as
  long as no index reaches the largest 32-bit number, where the size of the array would wrap to 0.
\<close>

theorem value_operations_keep_type:
  assumes "value_ok v" "ops_ok ps v" "rfold value_step ps v = Inr w"
  shows "value_ok w"
  by (rule value_steps_ok [OF assms])

theorem value_operations_keep_type_witness:
  "value_ok (VObject [(CZ_String ''a'', VArray [(CZ_Index 0, VInt 7)]), (CZ_String ''b'', VNull)])"
  by (rule value_operations_keep_type [where v = VNull
        and ps = "[AssignMember ''b'' VNull, AssignMember ''c'' (VInt 1),
                   AssignMember ''a'' (VArray [(CZ_Index 0, VInt 7)]), RemoveMember ''c'']"])
    (simp_all add: m_sorted_def Value_resolveReference_def slot_def assign_entry_def Value_removeMember_def
      Value_removeMember_into_def m_erase_def)

text \<open>
  C19. The values a configuration is read from are stored values seen through \<open>json_of\<close>: the reader's
  result is the view of a well-formed stored value, and the lookups, the subscript that inserts and the
  conversions give the same on the stored value as on its view, exceptions included.
\<close>

theorem stored_values_refine:
  assumes "value_ok v"
  shows "json_find key (json_of v) = map_sum id (map_option json_of) (Value_find key v)
    \<and> member key (json_of v) = map_sum id json_of (Value_member key v)
    \<and> json_get key (json_of d) (json_of v) = map_sum id json_of (Value_get key d v)
    \<and> json_elem i (json_of v) = map_sum id json_of (Value_elem i v)
    \<and> resolveReference key (json_of v) = map_sum id (map_prod json_of json_of) (Value_resolveReference key v)
    \<and> asString (base_double cm) (json_of v) = Value_asString cm v
    \<and> asUInt (base_double cm) (json_of v) = map_sum id word_of_int (Value_asUInt cm v)
    \<and> asBool (base_double cm) (json_of v) = Value_asBool cm v
    \<and> (length doc < 2 ^ 32 \<longrightarrow> parse_document cd doc = Parsed j rest \<longrightarrow> value_ok (store j) \<and> json_of (store j) = j)"
proof (intro conjI impI)
  assume doc: "length doc < 2 ^ 32" "parse_document cd doc = Parsed j rest"
  have "json_fits (length doc) j"
    using fittingD [OF readValue_fits, of doc "length doc"] doc(2) by (auto simp: parse_document_def)
  with doc(1) show "value_ok (store j)" "json_of (store j) = j" using store_ok json_of_store by blast+
qed (rule stored_find [OF assms] stored_lookup [OF assms] stored_elem [OF assms] stored_resolve [OF assms]
    stored_conversions [OF assms])+

theorem stored_values_refine_witness:
  "member ''a'' (json_of (VObject [(CZ_String ''a'', VArray [(CZ_Index 1, VInt 7)])])) = Inr (arrayValue [nullValue, intValue 7])
   \<and> value_ok (store (arrayValue [])) \<and> json_of (store (arrayValue [])) = arrayValue []"
proof -
  have "readValue demo_double (Suc d) ''[]'' = Parsed (arrayValue []) []" for d
    by (simp add: skip_token readArray_def json_space_def)
  from this [of 999] have "parse_document demo_double ''[]'' = Parsed (arrayValue []) []"
    by (simp add: parse_document_def stackLimit_g_def)
  then show ?thesis
    using stored_values_refine [of "VObject [(CZ_String ''a'', VArray [(CZ_Index 1, VInt 7)])]" "''a''" VNull 0
        demo_math "''[]''" demo_double "arrayValue []" "[]"]
    by (simp add: m_sorted_def Value_member_def Value_find_def array_size_def)
qed

text \<open>
  An array without gaps is a list: reading, appending, shrinking and removing an index are the list
  operations. Growing an array by more than one leaves a gap that does not show in its size, and shrinking
  it afterwards to a size inside the gap throws.
\<close>

theorem arrays_are_lists:
  assumes "length xs < 2 ^ 32"
  shows "Value_size (VArray (arr xs)) = length xs
    \<and> Value_elem i (VArray (arr xs)) = Inr (if i < length xs then xs ! i else VNull)
    \<and> Value_append x (VArray (arr xs)) = Inr (VArray (arr (xs @ [x])))
    \<and> (n \<le> length xs \<longrightarrow> Value_resize n (VArray (arr xs)) = Inr (VArray (arr (take n xs))))
    \<and> Value_removeIndex i (VArray (arr xs))
      = (if i < length xs then (Some (xs ! i), VArray (arr (take i xs @ drop (Suc i) xs))) else (None, VArray (arr xs)))
    \<and> (length xs + 1 < n \<longrightarrow> n < 2 ^ 32 \<longrightarrow> (\<exists>v. Value_resize n (VArray (arr xs)) = Inr v \<and> Value_size v = n
      \<and> (\<forall>j. length xs < j \<and> j < n \<longrightarrow> Value_resize j v = Inl LogicError)))"
  using assms by (simp_all add: array_elem array_append array_resize_down array_removeIndex array_resize_gap)

theorem arrays_are_lists_witness:
  "Value_removeIndex 0 (VArray (arr [VBool True, VInt 2])) = (Some (VBool True), VArray (arr [VInt 2]))
   \<and> Value_resize 1 (VArray (arr [VBool True, VInt 2])) = Inr (VArray (arr [VBool True]))
   \<and> (\<exists>v. Value_resize 4 (VArray (arr [VNull])) = Inr v \<and> Value_size v = 4 \<and> Value_resize 3 v = Inl LogicError)"
  using arrays_are_lists [of "[VBool True, VInt 2]" 0 VNull 1] arrays_are_lists [of "[VNull]" 0 VNull 4]
  by auto

text \<open>
  C21. \<open>operator<\<close> on values is a strict weak order, \<open>operator==\<close> is its equivalence and \<open>compare\<close> its sign,
  for values whose doubles are ordered by the machine (no NaN) and whose maps are smaller than
  $2^{31}$, so that the narrowed difference of the sizes keeps its sign.
\<close>

theorem values_are_ordered:
  assumes "weak_order D (d_less cm) (d_eq cm)" "comparable D u" "comparable D v" "comparable D w"
  shows "\<not> Value_less cm u u
    \<and> (Value_less cm u v \<longrightarrow> Value_less cm v w \<longrightarrow> Value_less cm u w)
    \<and> (Value_equal cm u v \<longleftrightarrow> \<not> Value_less cm u v \<and> \<not> Value_less cm v u)
    \<and> (Value_equal cm u v \<longrightarrow> Value_equal cm v w \<longrightarrow> Value_equal cm u w)
    \<and> Value_compare cm u v = (if Value_equal cm u v then 0 else if Value_less cm u v then -1 else 1)
    \<and> Value_compare cm v u = - Value_compare cm u v"
proof -
  note order = values_ordered [OF assms(1)]
  have "\<not> Value_less cm u u" using wo_irrefl [OF order] assms by simp
  moreover have "Value_less cm u v \<longrightarrow> Value_less cm v w \<longrightarrow> Value_less cm u w"
    using wo_trans [OF order, of u v w] assms by simp
  moreover have "Value_equal cm u v \<longleftrightarrow> \<not> Value_less cm u v \<and> \<not> Value_less cm v u"
    using wo_eq_iff [OF order, of u v] assms by simp
  moreover have "Value_equal cm u v \<longrightarrow> Value_equal cm v w \<longrightarrow> Value_equal cm u w"
    using wo_eq_trans [OF order, of u v w] assms by simp
  moreover note compare_sign [OF assms(1-3)]
  ultimately show ?thesis by (intro conjI)
qed

theorem values_are_ordered_witness:
  "Value_less demo_math VNull (VReal 2) \<and> Value_compare demo_math (VReal 2) VNull = 1"
proof -
  have order: "weak_order UNIV (d_less demo_math) (d_eq demo_math)" by (simp add: demo_math_def weak_order_linorder)
  have "Value_less demo_math VNull (VReal 1)" "Value_less demo_math (VReal 1) (VReal 2)"
    by (simp_all add: Value_less.simps demo_math_def)
  moreover have "\<not> Value_equal demo_math VNull (VReal 2)" by (simp add: Value_equal.simps)
  ultimately show ?thesis
    using values_are_ordered [OF order, where u = VNull and v = "VReal 1" and w = "VReal 2"]
      values_are_ordered [OF order, where u = VNull and v = "VReal 2" and w = VNull]
    by simp
qed



text \<open>
  C23. The text of a path of plain names and indices parses to it, and the node that \<open>make\<close> makes along the
  path is the one that \<open>resolve\<close> finds in the changed root, with or without a default. A path without a
  zero byte always parses; at a zero byte the parser appends empty names forever.
\<close>

theorem paths_lead_to_their_nodes:
  assumes "list_all plain_argument as"
  shows "makePath ins (concat (List.map path_text as)) [] = Some as
    \<and> (Path_make as v = Inr (y, w) \<longrightarrow> Path_resolve as w = Inr y)
    \<and> (value_ok v \<longrightarrow> kindIndex (2 ^ 32 - 1) \<notin> set as \<longrightarrow> Path_make as v = Inr (y, w) \<longrightarrow> Path_resolve_default as d w = Inr y)
    \<and> (NUL \<notin> set s \<longrightarrow> (\<exists>args. makePath ins s [] = Some args))
    \<and> makePath ins (concat (List.map path_text as) @ NUL # s) [] = None"
proof (intro conjI impI)
  assume v: "value_ok v" "kindIndex (2 ^ 32 - 1) \<notin> set as" "Path_make as v = Inr (y, w)"
  show "Path_resolve_default as d w = Inr y"
  proof (rule made_needs_no_default [OF v(1) _ v(3)])
    fix i assume i: "kindIndex i \<in> set as"
    then have "i < 2 ^ 32" "i \<noteq> 2 ^ 32 - 1" using assms v(2) by (auto simp: list_all_iff)
    then show "i < 2 ^ 32 - 1" by linarith
  qed
qed (use makePath_text [OF assms, of ins "[]"] made_is_resolved makePath_ends makePath_text_NUL [OF assms] in auto)

theorem paths_lead_to_their_nodes_witness:
  "makePath [] ''.a[3]'' [] = Some [kindKey ''a'', kindIndex 3]
   \<and> Path_resolve [kindKey ''a'', kindIndex 3] (VObject [(CZ_String ''a'', VArray [(CZ_Index 3, VNull)])]) = Inr VNull
   \<and> Path_resolve_default [kindKey ''a'', kindIndex 3] (VInt 1) (VObject [(CZ_String ''a'', VArray [(CZ_Index 3, VNull)])])
     = Inr VNull"
proof -
  let ?as = "[kindKey ''a'', kindIndex 3]"
  have plain: "list_all plain_argument ?as" by (simp add: path_name_char_def NUL_def)
  have made: "Path_make ?as VNull = Inr (VNull, VObject [(CZ_String ''a'', VArray [(CZ_Index 3, VNull)])])"
    by (simp add: Value_resolveReference_def Value_index_def slot_def assign_entry_def)
  have "(char_of (51 :: nat) :: char) = CHR ''3''" by code_simp
  then have "dec_text 3 = ''3''" by (simp add: dec_text.simps)
  then show ?thesis
    using paths_lead_to_their_nodes [OF plain, where ins = "[]" and d = "VInt 1" and v = VNull] made
    by simp
qed




section \<open>The configuration\<close>

text \<open>
  C26. A configuration written as a JSON file and read by \<open>init\<close> is the configuration: every setting
  reaches its member, the servers in their order.
\<close>

theorem configuration_round_trip:
  assumes "config_ok c" "config_clean c"
    and "file \<noteq> []" "fs (c_str file) = Some (FastWriter_write cd (config_json c))"
  shows "init_configuration cd fs file newJsonConfiguration = (True, c)"
  using assms apply_config_json [OF assms(1), of cd] parse_written_config [OF assms(2), of cd]
  by (simp add: init_configuration_def isExistFile_def parse_configuration_def)

theorem configuration_round_trip_witness:
  "init_configuration demo_double (\<lambda>f. if f = ''cfg'' then Some (FastWriter_write demo_double (config_json demo_config))
       else None) ''cfg'' newJsonConfiguration = (True, demo_config)"
  by (rule configuration_round_trip) (simp_all add: config_ok_def config_clean_def server_clean_def demo_config_def
      demo_info_def newServerInfo_def newJsonConfiguration_def newCapabilities_def newLog_def m_server_kinds_def
      c_str_def NUL_def)

text \<open>
  A server entry that leaves out \<open>tcp\<close> and \<open>max_client\<close> does not keep the defaults of the
  constructor (TCP, 200 clients): the missing members read as null, so it becomes a UDP server for 0
  clients.
\<close>

theorem missing_members_override_defaults:
  assumes "map_of m_server_kinds ty = Some kinds"
  shows "si_tcp (newServerInfo ty kinds) \<and> si_max_client (newServerInfo ty kinds) = 200
     \<and> parse_server cd (mk_obj [(''type'', stringValue ty), (''enable'', booleanValue en), (''bind'', stringValue b)])
       = Inr (Some ((newServerInfo ty kinds)
           \<lparr>si_enable := en, si_bind := b, si_tcp := False, si_max_client := 0\<rparr>))"
proof -
  let ?kvs = "[(''type'', stringValue ty), (''enable'', booleanValue en), (''bind'', stringValue b)]"
  define server where "server = mk_obj ?kvs"
  have found: "member ''type'' server = Inr (stringValue ty)" "member ''enable'' server = Inr (booleanValue en)"
    "member ''bind'' server = Inr (stringValue b)"
    unfolding server_def by (simp_all add: mk_obj_lookup)
  have missing: "member ''tcp'' server = Inr nullValue" "member ''max_client'' server = Inr nullValue"
    "member ''protocols'' server = Inr nullValue"
    unfolding server_def by (simp_all add: mk_obj_def member_def json_find_def fold_insert_map_of)
  have "parse_server cd server = Inr (Some ((newServerInfo ty kinds)
           \<lparr>si_enable := en, si_bind := b, si_tcp := False, si_max_client := 0\<rparr>))"
    using assms by (simp add: parse_server_def parse_protocols_def found missing isNull_def asString_def
        asBool_def asUInt_def newServerInfo_def)
  then show ?thesis by (simp add: server_def newServerInfo_def)
qed

theorem missing_members_override_defaults_witness:
  "parse_server demo_double (mk_obj [(''type'', stringValue ''inet_domainsocket''), (''enable'', booleanValue True),
       (''bind'', stringValue ''8080'')])
   = Inr (Some ((newServerInfo ''inet_domainsocket'' INETDS)
           \<lparr>si_enable := True, si_bind := ''8080'', si_tcp := False, si_max_client := 0\<rparr>))"
  using missing_members_override_defaults [of "''inet_domainsocket''" INETDS demo_double True "''8080''"]
  by (simp add: m_server_kinds_def)

text \<open>
  C27. When the configuration cannot be used - the file is missing, or two servers are enabled while
  security is - \<open>init\<close> of the factory returns false and has created no server and made no system call.
\<close>

theorem factory_init_rejects:
  assumes c: "init_configuration (e_double env) (e_files env) file (m_configuration w) = (ok, c)"
    and bad: "\<not> ok \<or> enable_security (c_capabilities c) \<and> 2 \<le> length (filter si_enable (server_infos c))"
  shows "\<exists>w'. factory_init env file w = Inr (False, w') \<and> servers w' = servers w \<and> trace w' = trace w"
  using bad by (auto simp: factory_init_def c check_restrict_configuration_def Let_def)

theorem factory_init_rejects_witness:
  "\<exists>w'. factory_init demo_env ''none.json'' (demo_world []) = Inr (False, w') \<and> servers w' = [] \<and> trace w' = []"
  using factory_init_rejects [of demo_env "''none.json''" "demo_world []" False newJsonConfiguration]
  by (simp add: init_configuration_def isExistFile_def demo_env_def)

text \<open>
  C28. \<open>__create_servers__\<close> makes one server of the right class for every enabled entry of a supported
  kind, in the order of the file, with its name, binding, transport and id, the factory as its only
  listener and no clients; it fails exactly when an enabled websocket or HTTP entry asks for UDP.
\<close>

theorem create_servers_follows_configuration:
  assumes "create_servers env cap sis w = Inr (ok, w')"
  shows "(ok \<longleftrightarrow> \<not> list_ex needs_tcp sis)
     \<and> (ok \<longrightarrow> (\<exists>new. servers w' = servers w @ new
           \<and> list_all2 (made_from (e_hash env) cap) (filter creates sis) new))"
  using assms by (rule create_servers_run)

theorem create_servers_follows_configuration_witness:
  "case create_servers demo_env newCapabilities (server_infos demo_config) (demo_world []) of
     Inl e \<Rightarrow> False
   | Inr (ok, w') \<Rightarrow> ok \<and> list_all2 (made_from (e_hash demo_env) newCapabilities)
       [demo_info ''websocket'' WEBSOCKET, demo_info ''unix_domainsocket'' UNIXDS] (servers w')"
proof -
  obtain ok w' where run: "create_servers demo_env newCapabilities (server_infos demo_config) (demo_world []) = Inr (ok, w')"
    and ok: "\<not> list_ex needs_tcp (server_infos demo_config)"
  proof -
    have "case create_servers demo_env newCapabilities (server_infos demo_config) (demo_world []) of
       Inl e \<Rightarrow> False | Inr r \<Rightarrow> True"
      by (simp add: demo_config_def demo_info_def newServerInfo_def create_server_def ws_addProtocols_def
          ws_fill_protocols_run sys_def Let_def demo_env_def demo_kernel_def reply_ptr_def split: prod.split)
    moreover have "\<not> list_ex needs_tcp (server_infos demo_config)"
      by (simp add: demo_config_def demo_info_def needs_tcp_def newServerInfo_def)
    ultimately show thesis using that by (auto split: sum.splits)
  qed
  have "filter creates (server_infos demo_config) = [demo_info ''websocket'' WEBSOCKET, demo_info ''unix_domainsocket'' UNIXDS]"
    by (simp add: demo_config_def demo_info_def creates_def newServerInfo_def)
  with create_servers_follows_configuration [OF run] ok run show ?thesis by auto
qed

section \<open>The life of the servers\<close>

text \<open>
  C29. \<open>start\<close> creates the threads of the servers in their order, up to the first that cannot be
  created; it succeeds exactly when all were created, only then is the program running, and no other
  server is touched.
\<close>

theorem start_creates_threads:
  assumes "any_start k w = Inr (ok, w')"
  shows "\<exists>m \<le> length (servers w). (ok \<longleftrightarrow> m = length (servers w))
     \<and> (\<forall>i < m. s_thread (the_server i w') = Thread_Created)
     \<and> (\<forall>j \<ge> m. the_server j w' = the_server j w) \<and> (isRun w' \<longleftrightarrow> isRun w \<or> ok)"
proof -
  let ?n = "length (servers w)"
  from assms obtain v where run: "start_all k [0 ..< ?n] w = (ok, v)"
    and w': "w' = (if ok then v\<lparr>m_run := True\<rparr> else v)"
    by (auto simp: any_start_def on_factory_def factory_start_def split: if_splits prod.splits)
  from start_all_run [OF run] obtain dn rest where d: "[0 ..< ?n] = dn @ rest" "ok \<longleftrightarrow> rest = []"
    "\<forall>i \<in> set dn. s_thread (the_server i v) = Thread_Created"
    "\<forall>j. j \<notin> set dn \<longrightarrow> the_server j v = the_server j w" by (auto simp: lessThan_atLeast0)
  have len: "length dn + length rest = ?n" using arg_cong [OF d(1), of length] by simp
  have "dn = take (length dn) [0 ..< ?n]" using d(1) by simp
  also have "\<dots> = [0 ..< length dn]" using len by (simp add: take_upt)
  finally have dn: "set dn = {..< length dn}" by (metis atLeast_upt)
  have "m_run v = m_run w" by (rule start_all_m_run [OF run])
  with d dn len w' show ?thesis
    by (intro exI [of _ "length dn"]) (auto simp: isRun_def the_server_def)
qed

theorem start_creates_threads_witness:
  "\<exists>w'. any_start demo_kernel (demo_world [demo_server HttpTcpServer]) = Inr (True, w')
     \<and> s_thread (the_server 0 w') = Thread_Created \<and> isRun w'"
proof -
  obtain w' where run: "any_start demo_kernel (demo_world [demo_server HttpTcpServer]) = Inr (True, w')"
    by (auto simp: any_start_def on_factory_def FACTORY_PTR_def factory_start_def server_start_def http_start_def
        start_thread_def sys_def Let_def demo_kernel_def reply_ret_def)
  from start_creates_threads [OF run] run show ?thesis by auto
qed

text \<open>
  C30. After \<open>stop\<close> the program is not running, no server's run flag is set, and a thread that is in
  its loop - whatever the loop's body - returns at the next test of its condition.
\<close>

theorem stop_ends_the_loops:
  assumes "any_stop k w = Inr w'"
  shows "\<not> isRun w' \<and> length (servers w') = length (servers w)
     \<and> (\<forall>i < length (servers w). \<not> s_run_thread (the_server i w')
          \<and> run_loop body fin i n w' = Inr (True, thread_exit i (fin i w')))"
proof -
  let ?n = "length (servers w)"
  from assms obtain v where run: "rfold (server_stop k) [0 ..< ?n] w = Inr v" and w': "w' = v\<lparr>m_run := False\<rparr>"
    by (auto simp: any_stop_def on_factory_def factory_stop_def split: if_splits)
  from stop_all_run [OF run] w' show ?thesis
    by (auto simp: isRun_def run_loop.simps the_server_def lessThan_atLeast0)
qed

theorem stop_ends_the_loops_witness:
  "\<exists>w'. any_stop demo_kernel http_demo = Inr w' \<and> s_run_thread (the_server 0 http_demo)
     \<and> \<not> s_run_thread (the_server 0 w')"
proof -
  obtain w' where run: "any_stop demo_kernel http_demo = Inr w'"
    by (auto simp: any_stop_def on_factory_def FACTORY_PTR_def factory_stop_def server_stop_def http_demo_def
        lws_world_def the_server_def)
  from stop_ends_the_loops [OF run] run show ?thesis by (auto simp: http_demo_def)
qed

text \<open>
  C31. A \<open>stop\<close> that comes before the thread has reached its first statement is lost: the thread sets
  the run flag itself, so it behaves as if \<open>stop\<close> had not been called, on any number of passes.
\<close>

theorem early_stop_is_lost:
  "inet_tcp_thread k up i n (inet_tcp_stop i w) = inet_tcp_thread k up i n w
   \<and> unix_tcp_thread k up i n (unix_tcp_stop i w) = unix_tcp_thread k up i n w
   \<and> inet_udp_thread debug k up i n (inet_udp_stop i w) = inet_udp_thread debug k up i n w
   \<and> unix_udp_thread k up i n (unix_udp_stop i w) = unix_udp_thread k up i n w
   \<and> http_thread k up i n (http_stop i w) = http_thread k up i n w"
proof -
  have "thread_entry i (clear_run i w) = thread_entry i w"
    by (cases "i < length (servers w)") (simp_all add: thread_entry_def clear_run_def upd_server_def list_update_beyond)
  then show ?thesis
    by (simp add: inet_tcp_thread_def unix_tcp_thread_def inet_udp_thread_def unix_udp_thread_def http_thread_def
        inet_tcp_stop_def unix_tcp_stop_def inet_udp_stop_def unix_udp_stop_def http_stop_def)
qed

text \<open>
  C32. \<open>sendToClient\<close> of the public interface: an unknown server is reported, with nothing changed; a
  client that is no longer in the server's table is not - the null pointer is dereferenced, whatever
  the server - while the sender with a protocol reports it.
\<close>

theorem stale_client_is_dereferenced:
  assumes "m_server_factory w = FACTORY_PTR"
  shows "case find_server sid [0 ..< length (servers w)] w of
      None \<Rightarrow> any_sendToClient k sid cid msg len w = Inr (False, w)
    | Some i \<Rightarrow> findClientInfo cid (s_clients (the_server i w)) = None \<longrightarrow>
        any_sendToClient k sid cid msg len w = Inl Null_Deref
        \<and> server_sendToClient_protocol k i cid p msg len w = Inr (False, w)"
  using assms
  by (auto simp: any_sendToClient_def on_factory_def FACTORY_PTR_def factory_sendToClient_def
      server_sendToClient_def server_sendToClient_protocol_def ws_sendToClient_def ws_sendToClient_protocol_def
      http_sendToClient_def inet_tcp_sendToClient_def unix_tcp_sendToClient_def tcp_sendToClient_def
      inet_udp_sendToClient_def unix_udp_sendToClient_def udp_sendToClient_def
      split: option.split server_kind.split)

theorem stale_client_is_dereferenced_witness:
  "any_sendToClient demo_kernel 5 1 ''hi'' 2 ws_demo = Inr (False, ws_demo)
   \<and> any_sendToClient demo_kernel 8 3 ''hi'' 2 ws_demo = Inl Null_Deref"
  using stale_client_is_dereferenced [where w = ws_demo and sid = 5 and cid = 1 and msg = "''hi''" and len = 2]
    stale_client_is_dereferenced [where w = ws_demo and sid = 8 and cid = 3 and msg = "''hi''" and len = 2]
  by (simp add: ws_demo_written) (simp add: ws_demo_def newWebSocketTcpClientInfo_def hash_ptr_def)

section \<open>Events and the application\<close>







section \<open>Signals and the public object\<close>

text \<open>
  C36. \<open>init\<close> registers the object once for each of the four signals and takes over exactly those of
  them that can be caught; its destructor puts every disposition of the process back and clears the
  global pointer.
\<close>

theorem signals_registered_and_restored:
  fixes h :: nat
  assumes new: "new_interceptor this s = Inr ps"
    and err: "\<And>sig. catchable sig \<Longrightarrow> dispositions s sig \<noteq> SIG_ERR"
  defines "qs \<equiv> HandleSignals catchable signal_ids h ps"
  shows "registered (fst qs) sig = (if sig \<in> set signal_ids then [h] else [])
     \<and> dispositions (snd qs) sig = (if catchable sig \<and> sig \<in> set signal_ids then InterceptorSignalHandler
          else dispositions s sig)
     \<and> (\<exists>s'. delete_interceptor catchable this qs = Inr s' \<and> dispositions s' = dispositions s
          \<and> g_Current s' = None)"
proof -
  obtain p t where qs: "qs = (p, t)" by (cases qs)
  note n = new_interceptor_inv [OF new, of catchable]
  have inv: "sig_inv catchable (dispositions s) (p, t)" and cur: "g_Current t = Some this"
    and reg: "registered p x = replicate (count_list signal_ids x) h" for x
    using HandleSignals_run [OF conjunct1 [OF n], of signal_ids h] n qs by (simp_all add: qs_def)
  have count: "count_list signal_ids x = (if x \<in> set signal_ids then 1 else 0)" for x
    by (simp add: signal_ids_def SIGINT_def SIGQUIT_def SIGTERM_def SIGHUP_def)
  from delete_interceptor_run [OF inv cur err] inv registered_iff [OF inv, of sig] reg [of sig] count [of sig]
  show ?thesis by (auto simp: qs sig_inv_def)
qed

theorem signals_registered_and_restored_witness:
  "case new_interceptor 0 \<lparr>g_Current = None, dispositions = (\<lambda>_. SIG_DFL)\<rparr> of
     Inl e \<Rightarrow> False
   | Inr ps \<Rightarrow> registered (fst (HandleSignals (\<lambda>sig. sig \<noteq> 9) signal_ids ANYSERVER ps)) SIGINT = [ANYSERVER]
       \<and> (\<exists>s'. delete_interceptor (\<lambda>sig. sig \<noteq> 9) 0 (HandleSignals (\<lambda>sig. sig \<noteq> 9) signal_ids ANYSERVER ps) = Inr s'
            \<and> dispositions s' SIGINT = SIG_DFL)"
  using signals_registered_and_restored [of 0 "\<lparr>g_Current = None, dispositions = (\<lambda>_. SIG_DFL)\<rparr>" _ "\<lambda>sig. sig \<noteq> 9"
      ANYSERVER SIGINT]
  by (auto simp: new_interceptor_def signal_ids_def)



section \<open>The logger\<close>

text \<open>
  C38. No log file grows past the configured size by more than one line, whatever is logged, at whatever
  time, and however often a file cannot be opened.
\<close>

theorem log_files_are_bounded:
  assumes "log_inv g" "file_bound (unat (m_filesize g) + LINE_MAX) g f"
  shows "file_bound (unat (m_filesize g) + LINE_MAX)
    (fold (\<lambda>(enable, ok, t, ty, src, line, func, msg). logging enable ok t ty src line func msg) ms g) f"
  using assms
proof (induction ms arbitrary: g)
  case (Cons m ms)
  obtain enable ok t ty src line fm where "m = (enable, ok, t, ty, src, line, fm)" by (rule prod_cases7)
  then obtain func msg where m: "m = (enable, ok, t, ty, src, line, func, msg)" by (cases fm) auto
  let ?g = "logging enable ok t ty src line func msg g"
  note size = logging_inv(2) [OF Cons.prems(1), of enable ok t ty src line func msg]
  from Cons.IH [of ?g] logging_inv(1) [OF Cons.prems(1)] logging_bound [OF Cons.prems] size m
  show ?case by simp
qed simp

theorem log_files_are_bounded_witness:
  "file_bound (100 + LINE_MAX) (fold (\<lambda>(enable, ok, t, ty, src, line, func, msg). logging enable ok t ty src line func msg)
      (replicate 1000 (True, True, \<lparr>tm_year = 117, tm_mon = 0, tm_mday = 1, tm_hour = 0, tm_min = 0, tm_sec = 0\<rparr>,
         INFO, ''main.cpp'', 1, ''main'', ''started''))
      (setLogLevel True True True True True 100 ''/tmp'' ''any'' (initial_logger (\<lambda>_. None)))) ''/tmp/any.log''"
proof -
  let ?g = "setLogLevel True True True True True 100 ''/tmp'' ''any'' (initial_logger (\<lambda>_. None))"
  have g: "log_inv ?g" "m_filesize ?g = 100" "file_bound (unat (m_filesize ?g) + LINE_MAX) ?g ''/tmp/any.log''"
    by (simp_all add: log_inv_def file_bound_def setLogLevel_def initial_logger_def)
  have "unat (m_filesize ?g) = 100" by (simp add: g(2))
  with log_files_are_bounded [OF g(1,3)] show ?thesis by (simp only:)
qed

text \<open>
  The message during whose logging the file is created is in no file: the file is empty after it,
  while every other file is as before; the next message is written whole.
\<close>

theorem first_message_is_lost:
  fixes t :: tm and ty :: log_type and src func msg :: string and line :: nat
  assumes none: "m_log_fp g = None" and on: "m_filewrite g"
  defines "name \<equiv> c_str (logfile_name g t)"
  defines "g1 \<equiv> logging True True t ty src line func msg g"
  shows "files g1 = (files g)(name := Some [])
     \<and> files (logging True ok t2 ty2 file2 line2 func2 msg2 g1) name
       = Some (msg_prefix (m_use_date g) ty2 t2 file2 func2 line2 @ c_str (snprintf MAX_MSG_LEN msg2))"
  using none on
  by (simp add: g1_def name_def logging_def log_line_def save_logfile_def logfile_name_def Let_def)

theorem first_message_is_lost_witness:
  "files (logging True True \<lparr>tm_year = 117, tm_mon = 0, tm_mday = 1, tm_hour = 0, tm_min = 0, tm_sec = 0\<rparr> ERROR
      ''a.cpp'' 1 ''f'' ''lost'' (setLogLevel True True True True True 100 ''/tmp'' ''any'' (initial_logger (\<lambda>_. None))))
    (c_str (logfile_name (setLogLevel True True True True True 100 ''/tmp'' ''any'' (initial_logger (\<lambda>_. None)))
      \<lparr>tm_year = 117, tm_mon = 0, tm_mday = 1, tm_hour = 0, tm_min = 0, tm_sec = 0\<rparr>)) = Some []"
  using first_message_is_lost [where g = "setLogLevel True True True True True 100 ''/tmp'' ''any'' (initial_logger (\<lambda>_. None))"
      and t = "\<lparr>tm_year = 117, tm_mon = 0, tm_mday = 1, tm_hour = 0, tm_min = 0, tm_sec = 0\<rparr>"
      and ty = ERROR and src = "''a.cpp''" and line = 1 and func = "''f''" and msg = "''lost''"]
  by (simp add: setLogLevel_def initial_logger_def)

section \<open>Boundaries\<close>

text \<open>
  The port of an inet server is the number of its \<open>bind\<close> string modulo 65536: a larger number is
  accepted and another port is bound.
\<close>

theorem port_is_truncated:
  assumes "s_bind (the_server i w) = dec_text n" "int n \<le> int_max" "i < length (servers w)"
  shows "case inet_udp_init k i w of Inl e \<Rightarrow> False
    | Inr (ok, w') \<Rightarrow> ok \<longrightarrow> (\<exists>fd port r. last (trace w') = Call (Bind fd (Port port)) r
        \<and> unat port = n mod 65536)"
proof -
  have "stoi (dec_text n) = Inr (int n)" using stoi_dec_text [OF assms(2), of "[]"] by simp
  moreover have "unat (htons (int n)) = n mod 65536"
    by (simp add: htons_def unsigned_of_nat take_bit_eq_mod)
  ultimately show ?thesis using assms by (simp add: inet_udp_init_def sys_def Let_def)
qed

theorem port_is_truncated_witness:
  "case inet_udp_init demo_kernel 0 (demo_world [(demo_server InetDomainSocketUdpServer)\<lparr>s_bind := ''65616''\<rparr>]) of
     Inl e \<Rightarrow> False
   | Inr (ok, w') \<Rightarrow> ok \<longrightarrow> (\<exists>fd port r. last (trace w') = Call (Bind fd (Port port)) r \<and> unat port = 65616 mod 65536)"
proof -
  have "char_of (48 :: nat) = CHR ''0''" "char_of (49 :: nat) = CHR ''1''" "char_of (53 :: nat) = CHR ''5''"
    "char_of (54 :: nat) = CHR ''6''" by code_simp+
  then have "dec_text 65616 = ''65616''" by (simp add: dec_text.simps)
  with port_is_truncated [where i = 0 and n = 65616 and k = demo_kernel
      and w = "demo_world [(demo_server InetDomainSocketUdpServer)\<lparr>s_bind := ''65616''\<rparr>]"]
  show ?thesis by (simp add: int_max_def)
qed


text \<open>
  C40. The client table as a map from descriptors to records: a record that is added under a free
  descriptor is found under it, no other lookup changes, and removing the descriptor returns its id
  and gives the table back.
\<close>

theorem client_table_is_a_map:
  assumes "tcp_table cs" "getFd c = Some fd" "ci_id c \<notin> ci_id ` set cs" "findClientInfo_fd fd cs = Inr None"
  shows "findClientInfo_fd fd' (snd (addClientInfo c cs))
       = (if fd' = fd then Inr (Some c) else findClientInfo_fd fd' cs)
     \<and> removeClientInfo_fd fd (snd (addClientInfo c cs)) = Inr (ci_id c, cs)"
proof -
  have tab: "tcp_table (cs @ [c])" using by_fd.wf_add [OF assms(1) _ assms(3)] assms(2) by simp
  have "findClientInfo_fd fd' (cs @ [c]) = findClientInfo_fd fd' cs" if "fd' \<noteq> fd"
    using by_fd.lookup_other [OF tab by_fd.add_remove [OF assms] that] by simp
  then show ?thesis
    using by_fd.lookup_added [OF assms(1-4)] by_fd.add_remove [OF assms] by (simp add: addClientInfo_def)
qed

theorem client_table_is_a_map_witness:
  "removeClientInfo_fd 6 (snd (addClientInfo (newTcpClientInfo 2 6 []) [newTcpClientInfo 1 5 []]))
   = Inr (2, [newTcpClientInfo 1 5 []])"
  using client_table_is_a_map [of "[newTcpClientInfo 1 5 []]" "newTcpClientInfo 2 6 []" 6 6]
  by (simp add: tcp_table_def newTcpClientInfo_def getFd_def hash_ptr_def)

text \<open>
  \<open>stop\<close> of the websocket server joins its thread without remembering that it did: a second
  \<open>stop\<close> - and the destructor, which calls \<open>stop\<close> again - uses an indeterminate thread handle.
\<close>

theorem second_stop_joins_again:
  assumes "i < length (servers w)" "\<And>tr. r_ret (k tr (Pthread_Join i)) = 0"
  shows "rbind (ws_stop k i w) (ws_stop k i) = Inl Wild_Deref
     \<and> rbind (ws_stop k i w) (ws_destroy k i) = Inl Wild_Deref"
  using assms by (simp add: ws_stop_def ws_destroy_def clear_run_def sys_def Let_def)

theorem second_stop_joins_again_witness:
  "rbind (ws_stop demo_kernel 0 ws_demo) (ws_stop demo_kernel 0) = Inl Wild_Deref"
  using second_stop_joins_again [of 0 ws_demo demo_kernel]
  by (simp add: demo_kernel_def reply_ret_def ws_demo_def)

text \<open>
  The client map of the echo example: after any valid sequence of sessions of a server its keys
  are exactly the clients that are connected.
\<close>

theorem echo_map_is_connected_set:
  assumes "session_run sid es {} = Some connected" "list_all (from_server sid) es"
  shows "dom (echo_clients es) = connected"
  unfolding echo_clients_def using assms by (rule echo_clients_session) simp

theorem echo_map_is_connected_set_witness:
  "dom (echo_clients [Client_Connected 8 1, Client_Connected 8 2, Received 8 2 ''hi'' 2, Client_Disconnected 8 1]) = {2}"
  by (rule echo_map_is_connected_set [of 8]) auto

end
